(* ===== verification/Prelude.thy ===== *)
theory Prelude
  imports Main "HOL-Library.Word"
begin

text \<open>
  What every component of the model shares: Go's error values, the outcome of a Go call
  (a value, an error or a panic), bytes, and readers.

  A Go \<open>string\<close> is a sequence of bytes, and so is HOL's \<open>string\<close> (its characters are 8 bits
  wide), so \<open>length\<close> counts what \<open>len\<close> counts. File contents are lists of \<open>8 word\<close>.
\<close>

section \<open>Collections of facts\<close>

named_theorems go_simps \<open>rewrite rules for the Go library functions on concrete shapes\<close>
named_theorems op_defs \<open>definitions of the operations of a component\<close>
named_theorems blob_simps \<open>what an operation does to the blobs of a store\<close>

section \<open>Bytes and errors\<close>

type_synonym byte = "8 word"
type_synonym bytes = "byte list"

text \<open>
  The dynamic types of the \<open>error\<close> values the program builds: \<open>errors.New\<close> and \<open>fmt.Errorf\<close>
  without \<open>%w\<close> (a message), \<open>fmt.Errorf\<close> with \<open>%w\<close> (a message and the wrapped error) and
  the program's own \<open>SecurityError\<close> of pkg/errors.
\<close>

datatype goerr =
    ErrorString string
  | WrapError string goerr
  | SecurityError (UserMessage: string) (InternalError: "goerr option") (ErrorCode: string)

text \<open>\<open>err.Error()\<close> and \<open>errors.Unwrap\<close>.\<close>

fun Error :: "goerr \<Rightarrow> string" where
  "Error (ErrorString m) = m"
| "Error (WrapError m e) = m"
| "Error (SecurityError um ie ec) = um"

fun Unwrap :: "goerr \<Rightarrow> goerr option" where
  "Unwrap (ErrorString m) = None"
| "Unwrap (WrapError m e) = Some e"
| "Unwrap (SecurityError um ie ec) = ie"

definition wrapf :: "string \<Rightarrow> goerr \<Rightarrow> goerr" where
  \<comment> \<open>\<open>fmt.Errorf(prefix + "%w", err)\<close>\<close>
  "wrapf pre e = WrapError (pre @ Error e) e"

lemma Error_wrapf [simp]: "Error (wrapf pre e) = pre @ Error e"
  by (simp add: wrapf_def)

lemma Unwrap_wrapf [simp]: "Unwrap (wrapf pre e) = Some e"
  by (simp add: wrapf_def)

section \<open>Outcomes\<close>

text \<open>
  A Go call that returns a value or an error is a sum (\<open>Inl\<close> the error); where the code can
  also panic (a slice out of range, a nil pointer), the outcome has three cases.
\<close>

type_synonym 'a result = "goerr + 'a"

datatype 'a res = Ok 'a | Err goerr | Panic string

fun is_ok :: "'a res \<Rightarrow> bool" where
  "is_ok (Ok x) = True"
| "is_ok (Err e) = False"
| "is_ok (Panic m) = False"

fun is_panic :: "'a res \<Rightarrow> bool" where
  "is_panic (Panic m) = True"
| "is_panic (Ok x) = False"
| "is_panic (Err e) = False"

lemma is_ok_iff: "is_ok r \<longleftrightarrow> (\<exists>x. r = Ok x)"
  by (cases r) auto

lemma is_panic_iff: "is_panic r \<longleftrightarrow> (\<exists>m. r = Panic m)"
  by (cases r) auto

section \<open>Readers\<close>

text \<open>
  An \<open>io.Reader\<close> as its consumer sees it: the bytes it delivers, and the error (other than
  \<open>io.EOF\<close>) that ends the stream, if any.
\<close>

record reader =
  rd_data :: bytes
  rd_err :: "goerr option"

definition reader_of :: "bytes \<Rightarrow> reader" where
  "reader_of bs = \<lparr>rd_data = bs, rd_err = None\<rparr>"

lemma reader_of_simps [simp]:
  "rd_data (reader_of bs) = bs" "rd_err (reader_of bs) = None"
  by (simp_all add: reader_of_def)

section \<open>Lists\<close>

lemma filter_eq_single:
  assumes "distinct (map f xs)" and "x \<in> set xs"
  shows "filter (\<lambda>y. f y = f x) xs = [x]"
  using assms
proof (induction xs)
  case Nil
  then show ?case by simp
next
  case (Cons a xs)
  have none: "filter (\<lambda>y. f y = f a) xs = []"
    using Cons.prems by (auto simp: filter_empty_conv image_iff)
  show ?case
  proof (cases "x = a")
    case True
    with none show ?thesis by simp
  next
    case False
    with Cons have "f a \<noteq> f x" by (auto simp: image_iff)
    with False Cons show ?thesis by auto
  qed
qed

lemma distinct_map_filter_key: "distinct (map f xs) \<Longrightarrow> distinct (map f (filter P xs))"
  by (induction xs) auto

lemma find_None_filter: "find P xs = None \<longleftrightarrow> filter P xs = []"
  by (auto simp: find_None_iff filter_empty_conv)

lemma find_Some_mem: "find P xs = Some x \<Longrightarrow> x \<in> set xs \<and> P x"
  by (auto simp: find_Some_iff)

lemma find_unique:
  assumes "distinct (map f xs)" and "x \<in> set xs"
  shows "find (\<lambda>y. f y = f x) xs = Some x"
  using assms
proof (induction xs)
  case Nil
  then show ?case by simp
next
  case (Cons a xs)
  then show ?case by (cases "x = a") (auto simp: image_iff)
qed

lemma find_key_iff:
  assumes "distinct (map f xs)"
  shows "find (\<lambda>y. f y = k) xs = Some x \<longleftrightarrow> x \<in> set xs \<and> f x = k"
  using find_unique [OF assms] find_Some_mem by fastforce

lemma find_cong_pred: "(\<And>x. x \<in> set xs \<Longrightarrow> P x = Q x) \<Longrightarrow> find P xs = find Q xs"
  by (induction xs) auto

lemma find_append: "find P (xs @ ys) = (case find P xs of Some x \<Rightarrow> Some x | None \<Rightarrow> find P ys)"
  by (induction xs) auto

lemma find_map_key:
  "(\<And>x. f (g x) = f x) \<Longrightarrow> find (\<lambda>x. f x = k) (map g xs) = map_option g (find (\<lambda>x. f x = k) xs)"
  by (induction xs) auto

lemma find_filter_key:
  "(\<And>x. x \<in> set xs \<Longrightarrow> f x = k \<Longrightarrow> P x) \<Longrightarrow>
   find (\<lambda>x. f x = k) (filter P xs) = find (\<lambda>x. f x = k) xs"
  by (induction xs) auto

end
