(* ===== verification/GoStrings.thy ===== *)
theory GoStrings
  imports Prelude
begin

text \<open>
  What the program uses of Go's \<open>strings\<close>, \<open>strconv\<close>, \<open>encoding/hex\<close> and \<open>unicode/utf8\<close>,
  and of the \<open>range\<close> loop over a string (which decodes UTF-8). The definitions follow the
  documented behaviour of the standard library byte by byte; they model no line of the
  repository and are the vocabulary of the component theories.
\<close>

section \<open>Byte-level functions of package strings\<close>

definition HasPrefix :: "string \<Rightarrow> string \<Rightarrow> bool" where
  "HasPrefix s p \<longleftrightarrow> take (length p) s = p"

definition HasSuffix :: "string \<Rightarrow> string \<Rightarrow> bool" where
  "HasSuffix s p \<longleftrightarrow> length p \<le> length s \<and> drop (length s - length p) s = p"

fun Contains :: "string \<Rightarrow> string \<Rightarrow> bool" where
  "Contains [] sub \<longleftrightarrow> sub = []"
| "Contains (c # cs) sub \<longleftrightarrow> HasPrefix (c # cs) sub \<or> Contains cs sub"

definition TrimPrefix :: "string \<Rightarrow> string \<Rightarrow> string" where
  "TrimPrefix s p = (if HasPrefix s p then drop (length p) s else s)"

definition TrimSuffix :: "string \<Rightarrow> string \<Rightarrow> string" where
  "TrimSuffix s p = (if HasSuffix s p then take (length s - length p) s else s)"

definition Trim :: "string \<Rightarrow> string \<Rightarrow> string" where
  \<comment> \<open>\<open>strings.Trim\<close> with an ASCII cutset\<close>
  "Trim s cutset =
     rev (dropWhile (\<lambda>c. c \<in> set cutset) (rev (dropWhile (\<lambda>c. c \<in> set cutset) s)))"

fun ReplaceFirst :: "string \<Rightarrow> string \<Rightarrow> string \<Rightarrow> string" where
  \<comment> \<open>\<open>strings.Replace(s, old, new, 1)\<close>\<close>
  "ReplaceFirst [] old new = (if old = [] then new else [])"
| "ReplaceFirst (c # cs) old new =
     (if HasPrefix (c # cs) old then new @ drop (length old) (c # cs)
      else c # ReplaceFirst cs old new)"

fun Split :: "char \<Rightarrow> string \<Rightarrow> string list" where
  \<comment> \<open>\<open>strings.Split(s, sep)\<close> with a one-byte separator\<close>
  "Split sep [] = [[]]"
| "Split sep (c # cs) =
     (if c = sep then [] # Split sep cs
      else (case Split sep cs of [] \<Rightarrow> [[c]] | w # ws \<Rightarrow> (c # w) # ws))"

fun JoinWith :: "string \<Rightarrow> string list \<Rightarrow> string" where
  \<comment> \<open>\<open>strings.Join(elems, sep)\<close>\<close>
  "JoinWith sep [] = []"
| "JoinWith sep [w] = w"
| "JoinWith sep (w # ws) = w @ sep @ JoinWith sep ws"

definition LastIndexByte :: "string \<Rightarrow> char \<Rightarrow> int" where
  \<comment> \<open>\<open>strings.LastIndex(s, c)\<close> for a one-byte string: -1 when absent\<close>
  "LastIndexByte s c =
     (if c \<in> set s then int (length s) - 1 - int (length (takeWhile (\<lambda>d. d \<noteq> c) (rev s)))
      else - 1)"

section \<open>Decimal and hexadecimal\<close>

definition digit_char :: "nat \<Rightarrow> char" where
  \<comment> \<open>for \<open>d < 10\<close>\<close>
  "digit_char d = ''0123456789'' ! d"

fun nat_digits :: "nat \<Rightarrow> string" where
  "nat_digits n = (if n < 10 then [digit_char n] else nat_digits (n div 10) @ [digit_char (n mod 10)])"

declare nat_digits.simps [simp del]

definition Itoa :: "int \<Rightarrow> string" where
  \<comment> \<open>the verb \<open>%d\<close> and \<open>strconv.FormatInt(i, 10)\<close>\<close>
  "Itoa i = (if i < 0 then CHR ''-'' # nat_digits (nat (- i)) else nat_digits (nat i))"

lemma nat_digits_not_Nil [simp]: "nat_digits n \<noteq> []"
  by (subst nat_digits.simps) simp

lemma Itoa_not_Nil [simp]: "Itoa i \<noteq> []"
  by (simp add: Itoa_def)

definition hex_digits :: string where
  "hex_digits = ''0123456789abcdef''"

definition hex_char :: "nat \<Rightarrow> char" where
  \<comment> \<open>for \<open>d < 16\<close>\<close>
  "hex_char d = hex_digits ! d"

definition hex_of_byte :: "byte \<Rightarrow> string" where
  "hex_of_byte b = [hex_char (unat b div 16), hex_char (unat b mod 16)]"

definition EncodeToString :: "bytes \<Rightarrow> string" where
  \<comment> \<open>\<open>hex.EncodeToString\<close>\<close>
  "EncodeToString bs = concat (map hex_of_byte bs)"

section \<open>UTF-8\<close>

type_synonym rune = nat

definition RuneError :: rune where
  "RuneError = 65533"

definition is_cont :: "nat \<Rightarrow> bool" where
  "is_cont b \<longleftrightarrow> 128 \<le> b \<and> b \<le> 191"

text \<open>
  A multi-byte sequence after its first byte: the rune and how many further bytes it takes,
  or \<open>None\<close> where Go yields \<open>RuneError\<close> of width one (a stray continuation byte, an
  overlong form, a surrogate, a value past U+10FFFF, a truncated sequence).
\<close>

definition multi_byte :: "nat \<Rightarrow> nat list \<Rightarrow> (rune \<times> nat) option" where
  "multi_byte b0 bs =
     (if 194 \<le> b0 \<and> b0 \<le> 223 then
        (case bs of
           b1 # _ \<Rightarrow> if is_cont b1 then Some ((b0 - 192) * 64 + (b1 - 128), 1) else None
         | [] \<Rightarrow> None)
      else if 224 \<le> b0 \<and> b0 \<le> 239 then
        (case bs of
           b1 # b2 # _ \<Rightarrow>
             if (if b0 = 224 then 160 else 128) \<le> b1 \<and> b1 \<le> (if b0 = 237 then 159 else 191) \<and> is_cont b2
             then Some ((b0 - 224) * 4096 + (b1 - 128) * 64 + (b2 - 128), 2) else None
         | _ \<Rightarrow> None)
      else if 240 \<le> b0 \<and> b0 \<le> 244 then
        (case bs of
           b1 # b2 # b3 # _ \<Rightarrow>
             if (if b0 = 240 then 144 else 128) \<le> b1 \<and> b1 \<le> (if b0 = 244 then 143 else 191)
                \<and> is_cont b2 \<and> is_cont b3
             then Some ((b0 - 240) * 262144 + (b1 - 128) * 4096 + (b2 - 128) * 64 + (b3 - 128), 3)
             else None
         | _ \<Rightarrow> None)
      else None)"

fun decode :: "nat list \<Rightarrow> rune list" where
  "decode [] = []"
| "decode (b0 # bs) =
     (if b0 < 128 then b0 # decode bs
      else (case multi_byte b0 bs of
              Some (r, n) \<Rightarrow> r # decode (drop n bs)
            | None \<Rightarrow> RuneError # decode bs))"

fun valid_bytes :: "nat list \<Rightarrow> bool" where
  "valid_bytes [] \<longleftrightarrow> True"
| "valid_bytes (b0 # bs) \<longleftrightarrow>
     (if b0 < 128 then valid_bytes bs
      else (case multi_byte b0 bs of
              Some (r, n) \<Rightarrow> valid_bytes (drop n bs)
            | None \<Rightarrow> False))"

definition encode_rune :: "rune \<Rightarrow> nat list" where
  "encode_rune r =
     (if r < 128 then [r]
      else if r < 2048 then [192 + r div 64, 128 + r mod 64]
      else if 55296 \<le> r \<and> r \<le> 57343 \<or> 1114111 < r then [239, 191, 189]
      else if r < 65536 then [224 + r div 4096, 128 + r div 64 mod 64, 128 + r mod 64]
      else [240 + r div 262144, 128 + r div 4096 mod 64, 128 + r div 64 mod 64, 128 + r mod 64])"

definition codes :: "string \<Rightarrow> nat list" where
  "codes s = map of_char s"

definition runes :: "string \<Rightarrow> rune list" where
  \<comment> \<open>the runes a \<open>range\<close> loop over \<open>s\<close> visits\<close>
  "runes s = decode (codes s)"

definition ValidString :: "string \<Rightarrow> bool" where
  "ValidString s = valid_bytes (codes s)"

definition RuneCountInString :: "string \<Rightarrow> nat" where
  "RuneCountInString s = length (runes s)"

definition string_of_runes :: "rune list \<Rightarrow> string" where
  "string_of_runes rs = map char_of (concat (map encode_rune rs))"

definition ToValidUTF8 :: "string \<Rightarrow> string" where
  \<comment> \<open>each byte that is not part of a valid sequence becomes U+FFFD\<close>
  "ToValidUTF8 s = string_of_runes (runes s)"

section \<open>Case mapping\<close>

text \<open>
  \<open>strings.ToLower\<close> and \<open>strings.ToUpper\<close> map every rune by \<open>unicode.ToLower\<close> and
  \<open>unicode.ToUpper\<close>. The program only compares their results with ASCII strings (extensions,
  keywords, reserved names), so what matters is which runes map to an ASCII letter: besides
  the letters themselves, U+0130 and U+212A are the two whose lower case is ASCII (i and k),
  and U+0131 and U+017F the two whose upper case is (I and S). Every other rune outside
  ASCII is left as it is here; the mapping of those is visible only in the text of two error
  messages that echo the lowered extension.
\<close>

definition lower_rune :: "rune \<Rightarrow> rune" where
  "lower_rune r =
     (if 65 \<le> r \<and> r \<le> 90 then r + 32 else if r = 304 then 105 else if r = 8490 then 107 else r)"

definition upper_rune :: "rune \<Rightarrow> rune" where
  "upper_rune r =
     (if 97 \<le> r \<and> r \<le> 122 then r - 32 else if r = 305 then 73 else if r = 383 then 83 else r)"

definition ToLower :: "string \<Rightarrow> string" where
  "ToLower s = string_of_runes (map lower_rune (runes s))"

definition ToUpper :: "string \<Rightarrow> string" where
  "ToUpper s = string_of_runes (map upper_rune (runes s))"

definition IsControl :: "rune \<Rightarrow> bool" where
  \<comment> \<open>\<open>unicode.IsControl\<close>: category Cc\<close>
  "IsControl r \<longleftrightarrow> r < 32 \<or> 127 \<le> r \<and> r < 160"

section \<open>Facts about prefixes, suffixes and substrings\<close>

lemma HasPrefix_iff: "HasPrefix s p \<longleftrightarrow> (\<exists>t. s = p @ t)"
  by (auto simp: HasPrefix_def) (metis append_take_drop_id)

lemma HasPrefix_simps [simp]:
  "HasPrefix s []" "HasPrefix (p @ t) p" "HasPrefix [] (c # cs) \<longleftrightarrow> False"
  "HasPrefix (d # ds) (c # cs) \<longleftrightarrow> d = c \<and> HasPrefix ds cs"
  by (auto simp: HasPrefix_def)

lemma HasSuffix_iff: "HasSuffix s p \<longleftrightarrow> (\<exists>t. s = t @ p)"
proof
  assume "HasSuffix s p"
  then have "s = take (length s - length p) s @ p"
    by (metis HasSuffix_def append_take_drop_id)
  then show "\<exists>t. s = t @ p" ..
qed (auto simp: HasSuffix_def)

lemma HasSuffix_append [simp]: "HasSuffix (t @ p) p"
  by (auto simp: HasSuffix_iff)

lemma TrimSuffix_append [simp]: "TrimSuffix (t @ p) p = t"
  by (simp add: TrimSuffix_def)

lemma TrimPrefix_append [simp]: "TrimPrefix (p @ t) p = t"
  by (simp add: TrimPrefix_def)

lemma Contains_iff: "Contains s sub \<longleftrightarrow> (\<exists>a b. s = a @ sub @ b)"
proof (induction s)
  case Nil
  then show ?case by auto
next
  case (Cons c cs)
  note IH = Cons.IH
  show ?case
  proof
    assume "Contains (c # cs) sub"
    then consider "HasPrefix (c # cs) sub" | "Contains cs sub" by auto
    then show "\<exists>a b. c # cs = a @ sub @ b"
    proof cases
      case 1
      then show ?thesis by (metis HasPrefix_iff append_Nil)
    next
      case 2
      with Cons.IH obtain a b where "cs = a @ sub @ b" by auto
      then have "c # cs = (c # a) @ sub @ b" by simp
      then show ?thesis by blast
    qed
  next
    assume "\<exists>a b. c # cs = a @ sub @ b"
    then obtain a b where ab: "c # cs = a @ sub @ b" by blast
    show "Contains (c # cs) sub"
    proof (cases a)
      case Nil
      with ab have "HasPrefix (c # cs) sub" by (metis HasPrefix_iff append_Nil)
      then show ?thesis by simp
    next
      case (Cons d ds)
      with ab have "cs = ds @ sub @ b" by simp
      with IH have "Contains cs sub" by blast
      then show ?thesis by simp
    qed
  qed
qed

lemma Contains_char: "Contains s [c] \<longleftrightarrow> c \<in> set s"
  by (auto simp: Contains_iff in_set_conv_decomp)

lemma Contains_set: "Contains s sub \<Longrightarrow> set sub \<subseteq> set s"
  by (auto simp: Contains_iff)

lemma Contains_head: "Contains s (c # sub) \<Longrightarrow> c \<in> set s"
  using Contains_set by fastforce

lemma Contains_appendI [intro]: "Contains s sub \<Longrightarrow> Contains (a @ s @ b) sub"
  by (metis Contains_iff append.assoc)

section \<open>Facts about Trim\<close>

lemma dropWhile_suffix: "\<exists>xs. s = xs @ dropWhile P s"
  by (metis takeWhile_dropWhile_id)

lemma Trim_decomp: "\<exists>a b. s = a @ Trim s cutset @ b"
proof -
  let ?t = "dropWhile (\<lambda>c. c \<in> set cutset) s"
  obtain a where a: "s = a @ ?t" using dropWhile_suffix by blast
  obtain b where b: "rev ?t = b @ dropWhile (\<lambda>c. c \<in> set cutset) (rev ?t)"
    using dropWhile_suffix by blast
  then have "?t = Trim s cutset @ rev b"
    unfolding Trim_def by (metis rev_append rev_rev_ident)
  with a show ?thesis by metis
qed

lemma set_Trim: "set (Trim s cutset) \<subseteq> set s"
  using Trim_decomp [of s cutset] by (metis Un_upper1 Un_upper2 order_trans set_append)

lemma length_Trim: "length (Trim s cutset) \<le> length s"
  using Trim_decomp [of s cutset] by (metis le_add1 le_add2 le_trans length_append)

lemma hd_dropWhile_not: "dropWhile P s \<noteq> [] \<Longrightarrow> \<not> P (hd (dropWhile P s))"
  by (rule hd_dropWhile)

lemma last_Trim: "Trim s cutset \<noteq> [] \<Longrightarrow> last (Trim s cutset) \<notin> set cutset"
  unfolding Trim_def rev_is_Nil_conv last_rev by (rule hd_dropWhile)

lemma hd_Trim:
  assumes "Trim s cutset \<noteq> []"
  shows "hd (Trim s cutset) \<notin> set cutset"
proof -
  let ?t = "dropWhile (\<lambda>c. c \<in> set cutset) s"
  obtain b where b: "rev ?t = b @ dropWhile (\<lambda>c. c \<in> set cutset) (rev ?t)"
    using dropWhile_suffix by blast
  then have t: "?t = Trim s cutset @ rev b"
    unfolding Trim_def by (metis rev_append rev_rev_ident)
  with assms have "?t \<noteq> []" by auto
  then have "hd ?t \<notin> set cutset" using hd_dropWhile_not by blast
  moreover have "hd ?t = hd (Trim s cutset)" using t assms by (metis hd_append2)
  ultimately show ?thesis by simp
qed

section \<open>Facts about Split and Join\<close>

lemma Split_nonempty [simp]: "Split sep s \<noteq> []"
  by (induction s) (auto split: list.splits)

lemma JoinWith_Cons: "ws \<noteq> [] \<Longrightarrow> JoinWith sep (w # ws) = w @ sep @ JoinWith sep ws"
  by (cases ws) auto

lemma Join_Split: "JoinWith [sep] (Split sep s) = s"
proof (induction s)
  case Nil
  then show ?case by simp
next
  case (Cons c cs)
  obtain w ws where w: "Split sep cs = w # ws" by (meson Split_nonempty neq_Nil_conv)
  show ?case
  proof (cases "c = sep")
    case True
    with Cons show ?thesis by (simp add: JoinWith_Cons)
  next
    case False
    with Cons w show ?thesis by (cases ws) auto
  qed
qed

lemma Split_no_sep: "sep \<notin> set s \<Longrightarrow> Split sep s = [s]"
  by (induction s) auto

lemma Split_pieces: "w \<in> set (Split sep s) \<Longrightarrow> sep \<notin> set w"
proof (induction s arbitrary: w)
  case Nil
  then show ?case by simp
next
  case (Cons c cs)
  obtain v vs where v: "Split sep cs = v # vs" by (meson Split_nonempty neq_Nil_conv)
  from Cons v show ?case by (auto split: if_splits)
qed

lemma Split_append_sep: "Split sep (a @ sep # b) = Split sep a @ Split sep b"
proof (induction a)
  case Nil
  then show ?case by simp
next
  case (Cons c cs)
  obtain w ws where w: "Split sep cs = w # ws" by (meson Split_nonempty neq_Nil_conv)
  from Cons w show ?case by auto
qed

end
