(* ===== verification/GoText.thy ===== *)
theory GoText
  imports GoStrings
begin

text \<open>
  Facts about the text functions of the Go library: UTF-8 decoding and encoding are inverse
  to each other on valid text, decoding neither hides nor invents an ASCII byte (so a check of
  runes against ASCII characters is a check of bytes), case mapping on ASCII strings, and the
  shape of hexadecimal text.
\<close>

section \<open>Multi-byte sequences\<close>

definition scalar :: "rune \<Rightarrow> bool" where
  "scalar r \<longleftrightarrow> r < 55296 \<or> 57343 < r \<and> r \<le> 1114111"

lemma is_cont_offset: "is_cont b \<Longrightarrow> \<exists>y<64. b = 128 + y"
  by (auto simp: is_cont_def intro!: exI [of _ "b - 128"])

lemma multi_byte_2:
  assumes "x < 32" "2 \<le> x" "y < 64"
  shows "encode_rune (x * 64 + y) = [192 + x, 128 + y]" "scalar (x * 64 + y)" "128 \<le> x * 64 + y"
proof -
  have "\<not> x * 64 + y < 128" "x * 64 + y < 2048" using assms by auto
  then show "encode_rune (x * 64 + y) = [192 + x, 128 + y]" using assms
    by (simp add: encode_rune_def div_add1_eq mod_add_eq)
  show "scalar (x * 64 + y)" "128 \<le> x * 64 + y" using assms by (auto simp: scalar_def)
qed

lemma multi_byte_3:
  assumes "x < 16" "y < 64" "z < 64" "x = 0 \<longrightarrow> 32 \<le> y" "x = 13 \<longrightarrow> y < 32"
  shows "encode_rune (x * 4096 + y * 64 + z) = [224 + x, 128 + y, 128 + z]"
    "scalar (x * 4096 + y * 64 + z)" "128 \<le> x * 4096 + y * 64 + z"
proof -
  let ?r = "x * 4096 + y * 64 + z"
  have lo: "2048 \<le> ?r" using assms by (cases "x = 0") auto
  have sur: "\<not> (55296 \<le> ?r \<and> ?r \<le> 57343)" using assms by (cases "x = 13"; cases "x < 13") auto
  have hi: "?r < 65536" using assms by auto
  have d: "?r div 4096 = x" "?r div 64 mod 64 = y" "?r mod 64 = z"
  proof -
    have "?r = (x * 64 + y) * 64 + z" by simp
    then have e: "?r div 64 = x * 64 + y" "?r mod 64 = z"
      using assms by (simp_all only: div_mult_self3 mod_mult_self3) auto
    then have "?r div 64 div 64 = x" using assms by simp
    then show "?r div 4096 = x" by (simp add: div_mult2_eq [symmetric])
    show "?r div 64 mod 64 = y" "?r mod 64 = z" using e assms by auto
  qed
  show "encode_rune ?r = [224 + x, 128 + y, 128 + z]"
    unfolding encode_rune_def d using lo sur hi by auto
  show "scalar ?r" using sur hi by (auto simp: scalar_def)
  show "128 \<le> ?r" using lo by simp
qed

lemma multi_byte_4:
  assumes "w < 5" "x < 64" "y < 64" "z < 64" "w = 0 \<longrightarrow> 16 \<le> x" "w = 4 \<longrightarrow> x < 16"
  shows "encode_rune (w * 262144 + x * 4096 + y * 64 + z) = [240 + w, 128 + x, 128 + y, 128 + z]"
    "scalar (w * 262144 + x * 4096 + y * 64 + z)" "128 \<le> w * 262144 + x * 4096 + y * 64 + z"
proof -
  let ?r = "w * 262144 + x * 4096 + y * 64 + z"
  have lo: "65536 \<le> ?r" using assms by (cases "w = 0") auto
  have hi: "?r \<le> 1114111" using assms by (cases "w = 4") auto
  have d: "?r div 262144 = w" "?r div 4096 mod 64 = x" "?r div 64 mod 64 = y" "?r mod 64 = z"
  proof -
    have "?r = ((w * 64 + x) * 64 + y) * 64 + z" by simp
    then have e: "?r div 64 = (w * 64 + x) * 64 + y" "?r mod 64 = z"
      using assms by (simp_all only: div_mult_self3 mod_mult_self3) auto
    then have f: "?r div 64 div 64 = w * 64 + x" using assms by simp
    then have "?r div 64 div 64 div 64 = w" using assms by simp
    then show "?r div 262144 = w" by (simp add: div_mult2_eq [symmetric])
    have "?r div 4096 = w * 64 + x" using f by (simp add: div_mult2_eq [symmetric])
    then show "?r div 4096 mod 64 = x" using assms by simp
    show "?r div 64 mod 64 = y" unfolding e(1) using assms(3) by (simp only: mod_mult_self3) simp
    show "?r mod 64 = z" by (rule e(2))
  qed
  show "encode_rune ?r = [240 + w, 128 + x, 128 + y, 128 + z]"
    unfolding encode_rune_def d using lo hi by auto
  show "scalar ?r" using lo hi by (auto simp: scalar_def)
  show "128 \<le> ?r" using lo by simp
qed

lemma multi_byte_Some:
  assumes "multi_byte b0 bs = Some (r, n)"
  shows "0 < n \<and> n \<le> length bs \<and> 128 \<le> r \<and> scalar r \<and> encode_rune r = b0 # take n bs
    \<and> (\<forall>b \<in> set (take n bs). 128 \<le> b) \<and> 194 \<le> b0"
proof -
  from assms consider
      (two) b1 t where "194 \<le> b0" "b0 \<le> 223" "bs = b1 # t" "is_cont b1"
        "r = (b0 - 192) * 64 + (b1 - 128)" "n = 1"
    | (three) b1 b2 t where "224 \<le> b0" "b0 \<le> 239" "bs = b1 # b2 # t" "is_cont b2"
        "(if b0 = 224 then 160 else 128) \<le> b1" "b1 \<le> (if b0 = 237 then 159 else 191)"
        "r = (b0 - 224) * 4096 + (b1 - 128) * 64 + (b2 - 128)" "n = 2"
    | (four) b1 b2 b3 t where "240 \<le> b0" "b0 \<le> 244" "bs = b1 # b2 # b3 # t" "is_cont b2" "is_cont b3"
        "(if b0 = 240 then 144 else 128) \<le> b1" "b1 \<le> (if b0 = 244 then 143 else 191)"
        "r = (b0 - 240) * 262144 + (b1 - 128) * 4096 + (b2 - 128) * 64 + (b3 - 128)" "n = 3"
    unfolding multi_byte_def by (auto split: if_split_asm list.split_asm)
  then show ?thesis
  proof cases
    case two
    obtain y where y: "y < 64" "b1 = 128 + y" using is_cont_offset two by blast
    define x where "x = b0 - 192"
    have x: "b0 = 192 + x" "x < 32" "2 \<le> x" using two by (auto simp: x_def)
    show ?thesis using multi_byte_2 [OF x(2,3) y(1)] two x y by simp
  next
    case three
    obtain z where z: "z < 64" "b2 = 128 + z" using is_cont_offset three by blast
    define x y where "x = b0 - 224" and "y = b1 - 128"
    have xy: "b0 = 224 + x" "x < 16" "b1 = 128 + y" "y < 64" "x = 0 \<longrightarrow> 32 \<le> y" "x = 13 \<longrightarrow> y < 32"
      using three by (auto simp: x_def y_def split: if_split_asm)
    show ?thesis using multi_byte_3 [OF xy(2,4) z(1) xy(5,6)] three xy z by simp
  next
    case four
    obtain y where y: "y < 64" "b2 = 128 + y" using is_cont_offset four by blast
    obtain z where z: "z < 64" "b3 = 128 + z" using is_cont_offset four by blast
    define w x where "w = b0 - 240" and "x = b1 - 128"
    have wx: "b0 = 240 + w" "w < 5" "b1 = 128 + x" "x < 64" "w = 0 \<longrightarrow> 16 \<le> x" "w = 4 \<longrightarrow> x < 16"
      using four by (auto simp: w_def x_def split: if_split_asm)
    show ?thesis using multi_byte_4 [OF wx(2,4) y(1) z(1) wx(5,6)] four wx y z by simp
  qed
qed

section \<open>Decoding\<close>

lemma decode_ascii_iff: "b < 128 \<Longrightarrow> b \<in> set (decode bs) \<longleftrightarrow> b \<in> set bs"
proof (induction bs rule: decode.induct)
  case 1
  then show ?case by simp
next
  case (2 b0 bs)
  show ?case
  proof (cases "b0 < 128")
    case True
    with 2 show ?thesis by auto
  next
    case False
    show ?thesis
    proof (cases "multi_byte b0 bs")
      case None
      with False 2 show ?thesis by (auto simp: RuneError_def)
    next
      case (Some p)
      obtain r n where p: "p = (r, n)" by (cases p)
      have m: "128 \<le> r" "\<forall>c \<in> set (take n bs). 128 \<le> c" using multi_byte_Some Some p by blast+
      have "b \<in> set bs \<longleftrightarrow> b \<in> set (take n bs) \<or> b \<in> set (drop n bs)"
        by (metis Un_iff append_take_drop_id set_append)
      also have "\<dots> \<longleftrightarrow> b \<in> set (drop n bs)" using m(2) 2(4) by auto
      finally have "b \<in> set bs \<longleftrightarrow> b \<in> set (drop n bs)" .
      then show ?thesis using "2.IH"(3) [OF False Some p [symmetric]] False Some p m(1) 2(4) by auto
    qed
  qed
qed

lemma length_decode: "length (decode bs) \<le> length bs"
proof (induction bs rule: decode.induct)
  case (2 b0 bs)
  then show ?case by (auto split: option.splits prod.splits) fastforce
qed simp

lemma decode_all_ascii: "\<forall>b \<in> set bs. b < 128 \<Longrightarrow> decode bs = bs"
  by (induction bs) auto

lemma valid_all_ascii: "\<forall>b \<in> set bs. b < 128 \<Longrightarrow> valid_bytes bs"
  by (induction bs) auto

lemma decode_scalar: "r \<in> set (decode bs) \<Longrightarrow> scalar r"
proof (induction bs rule: decode.induct)
  case (2 b0 bs)
  show ?case
  proof (cases "b0 < 128 \<or> multi_byte b0 bs = None")
    case True
    with 2 show ?thesis by (auto simp: scalar_def RuneError_def split: if_splits)
  next
    case False
    then obtain q n where "multi_byte b0 bs = Some (q, n)" by auto
    with False 2 show ?thesis by (auto dest: multi_byte_Some)
  qed
qed simp

lemma encode_decode_bytes: "valid_bytes bs \<Longrightarrow> concat (map encode_rune (decode bs)) = bs"
proof (induction bs rule: decode.induct)
  case (2 b0 bs)
  show ?case
  proof (cases "b0 < 128")
    case True
    with 2 show ?thesis by (simp add: encode_rune_def)
  next
    case False
    with "2.prems" obtain r n where m: "multi_byte b0 bs = Some (r, n)" and v: "valid_bytes (drop n bs)"
      by (auto split: option.splits)
    have "encode_rune r = b0 # take n bs" using m multi_byte_Some by blast
    then show ?thesis using "2.IH"(3) [OF False m refl v] False m by simp
  qed
qed simp

lemma multi_byte_encode:
  assumes sc: "scalar r" and "128 \<le> r"
  shows "\<exists>b cs. encode_rune r = b # cs \<and> 128 \<le> b \<and> multi_byte b (cs @ bs) = Some (r, length cs)"
proof -
  consider "128 \<le> r" "r < 2048" | "2048 \<le> r" "r < 65536" | "65536 \<le> r" using assms(2) by linarith
  then show ?thesis
  proof cases
    case 1
    have h: "r div 64 < 32" "2 \<le> r div 64" "r mod 64 < 64" using 1 by auto
    then have "multi_byte (192 + r div 64) ((128 + r mod 64) # bs) = Some (r div 64 * 64 + r mod 64, 1)"
      by (simp add: multi_byte_def is_cont_def)
    then show ?thesis using 1 h by (simp add: encode_rune_def)
  next
    case 2
    have m: "r div 64 div 64 = r div 4096" by (simp add: div_mult2_eq [symmetric])
    have h: "r div 4096 < 16" "r div 64 mod 64 < 64" "r mod 64 < 64" using 2 by auto
    have r: "r div 4096 * 4096 + r div 64 mod 64 * 64 + r mod 64 = r"
      using m div_mult_mod_eq [of r 64] div_mult_mod_eq [of "r div 64" 64] by linarith
    have "r div 4096 = 0 \<Longrightarrow> 32 \<le> r div 64 mod 64" using 2 r h by linarith
    moreover have "r div 4096 = 13 \<Longrightarrow> r div 64 mod 64 < 32"
      using sc 2 r h by (auto simp: scalar_def)
    ultimately have "multi_byte (224 + r div 4096) ((128 + r div 64 mod 64) # (128 + r mod 64) # bs)
        = Some (r div 4096 * 4096 + r div 64 mod 64 * 64 + r mod 64, 2)"
      using h by (auto simp: multi_byte_def is_cont_def)
    then show ?thesis using 2 sc h r by (auto simp: encode_rune_def scalar_def)
  next
    case 3
    have m: "r div 64 div 64 = r div 4096" "r div 4096 div 64 = r div 262144"
      by (simp_all add: div_mult2_eq [symmetric])
    have h: "r div 262144 < 5" "r div 4096 mod 64 < 64" "r div 64 mod 64 < 64" "r mod 64 < 64"
      using sc 3 by (auto simp: scalar_def)
    have r: "r div 262144 * 262144 + r div 4096 mod 64 * 4096 + r div 64 mod 64 * 64 + r mod 64 = r"
      using m div_mult_mod_eq [of r 64] div_mult_mod_eq [of "r div 64" 64]
        div_mult_mod_eq [of "r div 4096" 64] by linarith
    have "r div 262144 = 0 \<Longrightarrow> 16 \<le> r div 4096 mod 64" using 3 r h by linarith
    moreover have "r div 262144 = 4 \<Longrightarrow> r div 4096 mod 64 < 16"
      using sc r h by (auto simp: scalar_def)
    ultimately have "multi_byte (240 + r div 262144)
        ((128 + r div 4096 mod 64) # (128 + r div 64 mod 64) # (128 + r mod 64) # bs)
        = Some (r div 262144 * 262144 + r div 4096 mod 64 * 4096 + r div 64 mod 64 * 64 + r mod 64, 3)"
      using h by (auto simp: multi_byte_def is_cont_def)
    then show ?thesis using 3 sc h r by (auto simp: encode_rune_def scalar_def)
  qed
qed

lemma decode_encode_rune: "scalar r \<Longrightarrow> decode (encode_rune r @ bs) = r # decode bs"
  using multi_byte_encode [of r bs] by (cases "r < 128") (auto simp: encode_rune_def)

lemma valid_encode_rune: "scalar r \<Longrightarrow> valid_bytes (encode_rune r @ bs) \<longleftrightarrow> valid_bytes bs"
  using multi_byte_encode [of r bs] by (cases "r < 128") (auto simp: encode_rune_def)

lemma decode_encode: "\<forall>r \<in> set rs. scalar r \<Longrightarrow> decode (concat (map encode_rune rs)) = rs"
  by (induction rs) (auto simp: decode_encode_rune)

lemma valid_encode: "\<forall>r \<in> set rs. scalar r \<Longrightarrow> valid_bytes (concat (map encode_rune rs))"
  by (induction rs) (auto simp: valid_encode_rune)

lemma encode_rune_less: "b \<in> set (encode_rune r) \<Longrightarrow> b < 256"
  by (auto simp: encode_rune_def split: if_splits)

section \<open>Strings\<close>

lemma map_char_of_codes [simp]: "map char_of (codes s) = s"
  by (induction s) (auto simp: codes_def)

lemma codes_less_256: "b \<in> set (codes s) \<Longrightarrow> b < 256"
  by (auto simp: codes_def)

lemma codes_string_of_runes: "codes (string_of_runes rs) = concat (map encode_rune rs)"
proof -
  have "\<forall>b \<in> set (concat (map encode_rune rs)). b < 256" by (auto dest: encode_rune_less)
  then show ?thesis
    by (auto simp: codes_def string_of_runes_def of_char_of intro!: map_idI)
qed

lemma runes_scalar: "r \<in> set (runes s) \<Longrightarrow> scalar r"
  by (simp add: runes_def decode_scalar)

lemma runes_string_of_runes: "\<forall>r \<in> set rs. scalar r \<Longrightarrow> runes (string_of_runes rs) = rs"
  by (simp add: runes_def codes_string_of_runes decode_encode)

lemma ValidString_string_of_runes: "\<forall>r \<in> set rs. scalar r \<Longrightarrow> ValidString (string_of_runes rs)"
  by (simp add: ValidString_def codes_string_of_runes valid_encode)

theorem ValidString_ToValidUTF8: "ValidString (ToValidUTF8 s)"
  by (simp add: ToValidUTF8_def ValidString_string_of_runes runes_scalar)

lemma codes_append: "codes (s @ t) = codes s @ codes t"
  by (simp add: codes_def)

lemma codes_mem_iff: "of_char c \<in> set (codes s) \<longleftrightarrow> c \<in> set s"
  by (auto simp: codes_def)

theorem ToValidUTF8_id: "ValidString s \<Longrightarrow> ToValidUTF8 s = s"
  by (simp add: ToValidUTF8_def ValidString_def runes_def string_of_runes_def encode_decode_bytes)

text \<open>A rune below 128 occurs in a string exactly when its byte does.\<close>

lemma runes_ascii_iff: "(of_char c :: nat) < 128 \<Longrightarrow> of_char c \<in> set (runes s) \<longleftrightarrow> c \<in> set s"
  by (simp add: runes_def decode_ascii_iff codes_mem_iff)

definition ascii :: "string \<Rightarrow> bool" where
  "ascii s \<longleftrightarrow> (\<forall>c \<in> set s. (of_char c :: nat) < 128)"

lemma ascii_append [simp]: "ascii (s @ t) \<longleftrightarrow> ascii s \<and> ascii t"
  by (auto simp: ascii_def)

lemma ascii_Cons [simp]: "ascii (c # s) \<longleftrightarrow> (of_char c :: nat) < 128 \<and> ascii s"
  by (auto simp: ascii_def)

lemma ascii_Nil [simp]: "ascii []"
  by (simp add: ascii_def)

lemma runes_ascii: "ascii s \<Longrightarrow> runes s = codes s"
  unfolding runes_def by (rule decode_all_ascii) (auto simp: ascii_def codes_def)

lemma ValidString_ascii: "ascii s \<Longrightarrow> ValidString s"
  unfolding ValidString_def by (rule valid_all_ascii) (auto simp: ascii_def codes_def)

lemma RuneCount_le: "RuneCountInString s \<le> length s"
  using length_decode [of "codes s"] by (simp add: RuneCountInString_def runes_def codes_def)

lemma RuneCount_ascii: "ascii s \<Longrightarrow> RuneCountInString s = length s"
  by (simp add: RuneCountInString_def runes_ascii codes_def)

lemma string_of_runes_Cons: "string_of_runes (r # rs) = map char_of (encode_rune r) @ string_of_runes rs"
  by (simp add: string_of_runes_def)

lemma string_of_runes_ascii: "\<forall>r \<in> set rs. r < 128 \<Longrightarrow> string_of_runes rs = map char_of rs"
  by (induction rs) (auto simp: string_of_runes_def encode_rune_def)

lemma ToLower_ascii:
  "ascii s \<Longrightarrow> ToLower s = map (\<lambda>c. char_of (lower_rune (of_char c))) s"
  by (simp add: ToLower_def runes_ascii codes_def)
    (subst string_of_runes_ascii, auto simp: lower_rune_def ascii_def)

lemma ToUpper_ascii:
  "ascii s \<Longrightarrow> ToUpper s = map (\<lambda>c. char_of (upper_rune (of_char c))) s"
  by (simp add: ToUpper_def runes_ascii codes_def)
    (subst string_of_runes_ascii, auto simp: upper_rune_def ascii_def)

section \<open>Hexadecimal text\<close>

lemma length_hex_digits: "length hex_digits = 16"
  by (simp add: hex_digits_def)

lemma distinct_hex_digits: "distinct hex_digits"
  by (simp add: hex_digits_def)

lemma hex_char_mem: "d < 16 \<Longrightarrow> hex_char d \<in> set hex_digits"
  unfolding hex_char_def by (rule nth_mem) (simp add: length_hex_digits)

lemma unat_byte_div: "unat (b :: byte) div 16 < 16"
  using unsigned_less [of b, where 'a = nat] by simp

lemma length_EncodeToString [simp]: "length (EncodeToString bs) = 2 * length bs"
  by (induction bs) (auto simp: EncodeToString_def hex_of_byte_def)

lemma set_EncodeToString: "set (EncodeToString bs) \<subseteq> set hex_digits"
  by (induction bs) (auto simp: EncodeToString_def hex_of_byte_def intro: hex_char_mem unat_byte_div)

lemma hex_digits_ascii: "ascii hex_digits"
  by (simp add: hex_digits_def)

lemma hex_text_ascii: "set s \<subseteq> set hex_digits \<Longrightarrow> ascii s"
  using hex_digits_ascii by (auto simp: ascii_def)

lemma hex_char_inj: "d < 16 \<Longrightarrow> e < 16 \<Longrightarrow> hex_char d = hex_char e \<Longrightarrow> d = e"
  by (simp add: hex_char_def nth_eq_iff_index_eq [OF distinct_hex_digits] length_hex_digits)

lemma hex_of_byte_inj: "hex_of_byte a = hex_of_byte b \<Longrightarrow> a = b"
proof -
  assume eq: "hex_of_byte a = hex_of_byte b"
  then have "unat a div 16 = unat b div 16" "unat a mod 16 = unat b mod 16"
    by (auto simp: hex_of_byte_def intro: hex_char_inj unat_byte_div)
  then have "unat a = unat b" by (metis div_mult_mod_eq)
  then show ?thesis by (simp add: word_unat_eq_iff)
qed

theorem EncodeToString_inj: "EncodeToString as = EncodeToString bs \<Longrightarrow> as = bs"
proof (induction as arbitrary: bs)
  case Nil
  then show ?case by (cases bs) (auto simp: EncodeToString_def hex_of_byte_def)
next
  case (Cons a as)
  then obtain b bs' where bs: "bs = b # bs'"
    by (cases bs) (auto simp: EncodeToString_def hex_of_byte_def)
  from Cons.prems bs have "hex_of_byte a @ EncodeToString as = hex_of_byte b @ EncodeToString bs'"
    by (simp add: EncodeToString_def)
  then have "hex_of_byte a = hex_of_byte b" "EncodeToString as = EncodeToString bs'"
    by (auto simp: hex_of_byte_def)
  with Cons.IH bs hex_of_byte_inj show ?case by blast
qed

end
