(* ===== verification/Model.thy ===== *)
theory Model
  imports GoText "HOL-Library.Monad_Syntax"
begin

text \<open>
  The data model of internal/model/file.go: the records \<open>Storage\<close>, \<open>File\<close> and \<open>FileHeader\<close>
  with the accessors of \<open>File\<close>, and the JSON form that the struct tags give them, which is
  what the repository caches and the handlers send. Where two Go structs share a field name,
  the field of \<open>Storage\<close> carries the prefix \<open>St\<close> and that of \<open>FileHeader\<close> the prefix \<open>H\<close>.

  \<open>int64\<close> and \<open>int\<close> fields are integers (the program only compares and prints them), a
  \<open>time.Time\<close> is a number of microseconds since the epoch (the precision of the database),
  and a nil pointer is \<open>None\<close>.
\<close>

section \<open>Records\<close>

type_synonym time = int

record Storage =
  Hash :: string
  StSize :: int
  StContentType :: string
  StStoragePath :: string
  ReferenceCount :: int
  StCreatedAt :: time
  UpdatedAt :: time

record File =
  ID :: string
  Name :: string
  StorageHash :: string
  CreatedAt :: time
  FStorage :: "Storage option"
  Size :: int
  ContentType :: string
  StoragePath :: string
  Checksum :: string

record FileHeader =
  HName :: string
  HSize :: int
  HContentType :: string

definition zero_time :: time where
  \<comment> \<open>Go's zero \<open>time.Time\<close>: the first of January of year 1\<close>
  "zero_time = - 62135596800000000"

definition zero_File :: File where
  \<comment> \<open>\<open>var file model.File\<close>\<close>
  "zero_File = \<lparr>ID = [], Name = [], StorageHash = [], CreatedAt = zero_time, FStorage = None, Size = 0,
     ContentType = [], StoragePath = [], Checksum = []\<rparr>"

section \<open>Accessors\<close>

definition GetSize :: "File \<Rightarrow> int" where
  "GetSize f = (case FStorage f of Some s \<Rightarrow> StSize s | None \<Rightarrow> Size f)"

definition GetContentType :: "File \<Rightarrow> string" where
  "GetContentType f = (case FStorage f of Some s \<Rightarrow> StContentType s | None \<Rightarrow> ContentType f)"

definition GetStoragePath :: "File \<Rightarrow> string" where
  "GetStoragePath f = (case FStorage f of Some s \<Rightarrow> StStoragePath s | None \<Rightarrow> StoragePath f)"

definition GetChecksum :: "File \<Rightarrow> string" where
  "GetChecksum f = (if StorageHash f \<noteq> [] then StorageHash f else Checksum f)"

section \<open>JSON\<close>

text \<open>
  JSON documents as trees; the text form that \<open>encoding/json\<close> writes and reads back is not
  modelled. \<open>JTime\<close> is the RFC 3339 text of a time.
\<close>

datatype json =
    JNull
  | JBool bool
  | JNum int
  | JStr string
  | JTime time
  | JArr "json list"
  | JObj "(string \<times> json) list"

text \<open>
  \<open>json.Marshal\<close> writes strings as valid UTF-8, and fails on a time whose year is not in
  0..9999.
\<close>

definition json_string :: "string \<Rightarrow> json" where
  "json_string s = JStr (ToValidUTF8 s)"

definition json_time_ok :: "time \<Rightarrow> bool" where
  "json_time_ok t \<longleftrightarrow> - 62167219200000000 \<le> t \<and> t < 253402300800000000"

definition omitempty :: "string \<Rightarrow> bool \<Rightarrow> json \<Rightarrow> (string \<times> json) list" where
  "omitempty key is_zero j = (if is_zero then [] else [(key, j)])"

definition marshal_Storage :: "Storage \<Rightarrow> json option" where
  "marshal_Storage s =
     (if json_time_ok (StCreatedAt s) \<and> json_time_ok (UpdatedAt s)
      then Some (JObj [(''hash'', json_string (Hash s)), (''size'', JNum (StSize s)),
        (''content_type'', json_string (StContentType s)),
        (''reference_count'', JNum (ReferenceCount s)),
        (''created_at'', JTime (StCreatedAt s)), (''updated_at'', JTime (UpdatedAt s))])
      else None)"

definition marshal_File :: "File \<Rightarrow> json option" where
  "marshal_File f =
     do {
       st \<leftarrow> (case FStorage f of
               None \<Rightarrow> Some []
             | Some s \<Rightarrow> map_option (\<lambda>j. [(''storage'', j)]) (marshal_Storage s));
       if json_time_ok (CreatedAt f)
       then Some (JObj ([(''id'', json_string (ID f)), (''name'', json_string (Name f)),
               (''storage_hash'', json_string (StorageHash f)), (''created_at'', JTime (CreatedAt f))]
             @ st
             @ omitempty ''size'' (Size f = 0) (JNum (Size f))
             @ omitempty ''content_type'' (ContentType f = []) (json_string (ContentType f))
             @ omitempty ''checksum'' (Checksum f = []) (json_string (Checksum f))))
       else None
     }"

fun marshal_all :: "File list \<Rightarrow> json list option" where
  "marshal_all [] = Some []"
| "marshal_all (f # fs) = do { j \<leftarrow> marshal_File f; js \<leftarrow> marshal_all fs; Some (j # js) }"

text \<open>
  A \<open>[]model.File\<close> that was declared with \<open>var\<close> and only appended to is nil exactly when it
  has no element; a nil slice marshals to \<open>null\<close>.
\<close>

definition marshal_Files :: "File list \<Rightarrow> json option" where
  "marshal_Files fs = (if fs = [] then Some JNull else map_option JArr (marshal_all fs))"

text \<open>
  \<open>json.Unmarshal\<close> into a zero struct: a missing key or a \<open>null\<close> leaves the zero value, an
  unknown key is ignored, a value of the wrong kind is an error.
\<close>

definition get_string :: "(string \<times> json) list \<Rightarrow> string \<Rightarrow> string option" where
  "get_string kvs k = (case map_of kvs k of None \<Rightarrow> Some [] | Some JNull \<Rightarrow> Some []
     | Some (JStr s) \<Rightarrow> Some s | Some _ \<Rightarrow> None)"

definition get_int :: "(string \<times> json) list \<Rightarrow> string \<Rightarrow> int option" where
  "get_int kvs k = (case map_of kvs k of None \<Rightarrow> Some 0 | Some JNull \<Rightarrow> Some 0
     | Some (JNum n) \<Rightarrow> Some n | Some _ \<Rightarrow> None)"

definition get_time :: "(string \<times> json) list \<Rightarrow> string \<Rightarrow> time option" where
  "get_time kvs k = (case map_of kvs k of None \<Rightarrow> Some zero_time | Some JNull \<Rightarrow> Some zero_time
     | Some (JTime t) \<Rightarrow> Some t | Some _ \<Rightarrow> None)"

fun unmarshal_Storage :: "json \<Rightarrow> Storage option" where
  "unmarshal_Storage (JObj kvs) =
     do {
       h \<leftarrow> get_string kvs ''hash'';
       sz \<leftarrow> get_int kvs ''size'';
       ct \<leftarrow> get_string kvs ''content_type'';
       rc \<leftarrow> get_int kvs ''reference_count'';
       ca \<leftarrow> get_time kvs ''created_at'';
       ua \<leftarrow> get_time kvs ''updated_at'';
       Some \<lparr>Hash = h, StSize = sz, StContentType = ct, StStoragePath = [], ReferenceCount = rc,
         StCreatedAt = ca, UpdatedAt = ua\<rparr>
     }"
| "unmarshal_Storage _ = None"

fun unmarshal_File :: "json \<Rightarrow> File option" where
  "unmarshal_File (JObj kvs) =
     do {
       i \<leftarrow> get_string kvs ''id'';
       n \<leftarrow> get_string kvs ''name'';
       sh \<leftarrow> get_string kvs ''storage_hash'';
       ca \<leftarrow> get_time kvs ''created_at'';
       st \<leftarrow> (case map_of kvs ''storage'' of None \<Rightarrow> Some None | Some JNull \<Rightarrow> Some None
              | Some j \<Rightarrow> map_option Some (unmarshal_Storage j));
       sz \<leftarrow> get_int kvs ''size'';
       ct \<leftarrow> get_string kvs ''content_type'';
       ck \<leftarrow> get_string kvs ''checksum'';
       Some \<lparr>ID = i, Name = n, StorageHash = sh, CreatedAt = ca, FStorage = st, Size = sz,
         ContentType = ct, StoragePath = [], Checksum = ck\<rparr>
     }"
| "unmarshal_File JNull = Some zero_File"
| "unmarshal_File _ = None"

fun unmarshal_all :: "json list \<Rightarrow> File list option" where
  "unmarshal_all [] = Some []"
| "unmarshal_all (j # js) = do { f \<leftarrow> unmarshal_File j; fs \<leftarrow> unmarshal_all js; Some (f # fs) }"

fun unmarshal_Files :: "json \<Rightarrow> File list option" where
  "unmarshal_Files JNull = Some []"
| "unmarshal_Files (JArr js) = unmarshal_all js"
| "unmarshal_Files _ = None"

section \<open>What a round trip through JSON keeps\<close>

text \<open>
  Both \<open>StoragePath\<close> fields carry the tag \<open>json:"-"\<close>, so a \<open>File\<close> that went through JSON has
  lost them; every other field survives (its text made valid UTF-8).
\<close>

definition strip_Storage :: "Storage \<Rightarrow> Storage" where
  "strip_Storage s = s\<lparr>StStoragePath := [], Hash := ToValidUTF8 (Hash s),
     StContentType := ToValidUTF8 (StContentType s)\<rparr>"

definition strip_File :: "File \<Rightarrow> File" where
  "strip_File f = f\<lparr>StoragePath := [], FStorage := map_option strip_Storage (FStorage f),
     ID := ToValidUTF8 (ID f), Name := ToValidUTF8 (Name f),
     StorageHash := ToValidUTF8 (StorageHash f), ContentType := ToValidUTF8 (ContentType f),
     Checksum := ToValidUTF8 (Checksum f)\<rparr>"

lemma ToValidUTF8_Nil [simp]: "ToValidUTF8 [] = []"
  by (simp add: ToValidUTF8_id ValidString_ascii)

lemma unmarshal_marshal_Storage:
  "marshal_Storage s = Some j \<Longrightarrow> unmarshal_Storage j = Some (strip_Storage s)"
  by (auto simp: marshal_Storage_def json_string_def get_string_def get_int_def get_time_def
      strip_Storage_def split: if_splits)

lemma marshal_Storage_obj: "marshal_Storage s = Some j \<Longrightarrow> \<exists>kvs. j = JObj kvs"
  by (auto simp: marshal_Storage_def split: if_splits)

text \<open>Looking a key up in the object \<open>marshal_File\<close> writes.\<close>

lemma map_of_omitempty: "map_of (omitempty key z j) k = (if k = key \<and> \<not> z then Some j else None)"
  by (simp add: omitempty_def)

lemma unmarshal_marshal_File:
  assumes "marshal_File f = Some j"
  shows "unmarshal_File j = Some (strip_File f)"
proof (cases "FStorage f")
  case None
  with assms show ?thesis
    by (auto simp: marshal_File_def json_string_def get_string_def get_int_def get_time_def
        strip_File_def map_add_def map_of_omitempty split: if_splits)
next
  case (Some s)
  with assms obtain js where js: "marshal_Storage s = Some js"
    by (auto simp: marshal_File_def bind_eq_Some_conv)
  then obtain kvs where kvs: "js = JObj kvs" using marshal_Storage_obj by blast
  have "unmarshal_Storage (JObj kvs) = Some (strip_Storage s)"
    using unmarshal_marshal_Storage js kvs by blast
  with assms Some js kvs show ?thesis
    by (auto simp: marshal_File_def json_string_def get_string_def get_int_def get_time_def
        strip_File_def map_add_def map_of_omitempty split: if_splits simp del: unmarshal_Storage.simps)
qed

lemma unmarshal_marshal_all: "marshal_all fs = Some js \<Longrightarrow> unmarshal_all js = Some (map strip_File fs)"
  by (induction fs arbitrary: js) (auto simp: bind_eq_Some_conv unmarshal_marshal_File)

lemma unmarshal_marshal_Files:
  "marshal_Files fs = Some j \<Longrightarrow> unmarshal_Files j = Some (map strip_File fs)"
  by (auto simp: marshal_Files_def unmarshal_marshal_all split: if_splits)

lemma GetStoragePath_strip [simp]: "GetStoragePath (strip_File f) = []"
  by (simp add: GetStoragePath_def strip_File_def strip_Storage_def split: option.splits)

lemma GetSize_strip [simp]: "GetSize (strip_File f) = GetSize f"
  by (simp add: GetSize_def strip_File_def strip_Storage_def split: option.splits)

end
