(* ===== verification/GoPath.thy ===== *)
theory GoPath
  imports GoText
begin

text \<open>
  What the program uses of \<open>path/filepath\<close> on a Unix system: \<open>Ext\<close>, \<open>Clean\<close>, \<open>Join\<close>,
  \<open>Abs\<close>, \<open>Dir\<close>. \<open>Clean\<close> is the documented lexical algorithm over the slash-separated
  elements of a path; the elements kept so far are a stack, innermost first.
\<close>

section \<open>Definitions\<close>

abbreviation slash :: char where
  "slash \<equiv> CHR ''/''"

abbreviation dotdot :: string where
  "dotdot \<equiv> ''..''"

fun ext_scan :: "string \<Rightarrow> string \<Rightarrow> string" where
  "ext_scan [] acc = []"
| "ext_scan (c # cs) acc =
     (if c = slash then [] else if c = CHR ''.'' then c # acc else ext_scan cs (c # acc))"

definition Ext :: "string \<Rightarrow> string" where
  "Ext path = ext_scan (rev path) []"

fun clean_elem :: "bool \<Rightarrow> string list \<Rightarrow> string \<Rightarrow> string list" where
  "clean_elem rooted stk el =
     (if el = [] \<or> el = ''.'' then stk
      else if el = dotdot then
        (case stk of
           [] \<Rightarrow> if rooted then [] else [dotdot]
         | w # below \<Rightarrow> if w = dotdot then dotdot # stk else below)
      else el # stk)"

definition clean_stack :: "bool \<Rightarrow> string list \<Rightarrow> string list" where
  "clean_stack rooted els = foldl (clean_elem rooted) [] els"

definition IsAbs :: "string \<Rightarrow> bool" where
  "IsAbs path = HasPrefix path ''/''"

definition Clean :: "string \<Rightarrow> string" where
  "Clean path =
     (if path = [] then ''.''
      else (let rooted = IsAbs path;
                body = JoinWith ''/'' (rev (clean_stack rooted (Split slash path)))
            in if rooted then slash # body else if body = [] then ''.'' else body))"

definition Join :: "string \<Rightarrow> string \<Rightarrow> string" where
  "Join a b = (if a \<noteq> [] then Clean (a @ ''/'' @ b) else if b \<noteq> [] then Clean b else [])"

definition Abs :: "string result \<Rightarrow> string \<Rightarrow> string result" where
  \<comment> \<open>the first argument is what \<open>os.Getwd\<close> returns\<close>
  "Abs wd path =
     (if IsAbs path then Inr (Clean path)
      else (case wd of Inl e \<Rightarrow> Inl e | Inr d \<Rightarrow> Inr (Join d path)))"

definition Dir :: "string \<Rightarrow> string" where
  "Dir path = Clean (rev (dropWhile (\<lambda>c. c \<noteq> slash) (rev path)))"

section \<open>The extension\<close>

lemma ext_scan_decomp:
  "ext_scan r acc = [] \<or> (\<exists>a b. r = a @ CHR ''.'' # b \<and> ext_scan r acc = CHR ''.'' # rev a @ acc
      \<and> CHR ''.'' \<notin> set a \<and> slash \<notin> set a)"
proof (induction r arbitrary: acc)
  case Nil
  then show ?case by simp
next
  case (Cons c cs)
  consider "c = slash" | "c = CHR ''.''" | "c \<noteq> slash" "c \<noteq> CHR ''.''" by blast
  then show ?case
  proof cases
    case 3
    show ?thesis
    proof (cases "ext_scan cs (c # acc) = []")
      case True
      with 3 show ?thesis by simp
    next
      case False
      then obtain a b where "cs = a @ CHR ''.'' # b" "ext_scan cs (c # acc) = CHR ''.'' # rev a @ c # acc"
        "CHR ''.'' \<notin> set a" "slash \<notin> set a" using Cons.IH [of "c # acc"] by auto
      then have "c # cs = (c # a) @ CHR ''.'' # b
          \<and> ext_scan (c # cs) acc = CHR ''.'' # rev (c # a) @ acc
          \<and> CHR ''.'' \<notin> set (c # a) \<and> slash \<notin> set (c # a)" using 3 by simp
      then show ?thesis by blast
    qed
  qed (auto intro!: exI [of _ "[]"])
qed

lemma Ext_cases:
  obtains (none) "Ext path = []"
  | (some) base e where "path = base @ CHR ''.'' # e" "Ext path = CHR ''.'' # e"
      "CHR ''.'' \<notin> set e" "slash \<notin> set e"
proof (cases "Ext path = []")
  case True
  then show ?thesis by (rule none)
next
  case False
  then obtain a b where ab: "rev path = a @ CHR ''.'' # b" "Ext path = CHR ''.'' # rev a"
      "CHR ''.'' \<notin> set a" "slash \<notin> set a"
    using ext_scan_decomp [of "rev path" "[]"] by (auto simp: Ext_def)
  then have "path = rev b @ CHR ''.'' # rev a"
    by (metis append.assoc append_Cons append_Nil rev.simps(2) rev_append rev_rev_ident)
  with ab some show ?thesis by (metis set_rev)
qed

lemma HasSuffix_Ext: "HasSuffix path (Ext path)"
  by (cases path rule: Ext_cases) (auto simp: HasSuffix_iff)

lemma TrimSuffix_Ext: "TrimSuffix path (Ext path) @ Ext path = path"
  by (metis HasSuffix_Ext HasSuffix_iff TrimSuffix_append)

lemma length_Ext: "length (Ext path) \<le> length path"
  by (metis TrimSuffix_Ext le_add2 length_append)

lemma ext_scan_append: "CHR ''.'' \<notin> set a \<Longrightarrow> slash \<notin> set a \<Longrightarrow>
    ext_scan (a @ CHR ''.'' # b) acc = CHR ''.'' # rev a @ acc"
  by (induction a arbitrary: acc) auto

lemma Ext_append: "CHR ''.'' \<notin> set e \<Longrightarrow> slash \<notin> set e \<Longrightarrow> Ext (base @ CHR ''.'' # e) = CHR ''.'' # e"
  using ext_scan_append [of "rev e" "rev base" "[]"] by (simp add: Ext_def)

section \<open>Clean paths\<close>

text \<open>An element \<open>Clean\<close> keeps: not empty, not a dot or two dots, no slash.\<close>

definition plain_elem :: "string \<Rightarrow> bool" where
  "plain_elem w \<longleftrightarrow> w \<noteq> [] \<and> w \<noteq> ''.'' \<and> w \<noteq> dotdot \<and> slash \<notin> set w"

lemma clean_elem_plain: "plain_elem w \<Longrightarrow> clean_elem r stk w = w # stk"
  by (simp add: plain_elem_def)

lemma clean_elem_shapes [simp]:
  "clean_elem r stk [] = stk" "clean_elem r stk ''.'' = stk"
  "clean_elem r [] dotdot = (if r then [] else [dotdot])"
  "clean_elem r (w # stk) dotdot = (if w = dotdot then dotdot # w # stk else stk)"
  by (simp_all add: clean_elem.simps)

declare clean_elem.simps [simp del]

lemma clean_stack_append:
  "clean_stack r (xs @ ys) = foldl (clean_elem r) (clean_stack r xs) ys"
  by (simp add: clean_stack_def)

lemma clean_elem_elems:
  "slash \<notin> set el \<Longrightarrow> \<forall>w \<in> set stk. w \<noteq> [] \<and> w \<noteq> ''.'' \<and> slash \<notin> set w \<Longrightarrow>
   w \<in> set (clean_elem r stk el) \<Longrightarrow> w \<noteq> [] \<and> w \<noteq> ''.'' \<and> slash \<notin> set w"
  by (cases stk) (auto simp: clean_elem.simps split: if_splits)

lemma clean_stack_elems:
  "\<forall>el \<in> set els. slash \<notin> set el \<Longrightarrow> w \<in> set (clean_stack r els) \<Longrightarrow>
   w \<noteq> [] \<and> w \<noteq> ''.'' \<and> slash \<notin> set w"
proof (induction els arbitrary: w rule: rev_induct)
  case Nil
  then show ?case by (simp add: clean_stack_def)
next
  case (snoc x xs)
  then have "\<forall>w \<in> set (clean_stack r xs). w \<noteq> [] \<and> w \<noteq> ''.'' \<and> slash \<notin> set w" by auto
  moreover have "w \<in> set (clean_elem r (clean_stack r xs) x)"
    using snoc.prems by (simp add: clean_stack_append)
  moreover have "slash \<notin> set x" using snoc.prems by simp
  ultimately show ?case using clean_elem_elems by blast
qed

lemma clean_stack_Split_elems:
  "w \<in> set (clean_stack r (Split slash p)) \<Longrightarrow> w \<noteq> [] \<and> w \<noteq> ''.'' \<and> slash \<notin> set w"
  by (rule clean_stack_elems) (auto dest: Split_pieces)

text \<open>
  In a rooted path no two-dot element survives; in a relative one they survive only below
  everything else (at the end of the stack).
\<close>

lemma clean_stack_rooted: "dotdot \<notin> set (clean_stack True els)"
proof (induction els rule: rev_induct)
  case Nil
  then show ?case by (simp add: clean_stack_def)
next
  case (snoc x xs)
  then show ?case
    by (cases "clean_stack True xs") (auto simp: clean_stack_append clean_elem.simps)
qed

lemma Split_JoinWith:
  "ws \<noteq> [] \<Longrightarrow> \<forall>w \<in> set ws. slash \<notin> set w \<Longrightarrow> Split slash (JoinWith ''/'' ws) = ws"
proof (induction ws)
  case (Cons w ws)
  then show ?case
    by (cases ws) (auto simp: Split_no_sep Split_append_sep)
qed simp

lemma JoinWith_Nil_iff: "\<forall>w \<in> set ws. w \<noteq> [] \<Longrightarrow> JoinWith sep ws = [] \<longleftrightarrow> ws = []"
  by (cases ws; cases "tl ws") auto

lemma foldl_clean_plain:
  "\<forall>w \<in> set ws. plain_elem w \<Longrightarrow> foldl (clean_elem r) stk ws = rev ws @ stk"
  by (induction ws arbitrary: stk) (auto simp: clean_elem_plain)

text \<open>\<open>Clean\<close> leaves a plain file name alone, and joins it to a directory as one more element.\<close>

lemma Clean_plain: "plain_elem w \<Longrightarrow> Clean w = w"
proof -
  assume p: "plain_elem w"
  then have "\<not> IsAbs w" by (cases w) (auto simp: IsAbs_def plain_elem_def)
  moreover have "clean_stack False (Split slash w) = [w]" using p
    by (simp add: plain_elem_def Split_no_sep clean_stack_def clean_elem_plain)
  ultimately show ?thesis using p by (simp add: Clean_def plain_elem_def)
qed

definition path_stack :: "string \<Rightarrow> string list" where
  "path_stack p = clean_stack (IsAbs p) (Split slash p)"

definition render :: "bool \<Rightarrow> string list \<Rightarrow> string" where
  "render rooted stk =
     (let body = JoinWith ''/'' (rev stk)
      in if rooted then slash # body else if body = [] then ''.'' else body)"

lemma Clean_render: "p \<noteq> [] \<Longrightarrow> Clean p = render (IsAbs p) (path_stack p)"
  by (simp add: Clean_def render_def path_stack_def Let_def)

lemma IsAbs_append: "a \<noteq> [] \<Longrightarrow> IsAbs (a @ b) = IsAbs a"
  by (cases a) (auto simp: IsAbs_def)

lemma path_stack_append_plain:
  assumes "a \<noteq> []" and "plain_elem w"
  shows "path_stack (a @ slash # w) = w # path_stack a"
  using assms
  by (simp add: path_stack_def IsAbs_append Split_append_sep plain_elem_def [of w] Split_no_sep
      clean_stack_append clean_elem_plain)

lemma Join_plain:
  "a \<noteq> [] \<Longrightarrow> plain_elem w \<Longrightarrow> Join a w = render (IsAbs a) (w # path_stack a)"
  using path_stack_append_plain [of a w] by (simp add: Join_def Clean_render IsAbs_append)

section \<open>Stacks and their rendering\<close>

text \<open>
  The stack of a rooted path holds plain elements only. Rendering such a stack and reading it
  back gives the stack; so \<open>Clean\<close> of an absolute path is a normal form.
\<close>

definition rooted_stack :: "string list \<Rightarrow> bool" where
  "rooted_stack stk \<longleftrightarrow> (\<forall>w \<in> set stk. plain_elem w)"

lemma rooted_stack_Cons [simp]: "rooted_stack (w # stk) \<longleftrightarrow> plain_elem w \<and> rooted_stack stk"
  by (simp add: rooted_stack_def)

lemma rooted_stack_clean: "\<forall>el \<in> set els. slash \<notin> set el \<Longrightarrow> rooted_stack (clean_stack True els)"
  using clean_stack_elems clean_stack_rooted by (fastforce simp: rooted_stack_def plain_elem_def)

lemma rooted_stack_path: "IsAbs p \<Longrightarrow> rooted_stack (path_stack p)"
  by (simp add: path_stack_def) (auto intro: rooted_stack_clean dest: Split_pieces)

lemma IsAbs_render [simp]: "IsAbs (render True stk)"
  by (simp add: IsAbs_def render_def Let_def)

lemma Split_render_True:
  assumes "rooted_stack stk" and "stk \<noteq> []"
  shows "Split slash (render True stk) = [] # rev stk"
proof -
  have "Split slash (JoinWith ''/'' (rev stk)) = rev stk"
    using assms by (intro Split_JoinWith) (auto simp: rooted_stack_def plain_elem_def)
  then show ?thesis by (simp add: render_def Let_def)
qed

lemma path_stack_render [simp]: "rooted_stack stk \<Longrightarrow> path_stack (render True stk) = stk"
proof (cases "stk = []")
  case True
  then show ?thesis by (simp add: path_stack_def render_def IsAbs_def clean_stack_def)
next
  case False
  assume r: "rooted_stack stk"
  then have "\<forall>w \<in> set (rev stk). plain_elem w" by (simp add: rooted_stack_def)
  with False r show ?thesis
    by (simp add: path_stack_def Split_render_True clean_stack_def foldl_clean_plain)
qed

lemma Clean_abs: "IsAbs p \<Longrightarrow> Clean p = render True (path_stack p)"
  by (cases p) (auto simp: Clean_render IsAbs_def)

lemma JoinWith_snoc: "ws \<noteq> [] \<Longrightarrow> JoinWith sep (ws @ [w]) = JoinWith sep ws @ sep @ w"
proof (induction ws)
  case (Cons v vs)
  then show ?case by (cases vs) (auto simp: JoinWith_Cons)
qed simp

lemma render_True_Cons: "stk \<noteq> [] \<Longrightarrow> render True (w # stk) = render True stk @ ''/'' @ w"
  by (simp add: render_def Let_def JoinWith_snoc)

text \<open>Cleaning a relative path first, or as part of an absolute one, ends in the same place.\<close>

lemma foldl_clean_relative:
  "\<forall>el \<in> set els. slash \<notin> set el \<Longrightarrow>
   foldl (clean_elem True) S (rev (clean_stack False els)) = foldl (clean_elem True) S els"
proof (induction els rule: rev_induct)
  case Nil
  then show ?case by (simp add: clean_stack_def)
next
  case (snoc x xs)
  let ?c = "clean_stack False xs"
  have IH: "foldl (clean_elem True) S (rev ?c) = foldl (clean_elem True) S xs"
    using snoc by simp
  have el: "w \<noteq> [] \<and> w \<noteq> ''.'' \<and> slash \<notin> set w" if "w \<in> set ?c" for w
    using clean_stack_elems that snoc.prems by (metis Un_iff set_append)
  show ?case
  proof (cases "x = dotdot \<and> ?c \<noteq> [] \<and> hd ?c \<noteq> dotdot")
    case True
    then obtain w below where c: "?c = w # below" and w: "w \<noteq> dotdot" by (cases ?c) auto
    then have "plain_elem w" using el [of w] by (simp add: plain_elem_def)
    then have "foldl (clean_elem True) S xs = w # foldl (clean_elem True) S (rev below)"
      using IH c by (simp add: clean_elem_plain)
    then show ?thesis using True c w by (simp add: clean_stack_append)
  next
    case False
    have x: "slash \<notin> set x" using snoc.prems by simp
    consider "x = []" | "x = ''.''" | "x = dotdot" "?c = []" | w below where "x = dotdot" "?c = dotdot # below"
      | "plain_elem x" using False x by (cases ?c) (auto simp: plain_elem_def)
    then show ?thesis
    proof cases
      case 5
      then show ?thesis using IH by (simp add: clean_stack_append clean_elem_plain)
    qed (use IH in \<open>simp_all add: clean_stack_append\<close>)
  qed
qed

lemma path_stack_append:
  "a \<noteq> [] \<Longrightarrow> path_stack (a @ slash # b) = foldl (clean_elem (IsAbs a)) (path_stack a) (Split slash b)"
  by (simp add: path_stack_def IsAbs_append Split_append_sep clean_stack_append)

lemma Split_render_False:
  "\<forall>w \<in> set stk. w \<noteq> [] \<and> slash \<notin> set w \<Longrightarrow> stk \<noteq> [] \<Longrightarrow> Split slash (render False stk) = rev stk"
  using Split_JoinWith [of "rev stk"] JoinWith_Nil_iff [of "rev stk"]
  by (simp add: render_def Let_def)

section \<open>Absolute paths\<close>

text \<open>
  \<open>abs_stack wd p\<close>: where the path leads from the working directory. \<open>Abs\<close> and \<open>Join\<close> are
  described by it.
\<close>

definition abs_stack :: "string \<Rightarrow> string \<Rightarrow> string list" where
  "abs_stack d p = (if IsAbs p then path_stack p
     else foldl (clean_elem True) (path_stack d) (Split slash p))"

lemma Split_no_slash: "el \<in> set (Split slash p) \<Longrightarrow> slash \<notin> set el"
  by (rule Split_pieces)

lemma foldl_clean_rooted:
  "rooted_stack S \<Longrightarrow> \<forall>el \<in> set els. slash \<notin> set el \<Longrightarrow> rooted_stack (foldl (clean_elem True) S els)"
proof (induction els arbitrary: S)
  case (Cons x xs)
  have "rooted_stack (clean_elem True S x)" using Cons.prems
    by (cases S) (auto simp: clean_elem.simps rooted_stack_def plain_elem_def)
  with Cons show ?case by simp
qed simp

lemma rooted_abs_stack: "IsAbs d \<Longrightarrow> rooted_stack (abs_stack d p)"
  by (auto simp: abs_stack_def rooted_stack_path Split_no_slash intro!: foldl_clean_rooted)

lemma Abs_Inr: "IsAbs d \<Longrightarrow> Abs (Inr d) p = Inr (render True (abs_stack d p))"
proof (cases "IsAbs p")
  case True
  then show ?thesis by (simp add: Abs_def Clean_abs abs_stack_def)
next
  case False
  assume d: "IsAbs d"
  then have ne: "d \<noteq> []" by (auto simp: IsAbs_def)
  then have ab: "IsAbs (d @ ''/'' @ p)" using d by (simp add: IsAbs_append)
  have "path_stack (d @ ''/'' @ p) = abs_stack d p"
    using path_stack_append [OF ne, of p] d False by (simp add: abs_stack_def)
  with False ne ab show ?thesis by (simp add: Abs_def Join_def Clean_abs)
qed

lemma Abs_absolute: "IsAbs p \<Longrightarrow> Abs wd p = Inr (render True (path_stack p))"
  by (simp add: Abs_def Clean_abs)

text \<open>A cleaned path leads to the same place as the path.\<close>

lemma abs_stack_render: "IsAbs d \<Longrightarrow> p \<noteq> [] \<Longrightarrow> abs_stack d (render (IsAbs p) (path_stack p)) = abs_stack d p"
proof (cases "IsAbs p")
  case True
  then show ?thesis by (simp add: abs_stack_def rooted_stack_path)
next
  case False
  let ?stk = "path_stack p"
  have el: "w \<noteq> [] \<and> w \<noteq> ''.'' \<and> slash \<notin> set w" if "w \<in> set ?stk" for w
    using that clean_stack_Split_elems by (simp add: path_stack_def)
  have rel: "foldl (clean_elem True) (path_stack d) (rev ?stk)
      = foldl (clean_elem True) (path_stack d) (Split slash p)"
    using foldl_clean_relative [of "Split slash p"] Split_no_slash False by (simp add: path_stack_def)
  show ?thesis
  proof (cases "?stk = []")
    case True
    then show ?thesis using False rel
      by (simp add: abs_stack_def render_def IsAbs_def clean_elem.simps)
  next
    case ne: False
    have "Split slash (render False ?stk) = rev ?stk" using el ne by (intro Split_render_False) auto
    moreover have "\<not> IsAbs (render False ?stk)"
    proof
      assume "IsAbs (render False ?stk)"
      then obtain t where "render False ?stk = slash # t" by (auto simp: IsAbs_def HasPrefix_iff)
      then have "hd (Split slash (render False ?stk)) = []" by simp
      moreover have "hd (rev ?stk) \<in> set ?stk" using ne by (metis hd_in_set rev_is_Nil_conv set_rev)
      ultimately show False using el ne \<open>Split slash (render False ?stk) = rev ?stk\<close> by auto
    qed
    ultimately show ?thesis using False rel by (simp add: abs_stack_def)
  qed
qed

lemma abs_stack_Join:
  assumes "IsAbs d" and "a \<noteq> []"
  shows "abs_stack d (Join a b) = foldl (clean_elem True) (abs_stack d a) (Split slash b)"
proof -
  have "abs_stack d (Join a b) = abs_stack d (a @ ''/'' @ b)"
    using assms abs_stack_render [of d "a @ ''/'' @ b"] by (simp add: Join_def Clean_render)
  also have "\<dots> = foldl (clean_elem True) (abs_stack d a) (Split slash b)"
    using assms by (simp add: abs_stack_def IsAbs_append path_stack_append Split_append_sep)
  finally show ?thesis .
qed

lemma abs_stack_Join_plain:
  "IsAbs d \<Longrightarrow> a \<noteq> [] \<Longrightarrow> plain_elem w \<Longrightarrow> abs_stack d (Join a w) = w # abs_stack d a"
  by (simp add: abs_stack_Join plain_elem_def [of w] Split_no_sep clean_elem_plain)

text \<open>The directory part of a path joined from a base and a plain name leads to the base.\<close>

lemma Dir_append:
  assumes "slash \<notin> set w"
  shows "Dir (a @ slash # w) = Clean (a @ ''/'')"
proof -
  have "dropWhile (\<lambda>c. c \<noteq> slash) (rev w @ slash # rev a) = slash # rev a"
    using assms by (subst dropWhile_append2) auto
  then show ?thesis by (simp add: Dir_def)
qed

lemma abs_stack_Clean: "IsAbs d \<Longrightarrow> p \<noteq> [] \<Longrightarrow> abs_stack d (Clean p) = abs_stack d p"
  by (simp add: Clean_render abs_stack_render)

lemma abs_stack_trailing: "a \<noteq> [] \<Longrightarrow> abs_stack d (a @ ''/'') = abs_stack d a"
  using path_stack_append [of a "[]"] Split_append_sep [of slash a "[]"]
  by (simp add: abs_stack_def IsAbs_append)

lemma abs_stack_dot: "abs_stack d ''.'' = path_stack d"
  by (simp add: abs_stack_def IsAbs_def clean_elem.simps)

end
