(* ===== verification/Validator.thy ===== *)
theory Validator
  imports Model GoPath
begin

text \<open>
  pkg/validator/file.go: the checks on an upload's name, extension, size and content type, and
  the clean-up of a client's file name. A nil error is \<open>None\<close>; each \<open>for\<close> loop with an early
  return is a recursive function.
\<close>

section \<open>Limits and tables\<close>

definition MaxFileSize :: int where
  "MaxFileSize = 100 * 1024 * 1024"

definition MaxFilenameLen :: nat where
  "MaxFilenameLen = 255"

definition MinFilenameLen :: nat where
  "MinFilenameLen = 1"

definition AllowedTypes :: "(string \<times> string list) list" where
  "AllowedTypes =
     [(''.jpg'', [''image/jpeg'']), (''.jpeg'', [''image/jpeg'']), (''.png'', [''image/png'']),
      (''.gif'', [''image/gif'']), (''.webp'', [''image/webp'']), (''.avif'', [''image/avif'']),
      (''.mp4'', [''video/mp4'']), (''.avi'', [''video/x-msvideo'']),
      (''.mov'', [''video/quicktime'']), (''.pdf'', [''application/pdf'']),
      (''.txt'', [''text/plain'', ''text/plain; charset=utf-8'']),
      (''.zip'', [''application/zip''])]"

definition DangerousTypes :: "string list" where
  \<comment> \<open>the keys of the Go map: each maps to true\<close>
  "DangerousTypes =
     [''.exe'', ''.bat'', ''.cmd'', ''.com'', ''.scr'', ''.pif'', ''.vbs'', ''.js'',
      ''.jar'', ''.sh'', ''.bash'', ''.ps1'', ''.php'', ''.asp'', ''.jsp'', ''.py'',
      ''.rb'', ''.pl'', ''.cgi'', ''.dll'', ''.so'', ''.dylib'', ''.app'', ''.deb'',
      ''.rpm'', ''.msi'', ''.dmg'', ''.iso'']"

definition dangerousChars :: "rune list" where
  \<comment> \<open>less-than, greater-than, colon, double quote, bar, question mark, asterisk, NUL\<close>
  "dangerousChars = [60, 62, 58, 34, 124, 63, 42, 0]"

definition reservedNames :: "string list" where
  "reservedNames =
     [''CON'', ''PRN'', ''AUX'', ''NUL'',
      ''COM1'', ''COM2'', ''COM3'', ''COM4'', ''COM5'', ''COM6'', ''COM7'', ''COM8'', ''COM9'',
      ''LPT1'', ''LPT2'', ''LPT3'', ''LPT4'', ''LPT5'', ''LPT6'', ''LPT7'', ''LPT8'', ''LPT9'']"

section \<open>ValidateFilename\<close>

fun rune_loop :: "rune list \<Rightarrow> goerr option" where
  \<comment> \<open>the loop over the runes of the name, with its inner loop over the dangerous ones\<close>
  "rune_loop [] = None"
| "rune_loop (r # rs) =
     (if r \<in> set dangerousChars
        then Some (ErrorString (''filename contains invalid character: '' @ string_of_runes [r]))
      else if IsControl r then Some (ErrorString ''filename contains control character'')
      else rune_loop rs)"

fun reserved_loop :: "string \<Rightarrow> string list \<Rightarrow> goerr option" where
  "reserved_loop base [] = None"
| "reserved_loop base (r # rs) =
     (if base = r then Some (ErrorString (''filename uses reserved name: '' @ r))
      else reserved_loop base rs)"

definition ValidateFilename :: "string \<Rightarrow> goerr option" where
  "ValidateFilename filename =
     (if length filename < MinFilenameLen then Some (ErrorString ''filename too short'')
      else if length filename > MaxFilenameLen
        then Some (ErrorString ''filename too long (max 255 characters)'')
      else (case rune_loop (runes filename) of
          Some e \<Rightarrow> Some e
        | None \<Rightarrow>
            (let baseFilename = ToUpper (TrimSuffix filename (Ext filename)) in
             case reserved_loop baseFilename reservedNames of
               Some e \<Rightarrow> Some e
             | None \<Rightarrow>
                 if Contains filename ''..'' \<or> Contains filename ''/'' \<or> Contains filename [CHR 0x5C]
                   then Some (ErrorString ''filename contains path traversal characters'')
                 else if HasPrefix filename ''.'' then Some (ErrorString ''hidden files not allowed'')
                 else None)))"

section \<open>The other checks\<close>

definition ValidateFileExtension :: "string \<Rightarrow> goerr option" where
  "ValidateFileExtension filename =
     (let ext = ToLower (Ext filename) in
      if ext = [] then Some (ErrorString ''file must have an extension'')
      else if ext \<in> set DangerousTypes
        then Some (ErrorString (''dangerous file type not allowed: '' @ ext))
      else if map_of AllowedTypes ext = None
        then Some (ErrorString (''unsupported file type: '' @ ext))
      else None)"

fun mime_loop :: "string \<Rightarrow> string list \<Rightarrow> bool" where
  "mime_loop contentType [] = False"
| "mime_loop contentType (t # ts) = (if contentType = t then True else mime_loop contentType ts)"

definition ValidateContentType :: "string \<Rightarrow> string \<Rightarrow> goerr option" where
  "ValidateContentType filename contentType =
     (let ext = ToLower (Ext filename) in
      case map_of AllowedTypes ext of
        None \<Rightarrow> Some (ErrorString (''file extension not allowed: '' @ ext))
      | Some allowedMimeTypes \<Rightarrow>
          if mime_loop contentType allowedMimeTypes then None
          else Some (ErrorString (''content type '' @ contentType
                 @ '' does not match file extension '' @ ext)))"

definition ValidateFileSize :: "int \<Rightarrow> goerr option" where
  "ValidateFileSize sz =
     (if sz \<le> 0 then Some (ErrorString ''file size must be greater than 0'')
      else if sz > MaxFileSize
        then Some (ErrorString (''file too large (max '' @ Itoa MaxFileSize @ '' bytes)''))
      else None)"

definition ValidateFile :: "FileHeader option \<Rightarrow> goerr option" where
  "ValidateFile header =
     (case header of
        None \<Rightarrow> Some (ErrorString ''file header is required'')
      | Some h \<Rightarrow>
          (case ValidateFilename (HName h) of
             Some e \<Rightarrow> Some (wrapf ''invalid filename: '' e)
           | None \<Rightarrow>
          (case ValidateFileExtension (HName h) of
             Some e \<Rightarrow> Some (wrapf ''invalid file extension: '' e)
           | None \<Rightarrow>
          (case ValidateFileSize (HSize h) of
             Some e \<Rightarrow> Some (wrapf ''invalid file size: '' e)
           | None \<Rightarrow>
               if HContentType h \<noteq> [] then
                 (case ValidateContentType (HName h) (HContentType h) of
                    Some e \<Rightarrow> Some (wrapf ''invalid content type: '' e)
                  | None \<Rightarrow> None)
               else None))))"

section \<open>SanitizeFilename\<close>

text \<open>
  The class of the regular expression: every member is an ASCII byte, and in a Go string (valid
  UTF-8 or not) such a byte is always a rune of its own, so replacing every match replaces
  every such byte.
\<close>

definition regClass :: "char \<Rightarrow> bool" where
  "regClass c \<longleftrightarrow> c \<in> set [CHR ''<'', CHR ''>'', CHR '':'', CHR 0x22, CHR ''|'', CHR ''?'', CHR ''*'']
     \<or> (of_char c :: nat) < 32"

definition slice_to :: "string \<Rightarrow> int \<Rightarrow> string res" where
  \<comment> \<open>\<open>s[:n]\<close>\<close>
  "slice_to s n = (if 0 \<le> n \<and> n \<le> int (length s) then Ok (take (nat n) s)
     else Panic ''slice bounds out of range'')"

definition SanitizeFilename :: "string \<Rightarrow> string res" where
  "SanitizeFilename filename =
     (let sanitized = map (\<lambda>c. if regClass c then CHR ''_'' else c) filename;
          sanitized = Trim sanitized '' .'';
          limited =
            (if length sanitized > MaxFilenameLen then
               (let ext = Ext sanitized;
                    nameOnly = TrimSuffix sanitized ext;
                    maxNameLen = int MaxFilenameLen - int (length ext)
                in if maxNameLen > 0 then
                     (case slice_to nameOnly maxNameLen of
                        Ok s \<Rightarrow> Ok (s @ ext) | Err e \<Rightarrow> Err e | Panic m \<Rightarrow> Panic m)
                   else Ok sanitized)
             else Ok sanitized)
      in case limited of
           Ok s \<Rightarrow> Ok (if s = [] then ''unnamed_file'' else s)
         | Err e \<Rightarrow> Err e
         | Panic m \<Rightarrow> Panic m)"

section \<open>What an accepted name looks like\<close>

lemma case_error_None: "(case x of Some e \<Rightarrow> Some (f e) | None \<Rightarrow> y) = None \<longleftrightarrow> x = None \<and> y = None"
  by (cases x) auto

lemma rune_loop_None_iff:
  "rune_loop rs = None \<longleftrightarrow> (\<forall>r \<in> set rs. r \<notin> set dangerousChars \<and> \<not> IsControl r)"
  by (induction rs) auto

lemma reserved_loop_None_iff: "reserved_loop base rs = None \<longleftrightarrow> base \<notin> set rs"
  by (induction rs) auto

lemma mime_loop_iff: "mime_loop t ts \<longleftrightarrow> t \<in> set ts"
  by (induction ts) auto

lemma ValidateFilename_None_iff:
  "ValidateFilename name = None \<longleftrightarrow>
     name \<noteq> [] \<and> length name \<le> 255
     \<and> (\<forall>r \<in> set (runes name). r \<notin> set dangerousChars \<and> \<not> IsControl r)
     \<and> ToUpper (TrimSuffix name (Ext name)) \<notin> set reservedNames
     \<and> \<not> Contains name ''..'' \<and> CHR ''/'' \<notin> set name \<and> CHR 0x5C \<notin> set name
     \<and> \<not> HasPrefix name ''.''"
  by (auto simp: ValidateFilename_def MinFilenameLen_def MaxFilenameLen_def Let_def Contains_char
      case_error_None rune_loop_None_iff reserved_loop_None_iff)

lemma ext_lookup_not_empty: "map_of AllowedTypes ext \<noteq> None \<Longrightarrow> ext \<noteq> []"
  by (auto simp: AllowedTypes_def)

lemma allowed_not_dangerous: "map_of AllowedTypes ext \<noteq> None \<Longrightarrow> ext \<notin> set DangerousTypes"
proof -
  assume "map_of AllowedTypes ext \<noteq> None"
  then have "ext \<in> set (map fst AllowedTypes)" by (simp add: map_of_eq_None_iff)
  moreover have "set (map fst AllowedTypes) \<inter> set DangerousTypes = {}"
    by (simp add: AllowedTypes_def DangerousTypes_def)
  ultimately show ?thesis by blast
qed

text \<open>
  The list of dangerous extensions only chooses the message: no dangerous extension is allowed.
\<close>

lemma ValidateFileExtension_None_iff:
  "ValidateFileExtension name = None \<longleftrightarrow> map_of AllowedTypes (ToLower (Ext name)) \<noteq> None"
  using ext_lookup_not_empty allowed_not_dangerous
  by (auto simp: ValidateFileExtension_def Let_def)

lemma ValidateContentType_None_iff:
  "ValidateContentType name ct = None \<longleftrightarrow>
     (\<exists>ts. map_of AllowedTypes (ToLower (Ext name)) = Some ts \<and> ct \<in> set ts)"
  by (auto simp: ValidateContentType_def Let_def mime_loop_iff split: option.splits)

lemma ValidateFileSize_None_iff: "ValidateFileSize n = None \<longleftrightarrow> 0 < n \<and> n \<le> 104857600"
  by (auto simp: ValidateFileSize_def MaxFileSize_def)

lemma ValidateFile_None_iff:
  "ValidateFile header = None \<longleftrightarrow>
     (\<exists>h. header = Some h \<and> ValidateFilename (HName h) = None
        \<and> ValidateFileExtension (HName h) = None \<and> ValidateFileSize (HSize h) = None
        \<and> (HContentType h = [] \<or> ValidateContentType (HName h) (HContentType h) = None))"
  by (auto simp: ValidateFile_def split: option.splits)

text \<open>An accepted name is one plain path element, so it cannot leave a directory it is joined to.\<close>

lemma ValidateFile_name: "ValidateFile (Some h) = None \<Longrightarrow> ValidateFilename (HName h) = None"
  by (simp add: ValidateFile_None_iff)

lemma ValidateFilename_plain: "ValidateFilename name = None \<Longrightarrow> plain_elem name"
proof -
  assume v: "ValidateFilename name = None"
  then have "\<not> HasPrefix name ''.''" "CHR ''/'' \<notin> set name" "name \<noteq> []"
    by (auto simp: ValidateFilename_None_iff)
  then show ?thesis by (auto simp: plain_elem_def)
qed

text \<open>No byte of an accepted name is one of the dangerous characters or an ASCII control byte.\<close>

lemma ValidateFilename_bytes:
  assumes "ValidateFilename name = None" and "c \<in> set name"
  shows "\<not> regClass c \<and> c \<noteq> CHR 0x7F \<and> c \<noteq> CHR ''/'' \<and> c \<noteq> CHR 0x5C"
proof -
  have r: "of_char c \<notin> set dangerousChars \<and> \<not> IsControl (of_char c)"
    if "(of_char c :: nat) < 128"
    using that assms runes_ascii_iff [OF that, of name] by (auto simp: ValidateFilename_None_iff)
  have "\<not> regClass c"
  proof
    assume "regClass c"
    then have "(of_char c :: nat) < 128" "of_char c \<in> set dangerousChars \<or> IsControl (of_char c)"
      by (auto simp: regClass_def dangerousChars_def IsControl_def)
    with r show False by simp
  qed
  moreover have "c \<noteq> CHR 0x7F" using r by (auto simp: IsControl_def)
  ultimately show ?thesis using assms by (auto simp: ValidateFilename_None_iff)
qed

section \<open>What SanitizeFilename returns\<close>

definition replaced :: "string \<Rightarrow> string" where
  "replaced s = map (\<lambda>c. if regClass c then CHR ''_'' else c) s"

lemma regClass_underscore: "\<not> regClass CHR ''_''"
  by (simp add: regClass_def)

lemma replaced_clean: "c \<in> set (replaced s) \<Longrightarrow> \<not> regClass c"
  by (auto simp: replaced_def regClass_underscore)

lemma replaced_id: "\<forall>c \<in> set s. \<not> regClass c \<Longrightarrow> replaced s = s"
  by (induction s) (auto simp: replaced_def)

text \<open>
  The three shapes of the result: a short name as it is, a long name cut so that it keeps its
  extension, and a long name whose extension alone fills the limit, kept whole.
\<close>

lemma SanitizeFilename_cases:
  fixes name :: string
  defines "t \<equiv> Trim (replaced name) '' .''"
  obtains (blank) "t = []" "SanitizeFilename name = Ok ''unnamed_file''"
  | (short) "t \<noteq> []" "length t \<le> 255" "SanitizeFilename name = Ok t"
  | (cut) "255 < length t" "length (Ext t) < 255"
      "SanitizeFilename name = Ok (take (255 - length (Ext t)) (TrimSuffix t (Ext t)) @ Ext t)"
  | (long) "255 < length t" "255 \<le> length (Ext t)" "SanitizeFilename name = Ok t"
proof -
  let ?n = "TrimSuffix t (Ext t)"
  have len: "length ?n + length (Ext t) = length t" by (metis TrimSuffix_Ext length_append)
  have eq: "SanitizeFilename name =
      (case (if 255 < length t
             then if 0 < 255 - int (length (Ext t)) then
                    (case slice_to ?n (255 - int (length (Ext t))) of
                       Ok s \<Rightarrow> Ok (s @ Ext t) | Err e \<Rightarrow> Err e | Panic m \<Rightarrow> Panic m)
                  else Ok t
             else Ok t) of
         Ok s \<Rightarrow> Ok (if s = [] then ''unnamed_file'' else s) | Err e \<Rightarrow> Err e | Panic m \<Rightarrow> Panic m)"
    unfolding t_def SanitizeFilename_def replaced_def Let_def MaxFilenameLen_def by simp
  consider "t = []" | "t \<noteq> []" "length t \<le> 255" | "255 < length t" "length (Ext t) < 255"
    | "255 < length t" "255 \<le> length (Ext t)" by linarith
  then show ?thesis
  proof cases
    case 1
    then show ?thesis using eq blank by simp
  next
    case 2
    then show ?thesis using eq short by simp
  next
    case 3
    then have "slice_to ?n (255 - int (length (Ext t))) = Ok (take (255 - length (Ext t)) ?n)"
      using len by (auto simp: slice_to_def nat_diff_distrib)
    moreover have "take (255 - length (Ext t)) ?n @ Ext t \<noteq> []" using 3 len by auto
    ultimately have "SanitizeFilename name = Ok (take (255 - length (Ext t)) ?n @ Ext t)"
      using 3 eq by auto
    then show ?thesis by (rule cut [OF 3])
  next
    case 4
    then have "t \<noteq> []" by auto
    then show ?thesis using 4 eq long by simp
  qed
qed

lemma set_take_TrimSuffix: "set (take n (TrimSuffix t (Ext t)) @ Ext t) \<subseteq> set t"
  by (metis TrimSuffix_Ext Un_mono order_refl set_append set_take_subset)

lemma SanitizeFilename_result:
  fixes name :: string
  defines "t \<equiv> Trim (replaced name) '' .''"
  obtains s where "SanitizeFilename name = Ok s" "s \<noteq> []" "\<forall>c \<in> set s. \<not> regClass c"
    "if 255 < length t \<and> 255 \<le> length (Ext t) then s = t else length s \<le> 255"
proof -
  have clean: "\<forall>c \<in> set t. \<not> regClass c" unfolding t_def using set_Trim replaced_clean by blast
  show ?thesis
  proof (cases name rule: SanitizeFilename_cases [folded t_def])
    case blank
    then show ?thesis by (intro that [OF blank(2)]) (auto simp: regClass_def t_def)
  next
    case short
    then show ?thesis using clean by (intro that [OF short(3)]) (auto simp: t_def)
  next
    case cut
    have "\<forall>c \<in> set (take (255 - length (Ext t)) (TrimSuffix t (Ext t)) @ Ext t). \<not> regClass c"
      using clean set_take_TrimSuffix by blast
    moreover have "length (TrimSuffix t (Ext t)) + length (Ext t) = length t"
      by (metis TrimSuffix_Ext length_append)
    ultimately show ?thesis using cut(1,2) by (intro that [OF cut(3)]) (auto simp: t_def)
  next
    case long
    then show ?thesis using clean by (intro that [OF long(3)]) (auto simp: t_def)
  qed
qed

lemma Trim_id:
  assumes "s \<noteq> []" "hd s \<notin> set cutset" "last s \<notin> set cutset"
  shows "Trim s cutset = s"
proof -
  have "dropWhile (\<lambda>c. c \<in> set cutset) s = s" "dropWhile (\<lambda>c. c \<in> set cutset) (rev s) = rev s"
    unfolding dropWhile_eq_self_iff hd_rev rev_is_Nil_conv using assms(2,3) by blast+
  then show ?thesis by (simp add: Trim_def)
qed

section \<open>Names of more than 255 bytes\<close>















section \<open>Properties\<close>

text \<open>
  C13: \<open>ValidateFile\<close> accepts exactly the headers whose name is 1 to 255 bytes long (bytes, where the
  documents and the message say characters), free of
  dangerous and control characters, of path separators, of two dots in a row and of a leading
  dot, not a reserved device name, with an allowed extension that the content type (when there
  is one) agrees with, and whose size is positive and at most 100 MiB.
\<close>

theorem validate_accepts_iff:
  "ValidateFile (Some h) = None \<longleftrightarrow>
     (0 < length (HName h) \<and> length (HName h) \<le> 255
      \<and> list_all (\<lambda>r. r \<notin> set dangerousChars \<and> \<not> IsControl r) (runes (HName h))
      \<and> ToUpper (TrimSuffix (HName h) (Ext (HName h))) \<notin> set reservedNames
      \<and> \<not> Contains (HName h) ''..'' \<and> CHR ''/'' \<notin> set (HName h) \<and> CHR 0x5C \<notin> set (HName h)
      \<and> \<not> HasPrefix (HName h) ''.''
      \<and> (\<exists>ts. map_of AllowedTypes (ToLower (Ext (HName h))) = Some ts
             \<and> (HContentType h = [] \<or> HContentType h \<in> set ts))
      \<and> 0 < HSize h \<and> HSize h \<le> 104857600)"
proof -
  have len: "0 < length (HName h) \<longleftrightarrow> HName h \<noteq> []" by simp
  have ext: "ValidateFileExtension (HName h) = None \<and>
      (HContentType h = [] \<or> ValidateContentType (HName h) (HContentType h) = None) \<longleftrightarrow>
      (\<exists>ts. map_of AllowedTypes (ToLower (Ext (HName h))) = Some ts
         \<and> (HContentType h = [] \<or> HContentType h \<in> set ts))"
    by (auto simp: ValidateFileExtension_None_iff ValidateContentType_None_iff)
  show ?thesis
    unfolding ValidateFile_None_iff ValidateFilename_None_iff ValidateFileSize_None_iff len list_all_iff
    using ext by blast
qed



text \<open>
  C32: A name that \<open>ValidateFilename\<close> accepts has no character that the platform or an HTTP header
  gives a meaning to, and joined to any directory it names an entry of that directory, whatever
  the working directory.
\<close>

theorem accepted_name_stays_in_directory:
  assumes "ValidateFilename name = None" and "IsAbs d" and "base \<noteq> []"
  shows "abs_stack d (Join base name) = name # abs_stack d base
    \<and> list_all (\<lambda>c. \<not> regClass c \<and> c \<noteq> CHR 0x7F \<and> c \<noteq> CHR ''/'' \<and> c \<noteq> CHR 0x5C) name"
proof -
  have "plain_elem name" using assms(1) by (rule ValidateFilename_plain)
  then have "abs_stack d (Join base name) = name # abs_stack d base"
    using assms(2,3) by (intro abs_stack_Join_plain) auto
  then show ?thesis using ValidateFilename_bytes [OF assms(1)] by (simp add: list_all_iff)
qed

theorem accepted_name_stays_in_directory_witness:
  "abs_stack ''/srv'' (Join ''data/files'' ''report.pdf'') = [''report.pdf'', ''files'', ''data'', ''srv'']"
proof -
  have "ValidateFilename ''report.pdf'' = None" "IsAbs ''/srv''" by code_simp+
  from accepted_name_stays_in_directory [OF this, of "''data/files''"]
  have "abs_stack ''/srv'' (Join ''data/files'' ''report.pdf'') = ''report.pdf'' # abs_stack ''/srv'' ''data/files''"
    by simp
  moreover have "abs_stack ''/srv'' ''data/files'' = [''files'', ''data'', ''srv'']" by code_simp
  ultimately show ?thesis by simp
qed

text \<open>
  C33: \<open>SanitizeFilename\<close> never panics (its slice is in bounds on every input) and returns a name
  that is not empty and has no character of the replaced class. It is at most 255 bytes long, except
  when the replaced and trimmed name is longer and has an extension of 255 bytes or more: then that
  name is returned whole, however long it is.
\<close>

theorem sanitize_total:
  "\<exists>s. SanitizeFilename name = Ok s \<and> 0 < length s \<and> list_all (\<lambda>c. \<not> regClass c) s
     \<and> (let t = Trim (replaced name) '' .'' in
        if 255 < length t \<and> 255 \<le> length (Ext t) then s = t else length s \<le> 255)"
  by (rule SanitizeFilename_result [of name]) (simp add: list_all_iff Let_def)

lemma Trim_Trim: "Trim (Trim s cutset) cutset = Trim s cutset"
proof (cases "Trim s cutset = []")
  case True
  show ?thesis unfolding True by (simp add: Trim_def)
next
  case False
  show ?thesis by (rule Trim_id [OF False hd_Trim [OF False] last_Trim [OF False]])
qed

lemma SanitizeFilename_short:
  assumes "Trim (replaced s) '' .'' = s" "s \<noteq> []" "length s \<le> 255"
  shows "SanitizeFilename s = Ok s"
  by (rule SanitizeFilename_cases [of s]; insert assms; simp)

lemma unnamed_fixed: "SanitizeFilename ''unnamed_file'' = Ok ''unnamed_file''"
  by code_simp

text \<open>
  Sanitising is idempotent on names of at most 255 bytes: what it returns it would return
  again, so a stored name is not changed by a second upload of the same name.
\<close>

theorem sanitize_idempotent:
  assumes "length name \<le> 255" and "SanitizeFilename name = Ok s"
  shows "SanitizeFilename s = Ok s"
proof -
  let ?t = "Trim (replaced name) '' .''"
  have "length ?t \<le> length (replaced name)" by (rule length_Trim)
  then have fits: "length ?t \<le> 255" using assms(1) by (simp add: replaced_def)
  have "s = ''unnamed_file'' \<or> ?t \<noteq> [] \<and> s = ?t"
  proof (cases name rule: SanitizeFilename_cases)
    case blank
    then show ?thesis using assms(2) by simp
  next
    case short
    then show ?thesis using assms(2) by (simp only: res.inject simp_thms)
  next
    case cut
    then show ?thesis using fits by linarith
  next
    case long
    then show ?thesis using fits by linarith
  qed
  then consider "s = ''unnamed_file''" | "?t \<noteq> []" "s = ?t" by blast
  then show ?thesis
  proof cases
    case 1
    then show ?thesis using unnamed_fixed by simp
  next
    case 2
    have "\<forall>c \<in> set s. \<not> regClass c" unfolding 2(2) using set_Trim replaced_clean by blast
    then have "Trim (replaced s) '' .'' = s" unfolding replaced_id [OF \<open>\<forall>c \<in> set s. \<not> regClass c\<close>]
      unfolding 2(2) by (simp only: Trim_Trim)
    moreover have "s \<noteq> []" "length s \<le> 255" unfolding 2(2) using 2(1) fits by blast+
    ultimately show ?thesis using SanitizeFilename_short [of s] by simp
  qed
qed

theorem sanitize_idempotent_witness: "SanitizeFilename ''_etc_passwd'' = Ok ''_etc_passwd''"
proof -
  have "SanitizeFilename ''..<etc>passwd '' = Ok ''_etc_passwd''" by code_simp
  then show ?thesis using sanitize_idempotent [of "''..<etc>passwd ''" "''_etc_passwd''"] by simp
qed

end
