(* ===== verification/BlobStore.thy ===== *)
theory BlobStore
  imports Prelude
begin

text \<open>
  pkg/storage/interface.go: the \<open>Storage\<close> interface. A Go interface value is its table of
  methods, so the interface is a record of operations over the state \<open>'s\<close> of the
  implementation; the service is written against the record, as the code is written against
  the interface. The \<open>context.Context\<close> argument is left out: cancellation shows as an error
  of the operation it interrupts.

  The locale \<open>blob_store\<close> states what the service relies on: with an abstraction \<open>blobs\<close> of
  the state to a map from paths to contents, \<open>Put\<close> stores, \<open>Get\<close> reads back, \<open>Delete\<close>
  removes, and none of them touches another path. The implementations interpret it.
\<close>

section \<open>The interface\<close>

text \<open>
  \<open>Put\<close> returns a count and an error together. \<open>pr_consumed\<close> is what it read from its reader,
  which the service needs because it hashes the content through an \<open>io.TeeReader\<close>.
\<close>

record put_result =
  pr_n :: int
  pr_err :: "goerr option"
  pr_consumed :: bytes

record 's storage_ops =
  st_Put :: "string \<Rightarrow> reader \<Rightarrow> int \<Rightarrow> 's \<Rightarrow> put_result \<times> 's"
  st_Get :: "string \<Rightarrow> 's \<Rightarrow> reader result \<times> 's"
  st_Delete :: "string \<Rightarrow> 's \<Rightarrow> goerr option \<times> 's"
  st_List :: "string \<Rightarrow> 's \<Rightarrow> string list result \<times> 's"

section \<open>Its contract\<close>

locale blob_store =
  fixes st :: "'s storage_ops"
    and blobs :: "'s \<Rightarrow> string \<Rightarrow> bytes option"
    and inv :: "'s \<Rightarrow> bool"
    and path_ok :: "string \<Rightarrow> bool"
  assumes put: "inv s \<Longrightarrow> path_ok p \<Longrightarrow> rd_err r = None \<Longrightarrow>
      \<exists>s'. st_Put st p r sz s = (\<lparr>pr_n = int (length (rd_data r)), pr_err = None,
              pr_consumed = rd_data r\<rparr>, s')
         \<and> inv s' \<and> blobs s' = (blobs s)(p \<mapsto> rd_data r)"
    and get_hit: "inv s \<Longrightarrow> path_ok p \<Longrightarrow> blobs s p = Some c \<Longrightarrow> st_Get st p s = (Inr (reader_of c), s)"
    and get_miss: "inv s \<Longrightarrow> path_ok p \<Longrightarrow> blobs s p = None \<Longrightarrow> \<exists>e. st_Get st p s = (Inl e, s)"
    and delete_hit: "inv s \<Longrightarrow> path_ok p \<Longrightarrow> blobs s p = Some c \<Longrightarrow>
      \<exists>s'. st_Delete st p s = (None, s') \<and> inv s' \<and> blobs s' = (blobs s)(p := None)"
begin

lemma put_get:
  assumes "inv s" "path_ok p" "rd_err r = None" "st_Put st p r sz s = (pr, s')"
  shows "st_Get st p s' = (Inr (reader_of (rd_data r)), s')"
  using put [OF assms(1-3), of sz] assms(4) get_hit [of s' p "rd_data r"] assms(2) by auto

lemma put_get_other:
  assumes "inv s" "path_ok p" "rd_err r = None" "st_Put st p r sz s = (pr, s')"
    and "path_ok q" "q \<noteq> p" "blobs s q = Some c"
  shows "st_Get st q s' = (Inr (reader_of c), s')"
  using put [OF assms(1-3), of sz] assms(4-7) get_hit [of s' q c] by auto

lemma put_delete:
  assumes "inv s" "path_ok p" "rd_err r = None" "st_Put st p r sz s = (pr, s')" "blobs s p = None"
  shows "\<exists>s''. st_Delete st p s' = (None, s'') \<and> inv s'' \<and> blobs s'' = blobs s"
proof -
  have s': "inv s'" "blobs s' = (blobs s)(p \<mapsto> rd_data r)"
    using put [OF assms(1-3), of sz] assms(4) by auto
  then have "blobs s' p = Some (rd_data r)" by simp
  from delete_hit [OF s'(1) assms(2) this] s'(2) show ?thesis
    using assms(5) by (auto simp: fun_upd_idem)
qed

lemma delete_get:
  assumes "inv s" "path_ok p" "blobs s p = Some c" "st_Delete st p s = (err, s')"
  shows "\<exists>e. st_Get st p s' = (Inl e, s')"
  using delete_hit [OF assms(1-3)] assms(4) get_miss [of s' p] assms(2) by auto

end

end
