(* ===== verification/RepositoryInterface.thy ===== *)
theory RepositoryInterface
  imports Model
begin

text \<open>
  internal/repository/interface.go: \<open>FileRepositoryInterface\<close> as a record of operations over the
  state \<open>'r\<close> of the implementation (a Go interface value is its table of methods).

  The locale \<open>repository\<close> is the contract the service relies on while no call fails: seen through
  two maps, of storage records by hash and of file references by id, and through the file that a
  cached entry holds, every operation does what its name says and keeps the invariant of the
  implementation. Its last laws are the refusals the service's error paths depend on.
\<close>

section \<open>The interface\<close>

record 'r repo_ops =
  r_GetStorageByHash :: "string \<Rightarrow> 'r \<Rightarrow> Storage option result \<times> 'r"
  r_CreateStorage :: "Storage \<Rightarrow> 'r \<Rightarrow> goerr option \<times> 'r"
  r_IncrementStorageRef :: "string \<Rightarrow> 'r \<Rightarrow> goerr option \<times> 'r"
  r_DecrementStorageRef :: "string \<Rightarrow> 'r \<Rightarrow> (int \<times> goerr option) \<times> 'r"
  r_DeleteStorage :: "string \<Rightarrow> 'r \<Rightarrow> goerr option \<times> 'r"
  r_CreateFileReference :: "File \<Rightarrow> 'r \<Rightarrow> goerr option \<times> 'r"
  r_GetByID :: "string \<Rightarrow> 'r \<Rightarrow> File result \<times> 'r"
  r_GetStorageHashByFileID :: "string \<Rightarrow> 'r \<Rightarrow> string result \<times> 'r"
  r_DeleteByID :: "string \<Rightarrow> 'r \<Rightarrow> goerr option \<times> 'r"
  r_List :: "'r \<Rightarrow> File list result \<times> 'r"
  r_GetByChecksum :: "string \<Rightarrow> 'r \<Rightarrow> File result \<times> 'r"
  r_GetByStorageHash :: "string \<Rightarrow> 'r \<Rightarrow> File result \<times> 'r"
  r_Create :: "File \<Rightarrow> 'r \<Rightarrow> goerr option \<times> 'r"

section \<open>Its contract\<close>

record file_ref =
  ref_name :: string
  ref_hash :: string
  ref_created :: time

text \<open>What a reader of a file sees: the reference with the fields of its storage record.\<close>

definition joined :: "string \<Rightarrow> file_ref \<Rightarrow> Storage \<Rightarrow> File" where
  "joined i f s =
     \<lparr>ID = i, Name = ref_name f, StorageHash = ref_hash f, CreatedAt = ref_created f,
      FStorage = Some s, Size = StSize s, ContentType = StContentType s,
      StoragePath = StStoragePath s, Checksum = Hash s\<rparr>"

text \<open>The values that fit their columns as they are.\<close>

definition text_ok :: "nat \<Rightarrow> string \<Rightarrow> bool" where
  "text_ok n s \<longleftrightarrow> ValidString s \<and> CHR 0x00 \<notin> set s \<and> RuneCountInString s \<le> n"

definition count_ok :: "int \<Rightarrow> bool" where
  "count_ok n \<longleftrightarrow> - 2147483648 \<le> n \<and> n \<le> 2147483647"

definition storage_ok :: "Storage \<Rightarrow> bool" where
  "storage_ok s \<longleftrightarrow> text_ok 64 (Hash s) \<and> text_ok 100 (StContentType s) \<and>
     text_ok 500 (StStoragePath s) \<and> count_ok (ReferenceCount s)"

locale repository =
  fixes repo :: "'r repo_ops"
    and storages :: "'r \<Rightarrow> string \<Rightarrow> Storage option"
    and files :: "'r \<Rightarrow> string \<Rightarrow> file_ref option"
    and cached :: "'r \<Rightarrow> string \<Rightarrow> File option"
    and inv :: "'r \<Rightarrow> bool"
    and id_ok :: "string \<Rightarrow> bool"
  assumes wf: "inv w \<Longrightarrow> storages w h = Some s \<Longrightarrow> Hash s = h \<and> storage_ok s"
    and foreign_key: "inv w \<Longrightarrow> files w i = Some f \<Longrightarrow> storages w (ref_hash f) \<noteq> None"
    and finite_files: "inv w \<Longrightarrow> finite (dom (files w))"
    and paths_unique: "inv w \<Longrightarrow> storages w h = Some s \<Longrightarrow> storages w h' = Some s' \<Longrightarrow>
      StStoragePath s = StStoragePath s' \<Longrightarrow> h = h'"
    and get_storage: "inv w \<Longrightarrow> storages w h = Some s \<Longrightarrow>
      r_GetStorageByHash repo h w = (Inr (Some s), w)"
    and get_storage_miss: "inv w \<Longrightarrow> storages w h = None \<Longrightarrow>
      \<exists>e. r_GetStorageByHash repo h w = (Inl e, w)"
    and create_storage: "inv w \<Longrightarrow> storage_ok s \<Longrightarrow> storages w (Hash s) = None \<Longrightarrow>
      (\<And>h s'. storages w h = Some s' \<Longrightarrow> StStoragePath s' \<noteq> StStoragePath s) \<Longrightarrow>
      \<exists>w'. r_CreateStorage repo s w = (None, w') \<and> inv w' \<and> files w' = files w \<and>
        cached w' = cached w \<and> storages w' = (storages w)(Hash s \<mapsto> s)"
    and create_storage_taken: "inv w \<Longrightarrow> storage_ok s \<Longrightarrow> storages w (Hash s) \<noteq> None \<Longrightarrow>
      \<exists>e. r_CreateStorage repo s w = (Some e, w)"
    and increment: "inv w \<Longrightarrow> storages w h = Some s \<Longrightarrow> count_ok (ReferenceCount s + 1) \<Longrightarrow>
      \<exists>w' t. r_IncrementStorageRef repo h w = (None, w') \<and> inv w' \<and> files w' = files w \<and>
        cached w' = cached w \<and>
        storages w' = (storages w)(h \<mapsto> s\<lparr>ReferenceCount := ReferenceCount s + 1, UpdatedAt := t\<rparr>)"
    and decrement: "inv w \<Longrightarrow> storages w h = Some s \<Longrightarrow> count_ok (ReferenceCount s - 1) \<Longrightarrow>
      \<exists>w' t. r_DecrementStorageRef repo h w = ((ReferenceCount s - 1, None), w') \<and> inv w' \<and>
        files w' = files w \<and> cached w' = cached w \<and>
        storages w' = (storages w)(h \<mapsto> s\<lparr>ReferenceCount := ReferenceCount s - 1, UpdatedAt := t\<rparr>)"
    and delete_storage: "inv w \<Longrightarrow> storages w h = Some s \<Longrightarrow> ReferenceCount s = 0 \<Longrightarrow>
      (\<And>i f. files w i = Some f \<Longrightarrow> ref_hash f \<noteq> h) \<Longrightarrow>
      \<exists>w'. r_DeleteStorage repo h w = (None, w') \<and> inv w' \<and> files w' = files w \<and>
        cached w' = cached w \<and> storages w' = (storages w)(h := None)"
    and create_file: "inv w \<Longrightarrow> id_ok (ID x) \<Longrightarrow> text_ok 255 (Name x) \<Longrightarrow>
      storages w (StorageHash x) \<noteq> None \<Longrightarrow> files w (ID x) = None \<Longrightarrow>
      \<exists>w'. r_CreateFileReference repo x w = (None, w') \<and> inv w' \<and> storages w' = storages w \<and>
        cached w' = cached w \<and> files w' = (files w)(ID x \<mapsto>
          \<lparr>ref_name = Name x, ref_hash = StorageHash x, ref_created = CreatedAt x\<rparr>)"
    and get_hash: "inv w \<Longrightarrow> id_ok i \<Longrightarrow> files w i = Some f \<Longrightarrow> ref_hash f \<noteq> [] \<Longrightarrow>
      r_GetStorageHashByFileID repo i w = (Inr (ref_hash f), w)"
    and get_hash_miss: "inv w \<Longrightarrow> id_ok i \<Longrightarrow> files w i = None \<Longrightarrow>
      \<exists>e. r_GetStorageHashByFileID repo i w = (Inl e, w)"
    and delete_file: "inv w \<Longrightarrow> id_ok i \<Longrightarrow>
      \<exists>w'. r_DeleteByID repo i w = (None, w') \<and> inv w' \<and> storages w' = storages w \<and>
        cached w' = (cached w)(i := None) \<and> files w' = (files w)(i := None)"
    and get_fresh: "inv w \<Longrightarrow> id_ok i \<Longrightarrow> cached w i = None \<Longrightarrow> files w i = Some f \<Longrightarrow>
      storages w (ref_hash f) = Some s \<Longrightarrow>
      \<exists>w'. r_GetByID repo i w = (Inr (joined i f s), w') \<and> inv w' \<and> storages w' = storages w \<and>
        files w' = files w"
    and get_cached: "inv w \<Longrightarrow> cached w i = Some x \<Longrightarrow> r_GetByID repo i w = (Inr x, w)"
    and get_missing: "inv w \<Longrightarrow> id_ok i \<Longrightarrow> cached w i = None \<Longrightarrow> files w i = None \<Longrightarrow>
      \<exists>e. r_GetByID repo i w = (Inl e, w)"
    and create_file_refused: "inv w \<Longrightarrow> \<not> ValidString (Name x) \<Longrightarrow>
      \<exists>e. r_CreateFileReference repo x w = (Some e, w)"
    and delete_storage_kept: "inv w \<Longrightarrow> storages w h = Some s \<Longrightarrow> ReferenceCount s \<noteq> 0 \<Longrightarrow>
      r_DeleteStorage repo h w = (None, w)"
    and delete_storage_restricted: "inv w \<Longrightarrow> storages w h = Some s \<Longrightarrow> ReferenceCount s = 0 \<Longrightarrow>
      files w i = Some f \<Longrightarrow> ref_hash f = h \<Longrightarrow> \<exists>e. r_DeleteStorage repo h w = (Some e, w)"
begin

lemma create_then_get_storage:
  assumes "inv w" "storage_ok s" "storages w (Hash s) = None"
    "\<And>h s'. storages w h = Some s' \<Longrightarrow> StStoragePath s' \<noteq> StStoragePath s"
  obtains w' where "r_CreateStorage repo s w = (None, w')" "inv w'"
    "r_GetStorageByHash repo (Hash s) w' = (Inr (Some s), w')"
  using create_storage [OF assms] get_storage by fastforce

lemma decrement_undoes_increment:
  assumes "inv w" "storages w h = Some s" "count_ok (ReferenceCount s)"
    "count_ok (ReferenceCount s + 1)" "r_IncrementStorageRef repo h w = (e, w')"
  shows "\<exists>w'' s'. r_DecrementStorageRef repo h w' = ((ReferenceCount s, None), w'') \<and> inv w'' \<and>
    files w'' = files w \<and> storages w'' = (storages w)(h \<mapsto> s') \<and>
    (\<exists>t. s' = s\<lparr>UpdatedAt := t\<rparr>)"
proof -
  obtain t where w': "inv w'" "files w' = files w"
      "storages w' = (storages w)(h \<mapsto> s\<lparr>ReferenceCount := ReferenceCount s + 1, UpdatedAt := t\<rparr>)"
    using increment [OF assms(1,2,4)] assms(5) by auto
  from decrement [of w' h "s\<lparr>ReferenceCount := ReferenceCount s + 1, UpdatedAt := t\<rparr>"] w' assms(3)
  show ?thesis by auto
qed

lemma delete_then_miss:
  assumes "inv w" "id_ok i" "r_DeleteByID repo i w = (e, w')"
  shows "\<exists>e. r_GetByID repo i w' = (Inl e, w')"
  using delete_file [OF assms(1,2)] assms(2,3) get_missing [of w' i] by auto

end

end
