(* ===== verification/Sha256.thy ===== *)
theory Sha256
  imports GoText
begin

text \<open>
  \<open>crypto/sha256\<close> of Go's standard library, as FIPS 180-4 defines it, on 32-bit words. The
  service names every stored content by the hexadecimal form of its digest, so this is the
  key of the \<open>storage\<close> table.
\<close>

unbundle bit_operations_syntax

type_synonym word32 = "32 word"

section \<open>Words\<close>

definition rotr :: "nat \<Rightarrow> word32 \<Rightarrow> word32" where
  "rotr n x = drop_bit n x OR push_bit (32 - n) x"

definition sigma0 :: "word32 \<Rightarrow> word32" where
  "sigma0 x = rotr 7 x XOR rotr 18 x XOR drop_bit 3 x"

definition sigma1 :: "word32 \<Rightarrow> word32" where
  "sigma1 x = rotr 17 x XOR rotr 19 x XOR drop_bit 10 x"

definition big_sigma0 :: "word32 \<Rightarrow> word32" where
  "big_sigma0 x = rotr 2 x XOR rotr 13 x XOR rotr 22 x"

definition big_sigma1 :: "word32 \<Rightarrow> word32" where
  "big_sigma1 x = rotr 6 x XOR rotr 11 x XOR rotr 25 x"

definition choose_bits :: "word32 \<Rightarrow> word32 \<Rightarrow> word32 \<Rightarrow> word32" where
  "choose_bits x y z = (x AND y) XOR (NOT x AND z)"

definition majority_bits :: "word32 \<Rightarrow> word32 \<Rightarrow> word32 \<Rightarrow> word32" where
  "majority_bits x y z = (x AND y) XOR (x AND z) XOR (y AND z)"

text \<open>The constants of the standard, in decimal.\<close>

definition round_constants :: "word32 list" where
  "round_constants =
   [1116352408, 1899447441, 3049323471, 3921009573, 961987163, 1508970993,
    2453635748, 2870763221, 3624381080, 310598401, 607225278, 1426881987,
    1925078388, 2162078206, 2614888103, 3248222580, 3835390401, 4022224774,
    264347078, 604807628, 770255983, 1249150122, 1555081692, 1996064986,
    2554220882, 2821834349, 2952996808, 3210313671, 3336571891, 3584528711,
    113926993, 338241895, 666307205, 773529912, 1294757372, 1396182291,
    1695183700, 1986661051, 2177026350, 2456956037, 2730485921, 2820302411,
    3259730800, 3345764771, 3516065817, 3600352804, 4094571909, 275423344,
    430227734, 506948616, 659060556, 883997877, 958139571, 1322822218,
    1537002063, 1747873779, 1955562222, 2024104815, 2227730452, 2361852424,
    2428436474, 2756734187, 3204031479, 3329325298]"

section \<open>Blocks\<close>

definition word_of_bytes :: "byte \<Rightarrow> byte \<Rightarrow> byte \<Rightarrow> byte \<Rightarrow> word32" where
  "word_of_bytes a b c d =
     push_bit 24 (ucast a) OR push_bit 16 (ucast b) OR push_bit 8 (ucast c) OR ucast d"

definition bytes_of_word :: "word32 \<Rightarrow> bytes" where
  "bytes_of_word x = [ucast (drop_bit 24 x), ucast (drop_bit 16 x), ucast (drop_bit 8 x), ucast x]"

fun words_of :: "bytes \<Rightarrow> word32 list" where
  "words_of (a # b # c # d # bs) = word_of_bytes a b c d # words_of bs"
| "words_of _ = []"

text \<open>
  The message with its padding: the bit 1, zeros up to 56 bytes modulo 64, and the length in
  bits as 64 bits (modulo \<open>2 ^ 64\<close>, as the Go code writes it).
\<close>

definition padded :: "bytes \<Rightarrow> bytes" where
  "padded bs =
     (let n = length bs; len = (of_nat (8 * n) :: 64 word)
      in bs @ 0x80 # replicate ((119 - n mod 64) mod 64) 0
         @ map (\<lambda>k. ucast (drop_bit (8 * k) len)) (rev [0..<8]))"

fun schedule :: "nat \<Rightarrow> word32 list \<Rightarrow> word32 list" where
  \<comment> \<open>the next \<open>n\<close> words of the message schedule, from a window of sixteen\<close>
  "schedule 0 ws = []"
| "schedule (Suc n) ws =
     hd ws # schedule n (tl ws @ [sigma1 (ws ! 14) + ws ! 9 + sigma0 (ws ! 1) + hd ws])"

type_synonym digest = "word32 \<times> word32 \<times> word32 \<times> word32 \<times> word32 \<times> word32 \<times> word32 \<times> word32"

fun round_step :: "digest \<Rightarrow> word32 \<times> word32 \<Rightarrow> digest" where
  "round_step (a, b, c, d, e, f, g, h) (k, w) =
     (let t1 = h + big_sigma1 e + choose_bits e f g + k + w;
          t2 = big_sigma0 a + majority_bits a b c
      in (t1 + t2, a, b, c, d + t1, e, f, g))"

fun add_digest :: "digest \<Rightarrow> digest \<Rightarrow> digest" where
  "add_digest (a, b, c, d, e, f, g, h) (a', b', c', d', e', f', g', h') =
     (a + a', b + b', c + c', d + d', e + e', f + f', g + g', h + h')"

definition block_step :: "digest \<Rightarrow> word32 list \<Rightarrow> digest" where
  "block_step s ws = add_digest s (foldl round_step s (zip round_constants (schedule 64 ws)))"

function blocks :: "digest \<Rightarrow> word32 list \<Rightarrow> digest" where
  "blocks s ws = (if ws = [] then s else blocks (block_step s (take 16 ws)) (drop 16 ws))"
  by auto

termination by (relation "measure (length \<circ> snd)") auto

declare blocks.simps [simp del]

fun digest_bytes :: "digest \<Rightarrow> bytes" where
  "digest_bytes (a, b, c, d, e, f, g, h) = concat (map bytes_of_word [a, b, c, d, e, f, g, h])"

definition initial_digest :: digest where
  "initial_digest =
   (1779033703, 3144134277, 1013904242, 2773480762, 1359893119, 2600822924,
    528734635, 1541459225)"

definition sha256 :: "bytes \<Rightarrow> bytes" where
  "sha256 bs = digest_bytes (blocks initial_digest (words_of (padded bs)))"

text \<open>\<open>hex.EncodeToString(hasher.Sum(nil))\<close>\<close>

definition sha256_hex :: "bytes \<Rightarrow> string" where
  "sha256_hex bs = EncodeToString (sha256 bs)"

section \<open>Facts\<close>

lemma length_padded: "length (padded bs) mod 64 = 0"
proof -
  define q r where "q = length bs div 64" and "r = length bs mod 64"
  then have n: "length bs = 64 * q + r" and r: "r < 64" by simp_all
  have pad: "(119 - r) mod 64 = (if r \<le> 55 then 55 - r else 119 - r)"
    using r by (auto simp: mod_if)
  have "length (padded bs) = length bs + 1 + (119 - r) mod 64 + 8"
    by (simp add: padded_def Let_def r_def)
  also have "\<dots> = (if r \<le> 55 then 64 * (q + 1) else 64 * (q + 2))"
    unfolding pad n using r by simp
  finally show ?thesis by simp
qed

lemma length_digest_bytes: "length (digest_bytes s) = 32"
  by (cases s rule: digest_bytes.cases) (simp add: bytes_of_word_def)

lemma length_sha256 [simp]: "length (sha256 bs) = 32"
  by (simp add: sha256_def length_digest_bytes)

lemma length_sha256_hex [simp]: "length (sha256_hex bs) = 64"
  by (simp add: sha256_hex_def)

lemma set_sha256_hex: "set (sha256_hex bs) \<subseteq> set hex_digits"
  by (simp add: sha256_hex_def set_EncodeToString)

lemma sha256_hex_neq_Nil [simp]: "sha256_hex bs \<noteq> []"
  using length_sha256_hex [of bs] by (metis list.size(3) zero_neq_numeral)

end
