(* ===== verification/Service.thy ===== *)
theory Service
  imports Validator BlobStore RepositoryInterface Sha256
begin

text \<open>
  internal/service/storage.go and dedup.go: \<open>StorageService\<close> over the two interfaces it is built
  on. An operation takes the state \<open>(s, r)\<close> of the storage and of the repository and returns it
  after the call, with every call the code makes, in its order, the clean-ups and the ignored
  errors included; the log messages are left out. What the Go code draws from outside is an
  argument: the UUIDs \<open>uuid.NewString\<close> returns and the time of \<open>time.Now\<close>.
\<close>

section \<open>The operations\<close>

record ('s, 'r) StorageService =
  svc_storage :: "'s storage_ops"
  svc_repo :: "'r repo_ops"

definition NewStorageService :: "'s storage_ops \<Rightarrow> 'r repo_ops \<Rightarrow> ('s, 'r) StorageService" where
  "NewStorageService st repo = \<lparr>svc_storage = st, svc_repo = repo\<rparr>"

text \<open>The branch for content that is stored already.\<close>

definition upload_duplicate ::
  "('s, 'r) StorageService \<Rightarrow> string \<Rightarrow> string \<Rightarrow> time \<Rightarrow> FileHeader \<Rightarrow> string \<Rightarrow> Storage
     \<Rightarrow> 's \<times> 'r \<Rightarrow> File result \<times> 's \<times> 'r" where
  "upload_duplicate sv path fileID now header checksum existingStorage w =
     (let (s, r) = w;
          (ignored, s) = st_Delete (svc_storage sv) path s;
          (err, r) = r_IncrementStorageRef (svc_repo sv) checksum r
      in case err of
           Some e \<Rightarrow> (Inl e, s, r)
         | None \<Rightarrow>
             (let file = \<lparr>ID = fileID, Name = HName header, StorageHash = checksum, CreatedAt = now,
                    FStorage = Some existingStorage, Size = StSize existingStorage,
                    ContentType = StContentType existingStorage,
                    StoragePath = StStoragePath existingStorage, Checksum = Hash existingStorage\<rparr>;
                  (err, r) = r_CreateFileReference (svc_repo sv) file r
              in case err of
                   Some e \<Rightarrow>
                     (let (ignored, r) = r_DecrementStorageRef (svc_repo sv) checksum r
                      in (Inl e, s, r))
                 | None \<Rightarrow> (Inr file, s, r)))"

text \<open>The branch for new content.\<close>

definition upload_new ::
  "('s, 'r) StorageService \<Rightarrow> string \<Rightarrow> string \<Rightarrow> time \<Rightarrow> FileHeader \<Rightarrow> string \<Rightarrow> int
     \<Rightarrow> 's \<times> 'r \<Rightarrow> File result \<times> 's \<times> 'r" where
  "upload_new sv path fileID now header checksum sz w =
     (let (s, r) = w;
          storageRecord = \<lparr>Hash = checksum, StSize = sz, StContentType = HContentType header,
            StStoragePath = path, ReferenceCount = 1, StCreatedAt = now, UpdatedAt = now\<rparr>;
          (err, r) = r_CreateStorage (svc_repo sv) storageRecord r
      in case err of
           Some e \<Rightarrow> (let (ignored, s) = st_Delete (svc_storage sv) path s in (Inl e, s, r))
         | None \<Rightarrow>
             (let file = \<lparr>ID = fileID, Name = HName header, StorageHash = checksum, CreatedAt = now,
                    FStorage = Some storageRecord, Size = sz, ContentType = HContentType header,
                    StoragePath = path, Checksum = checksum\<rparr>;
                  (err, r) = r_CreateFileReference (svc_repo sv) file r
              in case err of
                   Some e \<Rightarrow>
                     (let (ignored, r) = r_DeleteStorage (svc_repo sv) checksum r;
                          (ignored, s) = st_Delete (svc_storage sv) path s
                      in (Inl e, s, r))
                 | None \<Rightarrow> (Inr file, s, r)))"

definition Upload ::
  "('s, 'r) StorageService \<Rightarrow> string \<Rightarrow> string \<Rightarrow> time \<Rightarrow> reader \<Rightarrow> FileHeader
     \<Rightarrow> 's \<times> 'r \<Rightarrow> File result \<times> 's \<times> 'r" where
  "Upload sv path fileID now rd header w =
     (let (s, r) = w in
      case ValidateFile (Some header) of
        Some e \<Rightarrow> (Inl e, s, r)
      | None \<Rightarrow>
          (let (put, s) = st_Put (svc_storage sv) path rd (HSize header) s
           in case pr_err put of
                Some e \<Rightarrow> (Inl e, s, r)
              | None \<Rightarrow>
                  (let checksum = sha256_hex (pr_consumed put);
                       (found, r) = r_GetStorageByHash (svc_repo sv) checksum r
                   in case found of
                        Inr (Some existingStorage) \<Rightarrow>
                          upload_duplicate sv path fileID now header checksum existingStorage (s, r)
                      | _ \<Rightarrow> upload_new sv path fileID now header checksum (pr_n put) (s, r))))"

definition Download ::
  "('s, 'r) StorageService \<Rightarrow> string \<Rightarrow> 's \<times> 'r \<Rightarrow> (reader \<times> File) result \<times> 's \<times> 'r" where
  "Download sv i w =
     (let (s, r) = w; (found, r) = r_GetByID (svc_repo sv) i r in
      case found of
        Inl e \<Rightarrow> (Inl e, s, r)
      | Inr file \<Rightarrow>
          (let (got, s) = st_Get (svc_storage sv) (GetStoragePath file) s in
           case got of
             Inl e \<Rightarrow> (Inl e, s, r)
           | Inr rd \<Rightarrow> (Inr (rd, file), s, r)))"

text \<open>
  The clean-up of \<open>Delete\<close> reads a field of the storage record without a check for nil, so a
  repository that returned a nil record and no error would make it panic.
\<close>

definition cleanup_storage ::
  "('s, 'r) StorageService \<Rightarrow> string \<Rightarrow> 's \<times> 'r \<Rightarrow> unit res \<times> 's \<times> 'r" where
  "cleanup_storage sv storageHash w =
     (let (s, r) = w; (found, r) = r_GetStorageByHash (svc_repo sv) storageHash r in
      case found of
        Inl e \<Rightarrow> (Ok (), s, r)
      | Inr None \<Rightarrow> (Panic ''invalid memory address or nil pointer dereference'', s, r)
      | Inr (Some storage) \<Rightarrow>
          (let (ignored, s) = st_Delete (svc_storage sv) (StStoragePath storage) s;
               (ignored', r) = r_DeleteStorage (svc_repo sv) storageHash r
           in (Ok (), s, r)))"

definition Delete :: "('s, 'r) StorageService \<Rightarrow> string \<Rightarrow> 's \<times> 'r \<Rightarrow> unit res \<times> 's \<times> 'r" where
  "Delete sv i w =
     (let (s, r) = w; (found, r) = r_GetStorageHashByFileID (svc_repo sv) i r in
      case found of
        Inl e \<Rightarrow> (Err e, s, r)
      | Inr storageHash \<Rightarrow>
          (let (err, r) = r_DeleteByID (svc_repo sv) i r in
           case err of
             Some e \<Rightarrow> (Err e, s, r)
           | None \<Rightarrow>
               (let ((newRefCount, ignored), r) = r_DecrementStorageRef (svc_repo sv) storageHash r
                in if newRefCount = 0 then cleanup_storage sv storageHash (s, r)
                   else (Ok (), s, r))))"

definition svc_List :: "('s, 'r) StorageService \<Rightarrow> 's \<times> 'r \<Rightarrow> File list result \<times> 's \<times> 'r" where
  "svc_List sv w = (let (s, r) = w; (fs, r) = r_List (svc_repo sv) r in (fs, s, r))"

text \<open>dedup.go: the hash of what a reader delivers, or the error it stops with.\<close>

definition calculateFileHash :: "reader \<Rightarrow> string result" where
  "calculateFileHash rd = (case rd_err rd of Some e \<Rightarrow> Inl e | None \<Rightarrow> Inr (sha256_hex (rd_data rd)))"

text \<open>What a successful upload returns, on any storage and repository.\<close>

lemma Upload_returns:
  assumes "Upload sv path fileID now rd header w = (Inr f, w')"
  shows "ID f = fileID \<and> Name f = HName header \<and> CreatedAt f = now"
  using assms
  by (auto simp: Upload_def upload_new_def upload_duplicate_def Let_def
      split: prod.splits option.splits sum.splits)

section \<open>The deduplication invariant\<close>

text \<open>
  On the three maps a service state has (storage records by hash, file references by id, blobs
  by path): the reference count of a record is the number of references to its hash and never
  zero, its path holds content of that hash and that size, and there is no other blob.
\<close>

definition referrers :: "(string \<Rightarrow> file_ref option) \<Rightarrow> string \<Rightarrow> string set" where
  "referrers F h = {i. \<exists>f. F i = Some f \<and> ref_hash f = h}"

definition dedup_ok ::
  "(string \<Rightarrow> bool) \<Rightarrow> (string \<Rightarrow> Storage option) \<Rightarrow> (string \<Rightarrow> file_ref option)
     \<Rightarrow> (string \<Rightarrow> bytes option) \<Rightarrow> bool" where
  "dedup_ok path_ok S F B \<longleftrightarrow>
     (\<forall>h s. S h = Some s \<longrightarrow>
        ReferenceCount s = int (card (referrers F h)) \<and> referrers F h \<noteq> {} \<and>
        path_ok (StStoragePath s) \<and>
        (\<exists>c. B (StStoragePath s) = Some c \<and> sha256_hex c = h \<and> StSize s = int (length c))) \<and>
     (\<forall>p. path_ok p \<and> B p \<noteq> None \<longrightarrow> (\<exists>h s. S h = Some s \<and> StStoragePath s = p))"

lemma referrers_upd_same:
  "referrers (F(i \<mapsto> f)) (ref_hash f) = insert i (referrers F (ref_hash f))"
  by (auto simp: referrers_def)

lemma referrers_upd_other: "F i = None \<Longrightarrow> ref_hash f \<noteq> h \<Longrightarrow> referrers (F(i \<mapsto> f)) h = referrers F h"
  by (auto simp: referrers_def)

lemma referrers_del: "referrers (F(i := None)) h = referrers F h - {i}"
  by (auto simp: referrers_def)

lemma finite_referrers: "finite (dom F) \<Longrightarrow> finite (referrers F h)"
  by (rule finite_subset [of _ "dom F"]) (auto simp: referrers_def)

text \<open>The four changes of the maps that a successful operation makes keep the invariant.\<close>

lemma dedup_add_new:
  assumes "dedup_ok P S F B" "S h = None" "\<And>i f. F i = Some f \<Longrightarrow> S (ref_hash f) \<noteq> None"
    "P p" "B p = None" "F i = None" "ref_hash f = h"
    "Hash s = h" "StStoragePath s = p" "ReferenceCount s = 1" "StSize s = int (length c)" "sha256_hex c = h"
  shows "dedup_ok P (S(h \<mapsto> s)) (F(i \<mapsto> f)) (B(p \<mapsto> c))"
proof -
  have none: "referrers F h = {}" using assms(2,3) by (fastforce simp: referrers_def)
  have other: "referrers (F(i \<mapsto> f)) h' = referrers F h'" if "h' \<noteq> h" for h'
    using assms(6,7) that by (simp add: referrers_upd_other)
  have own: "referrers (F(i \<mapsto> f)) h = {i}" using referrers_upd_same [of F i f] none assms(7) by simp
  have apart: "StStoragePath s' \<noteq> p" if "S h' = Some s'" for h' s'
    using assms(1,5) that by (fastforce simp: dedup_ok_def)
  show ?thesis unfolding dedup_ok_def
  proof (intro conjI allI impI)
    fix h' s' assume s': "(S(h \<mapsto> s)) h' = Some s'"
    show "ReferenceCount s' = int (card (referrers (F(i \<mapsto> f)) h'))"
      "referrers (F(i \<mapsto> f)) h' \<noteq> {}" "P (StStoragePath s')"
      "\<exists>c'. (B(p \<mapsto> c)) (StStoragePath s') = Some c' \<and> sha256_hex c' = h' \<and> StSize s' = int (length c')"
      using s' own other [of h'] apart [of h' s'] assms
      by (cases "h' = h"; fastforce simp: dedup_ok_def)+
  next
    fix q assume q: "P q \<and> (B(p \<mapsto> c)) q \<noteq> None"
    show "\<exists>h' s'. (S(h \<mapsto> s)) h' = Some s' \<and> StStoragePath s' = q"
    proof (cases "q = p")
      case True
      then show ?thesis using assms(9) by (intro exI [of _ h] exI [of _ s]) simp
    next
      case False
      then have "P q \<and> B q \<noteq> None" using q by simp
      then obtain h' t where t: "S h' = Some t" "StStoragePath t = q"
        using assms(1) unfolding dedup_ok_def by blast
      then have "h' \<noteq> h" using assms(2) by auto
      then show ?thesis using t by (intro exI [of _ h'] exI [of _ t]) simp
    qed
  qed
qed

lemma dedup_add_reference:
  assumes "dedup_ok P S F B" "S h = Some s" "finite (dom F)" "F i = None" "ref_hash f = h"
    "ReferenceCount s' = ReferenceCount s + 1" "StStoragePath s' = StStoragePath s" "StSize s' = StSize s"
  shows "dedup_ok P (S(h \<mapsto> s')) (F(i \<mapsto> f)) B"
proof -
  have "i \<notin> referrers F h" using assms(4) by (auto simp: referrers_def)
  then have own: "card (referrers (F(i \<mapsto> f)) h) = card (referrers F h) + 1" "referrers (F(i \<mapsto> f)) h \<noteq> {}"
    using referrers_upd_same [of F i f] finite_referrers [OF assms(3)] assms(5) by auto
  have other: "referrers (F(i \<mapsto> f)) h' = referrers F h'" if "h' \<noteq> h" for h'
    using assms(4,5) that by (simp add: referrers_upd_other)
  show ?thesis unfolding dedup_ok_def
  proof (intro conjI allI impI)
    fix h' t assume t: "(S(h \<mapsto> s')) h' = Some t"
    show "ReferenceCount t = int (card (referrers (F(i \<mapsto> f)) h'))"
      "referrers (F(i \<mapsto> f)) h' \<noteq> {}" "P (StStoragePath t)"
      "\<exists>c'. B (StStoragePath t) = Some c' \<and> sha256_hex c' = h' \<and> StSize t = int (length c')"
      using t own other [of h'] assms
      by (cases "h' = h"; fastforce simp: dedup_ok_def)+
  next
    fix q assume "P q \<and> B q \<noteq> None"
    then obtain h' t where t: "S h' = Some t" "StStoragePath t = q"
      using assms(1) unfolding dedup_ok_def by blast
    show "\<exists>h' t. (S(h \<mapsto> s')) h' = Some t \<and> StStoragePath t = q"
    proof (cases "h' = h")
      case True
      then show ?thesis using t assms(2,7) by (intro exI [of _ h] exI [of _ s']) simp
    next
      case False
      then show ?thesis using t by (intro exI [of _ h'] exI [of _ t]) simp
    qed
  qed
qed

lemma dedup_count: "dedup_ok P S F B \<Longrightarrow> S h = Some s \<Longrightarrow> ReferenceCount s = int (card (referrers F h))"
  by (simp add: dedup_ok_def)

lemma dedup_blob:
  "dedup_ok P S F B \<Longrightarrow> S h = Some s \<Longrightarrow>
   P (StStoragePath s) \<and> (\<exists>c. B (StStoragePath s) = Some c \<and> sha256_hex c = h \<and> StSize s = int (length c))"
  by (simp add: dedup_ok_def)

lemma referrers_other: "ref_hash f \<noteq> h \<Longrightarrow> F i = Some f \<Longrightarrow> referrers (F(i := None)) h = referrers F h"
  by (auto simp: referrers_def)

lemma card_referrers_del:
  assumes "finite (dom F)" "F i = Some f"
  shows "int (card (referrers (F(i := None)) (ref_hash f))) = int (card (referrers F (ref_hash f))) - 1"
proof -
  have i: "i \<in> referrers F (ref_hash f)" using assms(2) by (auto simp: referrers_def)
  have fin: "finite (referrers F (ref_hash f))" using finite_referrers [OF assms(1)] .
  then have "card (referrers F (ref_hash f)) > 0" using i by (auto simp: card_gt_0_iff)
  then show ?thesis using i fin by (simp add: referrers_del card_Diff_singleton)
qed

lemma dedup_drop_reference:
  assumes "dedup_ok P S F B" "S (ref_hash f) = Some s" "finite (dom F)" "F i = Some f"
    "ReferenceCount s \<noteq> 1" "ReferenceCount s' = ReferenceCount s - 1"
    "StStoragePath s' = StStoragePath s" "StSize s' = StSize s"
  shows "dedup_ok P (S(ref_hash f \<mapsto> s')) (F(i := None)) B"
proof -
  let ?h = "ref_hash f"
  have own: "ReferenceCount s' = int (card (referrers (F(i := None)) ?h))"
    using card_referrers_del [OF assms(3,4)] dedup_count [OF assms(1,2)] assms(6) by simp
  then have ne: "referrers (F(i := None)) ?h \<noteq> {}" using assms(5,6) by force
  have other: "referrers (F(i := None)) h' = referrers F h'" if "h' \<noteq> ?h" for h'
    using assms(4) that referrers_other [of f h' F i] by simp
  show ?thesis unfolding dedup_ok_def
  proof (intro conjI allI impI)
    fix h' t assume t: "(S(?h \<mapsto> s')) h' = Some t"
    show "ReferenceCount t = int (card (referrers (F(i := None)) h'))"
      "referrers (F(i := None)) h' \<noteq> {}" "P (StStoragePath t)"
      "\<exists>c'. B (StStoragePath t) = Some c' \<and> sha256_hex c' = h' \<and> StSize t = int (length c')"
      using t own ne other [of h'] assms
      by (cases "h' = ?h"; fastforce simp: dedup_ok_def)+
  next
    fix q assume "P q \<and> B q \<noteq> None"
    then obtain h' t where t: "S h' = Some t" "StStoragePath t = q"
      using assms(1) unfolding dedup_ok_def by blast
    show "\<exists>h' t. (S(?h \<mapsto> s')) h' = Some t \<and> StStoragePath t = q"
    proof (cases "h' = ?h")
      case True
      then show ?thesis using t assms(2,7) by (intro exI [of _ ?h] exI [of _ s']) simp
    next
      case False
      then show ?thesis using t by (intro exI [of _ h'] exI [of _ t]) simp
    qed
  qed
qed

lemma dedup_drop_last:
  assumes "dedup_ok P S F B" "S (ref_hash f) = Some s" "finite (dom F)" "F i = Some f"
    "ReferenceCount s = 1"
    "\<And>h' s'. S h' = Some s' \<Longrightarrow> StStoragePath s' = StStoragePath s \<Longrightarrow> h' = ref_hash f"
  shows "dedup_ok P (S(ref_hash f := None)) (F(i := None)) (B(StStoragePath s := None))"
proof -
  let ?h = "ref_hash f"
  have other: "referrers (F(i := None)) h' = referrers F h'" if "h' \<noteq> ?h" for h'
    using assms(4) that referrers_other [of f h' F i] by simp
  show ?thesis unfolding dedup_ok_def
  proof (intro conjI allI impI)
    fix h' t assume t: "(S(?h := None)) h' = Some t"
    then have t': "h' \<noteq> ?h" "S h' = Some t" by (auto split: if_splits)
    have "StStoragePath t \<noteq> StStoragePath s" using assms(6) t' by blast
    then show "ReferenceCount t = int (card (referrers (F(i := None)) h'))"
      "referrers (F(i := None)) h' \<noteq> {}" "P (StStoragePath t)"
      "\<exists>c'. (B(StStoragePath s := None)) (StStoragePath t) = Some c' \<and> sha256_hex c' = h' \<and>
         StSize t = int (length c')"
      using t' other [of h'] assms(1) by (simp_all add: dedup_ok_def)
  next
    fix q assume q: "P q \<and> (B(StStoragePath s := None)) q \<noteq> None"
    then obtain h' t where t: "S h' = Some t" "StStoragePath t = q"
      using assms(1) unfolding dedup_ok_def by (auto split: if_splits)
    then have "h' \<noteq> ?h" using q assms(2) by (auto split: if_splits)
    with t show "\<exists>h' t. (S(?h := None)) h' = Some t \<and> StStoragePath t = q" by auto
  qed
qed

text \<open>
  After the last reference to a hash is gone, no other file reference has it.
\<close>

lemma last_reference:
  assumes "dedup_ok P S F B" "S (ref_hash f) = Some s" "finite (dom F)" "F i = Some f"
    "ReferenceCount s = 1" "(F(i := None)) j = Some g"
  shows "ref_hash g \<noteq> ref_hash f"
proof
  assume "ref_hash g = ref_hash f"
  then have "j \<in> referrers (F(i := None)) (ref_hash f)" using assms(6) by (auto simp: referrers_def)
  moreover have "card (referrers (F(i := None)) (ref_hash f)) = 0"
    using card_referrers_del [OF assms(3,4)] dedup_count [OF assms(1,2)] assms(5) by simp
  moreover have "finite (referrers (F(i := None)) (ref_hash f))"
    using assms(3) by (intro finite_referrers) (simp add: finite_subset)
  ultimately show False by simp
qed

end
