(* ===== verification/SecurityErrors.thy ===== *)
theory SecurityErrors
  imports GoText
begin

text \<open>
  pkg/errors/security.go: the \<open>SecurityError\<close> type (a constructor of \<open>goerr\<close>, with \<open>Error\<close> and
  \<open>Unwrap\<close> in the prelude) and \<open>SanitizeError\<close>, which turns any error into a message that is
  safe to show. A nil error is \<open>None\<close>.
\<close>

section \<open>Definitions\<close>

definition NewSecurityError :: "string \<Rightarrow> string \<Rightarrow> goerr option \<Rightarrow> goerr" where
  "NewSecurityError code userMsg internalErr = SecurityError userMsg internalErr code"

definition sensitiveKeywords :: "string list" where
  "sensitiveKeywords =
     [''/etc/'', ''/var/'', ''/usr/'', ''/home/'', ''/root/'',
      ''no such file or directory'', ''permission denied'', ''access denied'']"

fun keyword_loop :: "string \<Rightarrow> string list \<Rightarrow> bool" where
  \<comment> \<open>the \<open>for\<close> loop over the keywords: whether it returns early\<close>
  "keyword_loop msg [] = False"
| "keyword_loop msg (k # ks) = (if Contains msg k then True else keyword_loop msg ks)"

definition SanitizeError :: "goerr option \<Rightarrow> string" where
  "SanitizeError err =
     (case err of
        None \<Rightarrow> []
      | Some e \<Rightarrow>
          (let errMsg = Error e in
           if Contains errMsg ''/'' then ''file operation failed''
           else if Contains errMsg ''postgres://'' \<or> Contains errMsg ''password''
             then ''database connection failed''
           else
             (let lowerErrMsg = ToLower errMsg in
              if keyword_loop lowerErrMsg sensitiveKeywords then ''operation failed''
              else if Contains lowerErrMsg ''connection refused'' then ''service unavailable''
              else if Contains lowerErrMsg ''timeout'' then ''request timeout''
              else ''internal server error'')))"

definition ErrInvalidPath :: goerr where
  "ErrInvalidPath = NewSecurityError ''INVALID_PATH'' ''invalid file path''
     (Some (ErrorString ''path validation failed''))"

definition ErrUnauthorized :: goerr where
  "ErrUnauthorized = NewSecurityError ''UNAUTHORIZED'' ''unauthorized access''
     (Some (ErrorString ''authentication failed''))"

definition ErrForbidden :: goerr where
  "ErrForbidden = NewSecurityError ''FORBIDDEN'' ''access denied''
     (Some (ErrorString ''authorization failed''))"

definition ErrInvalidFileType :: goerr where
  "ErrInvalidFileType = NewSecurityError ''INVALID_FILE'' ''unsupported file type''
     (Some (ErrorString ''file type validation failed''))"

definition ErrFileTooLarge :: goerr where
  "ErrFileTooLarge = NewSecurityError ''FILE_TOO_LARGE'' ''file size exceeds limit''
     (Some (ErrorString ''file size validation failed''))"

definition ErrInvalidInput :: goerr where
  "ErrInvalidInput = NewSecurityError ''INVALID_INPUT'' ''invalid input provided''
     (Some (ErrorString ''input validation failed''))"

definition FileOperationError :: "string \<Rightarrow> goerr option \<Rightarrow> goerr" where
  "FileOperationError operation err =
     NewSecurityError (''FILE_'' @ ToUpper operation @ ''_FAILED'')
       (''file '' @ operation @ '' operation failed'') err"

section \<open>Facts\<close>

lemma keyword_loop_iff: "keyword_loop msg ks \<longleftrightarrow> (\<exists>k \<in> set ks. Contains msg k)"
  by (induction ks) auto

text \<open>Lowering the case of a message neither adds nor removes a slash.\<close>

lemma encode_rune_high: "128 \<le> r \<Longrightarrow> b \<in> set (encode_rune r) \<Longrightarrow> 128 \<le> b \<and> b < 256"
  by (auto simp: encode_rune_def split: if_splits)

lemma encode_rune_ascii_iff: "b < 128 \<Longrightarrow> b \<in> set (encode_rune r) \<longleftrightarrow> r = b"
  using encode_rune_high [of r b] by (cases "r < 128") (auto simp: encode_rune_def [of r])

lemma encode_rune_bytes: "b \<in> set (encode_rune r) \<Longrightarrow> b < 256"
  using encode_rune_high [of r b] by (cases "r < 128") (auto simp: encode_rune_def [of r])

lemma string_of_runes_ascii_iff:
  assumes "(of_char c :: nat) < 128"
  shows "c \<in> set (string_of_runes rs) \<longleftrightarrow> of_char c \<in> set rs"
proof -
  have "c \<in> set (string_of_runes rs) \<longleftrightarrow> (\<exists>r \<in> set rs. \<exists>b \<in> set (encode_rune r). char_of b = c)"
    by (auto simp: string_of_runes_def)
  also have "\<dots> \<longleftrightarrow> (\<exists>r \<in> set rs. of_char c \<in> set (encode_rune r))"
    by (metis char_of_char encode_rune_bytes mod_less of_char_of)
  also have "\<dots> \<longleftrightarrow> of_char c \<in> set rs"
    using encode_rune_ascii_iff [OF assms] by auto
  finally show ?thesis .
qed

lemma lower_rune_eq_nonletter: "n < 65 \<Longrightarrow> lower_rune r = n \<longleftrightarrow> r = n"
  by (auto simp: lower_rune_def)

lemma ToLower_slash: "CHR ''/'' \<in> set (ToLower s) \<longleftrightarrow> CHR ''/'' \<in> set s"
proof -
  have "CHR ''/'' \<in> set (ToLower s) \<longleftrightarrow> 47 \<in> lower_rune ` set (runes s)"
    using string_of_runes_ascii_iff [of "CHR ''/''" "map lower_rune (runes s)"] by (simp add: ToLower_def)
  also have "\<dots> \<longleftrightarrow> 47 \<in> set (runes s)"
    using lower_rune_eq_nonletter [of 47] by (auto simp: image_iff)
  also have "\<dots> \<longleftrightarrow> CHR ''/'' \<in> set s"
    using runes_ascii_iff [of "CHR ''/''" s] by simp
  finally show ?thesis .
qed

text \<open>
  The messages a client can see. Whatever the error says, \<open>SanitizeError\<close> answers with one of
  seven constants.
\<close>

definition safe_messages :: "string list" where
  "safe_messages = ['''', ''file operation failed'', ''database connection failed'',
     ''operation failed'', ''service unavailable'', ''request timeout'', ''internal server error'']"

lemma SanitizeError_safe: "SanitizeError err \<in> set safe_messages"
  by (auto simp: SanitizeError_def safe_messages_def Let_def split: option.splits)

text \<open>
  A shorter function with the same results: the test for a connection string and the five
  path keywords can never fire, since each of those strings holds a slash and a message with
  a slash was answered before.
\<close>

definition sanitize_reference :: "string \<Rightarrow> string" where
  "sanitize_reference msg =
     (if CHR ''/'' \<in> set msg then ''file operation failed''
      else if Contains msg ''password'' then ''database connection failed''
      else if Contains (ToLower msg) ''no such file or directory''
        \<or> Contains (ToLower msg) ''permission denied'' \<or> Contains (ToLower msg) ''access denied''
        then ''operation failed''
      else if Contains (ToLower msg) ''connection refused'' then ''service unavailable''
      else if Contains (ToLower msg) ''timeout'' then ''request timeout''
      else ''internal server error'')"

lemma slash_keyword: "CHR ''/'' \<in> set k \<Longrightarrow> CHR ''/'' \<notin> set s \<Longrightarrow> \<not> Contains s k"
  using Contains_set by blast

lemma SanitizeError_reference: "SanitizeError (Some e) = sanitize_reference (Error e)"
proof (cases "CHR ''/'' \<in> set (Error e)")
  case True
  then show ?thesis by (simp add: SanitizeError_def sanitize_reference_def Contains_char)
next
  case False
  then have low: "CHR ''/'' \<notin> set (ToLower (Error e))" by (simp add: ToLower_slash)
  have kw: "\<not> Contains (ToLower (Error e)) k"
    if "k \<in> {''/etc/'', ''/var/'', ''/usr/'', ''/home/'', ''/root/''}" for k
    using that by (intro slash_keyword low) auto
  have pg: "\<not> Contains (Error e) ''postgres://''" by (rule slash_keyword [OF _ False]) simp
  show ?thesis using False kw pg
    by (simp add: SanitizeError_def sanitize_reference_def Contains_char Let_def keyword_loop_iff
        sensitiveKeywords_def disj_assoc del: Contains.simps)
qed

section \<open>Properties\<close>

text \<open>
  Whatever the error, the message \<open>SanitizeError\<close> gives a client is one of seven constants,
  so no part of an internal error message is ever shown.
\<close>

theorem error_messages_closed: "SanitizeError err \<in> set safe_messages"
  by (rule SanitizeError_safe)

text \<open>
  C38: \<open>SanitizeError\<close> agrees with a shorter function without its test for connection strings and
  without the five path keywords: a message with a slash is answered before they are tried, so
  they never decide anything.
\<close>

theorem error_sanitizing_reference: "SanitizeError (Some e) = sanitize_reference (Error e)"
  by (rule SanitizeError_reference)

end
