(* ===== verification/Handler.thy ===== *)
theory Handler
  imports Service SecurityErrors "HOL-Library.AList"
begin

text \<open>
  internal/handler/file.go: the HTTP handlers. A handler is a function of what it reads from the
  request and of the state of the service; it gives the list of the calls it makes on the gin
  context and the new state. The multipart form, the file it holds and the detection of the MIME
  type are not code of this repository: their outcomes are arguments.

  \<open>respond\<close> turns the calls into the response that net/http sends, by the documented behaviour
  of gin: the status is fixed when the first byte of the body is written, and what is set later
  is ignored.
\<close>

section \<open>The calls on the context\<close>

datatype payload =
    ErrorMsg string  \<comment> \<open>\<open>gin.H{"error": s}\<close>\<close>
  | FileBody File
  | Fields "(string \<times> string) list"  \<comment> \<open>\<open>gin.H\<close> of strings\<close>
  | ListBody "File list" int  \<comment> \<open>\<open>gin.H{"files": files, "total": n}\<close>\<close>

datatype gin_call =
    JSON nat payload
  | Header string string
  | WriteBody bytes
  | AbortWithStatus nat
  | Status nat

text \<open>The file of a multipart form: \<open>*multipart.FileHeader\<close> with what opening it gives.\<close>

record form_file =
  ff_Filename :: string
  ff_Size :: int
  ff_open :: "reader result"

text \<open>What happens to the opened file: MIME detection on it, and the seek back to its start.\<close>

record probe =
  pb_detect :: "reader \<Rightarrow> string result"
  pb_seek :: "goerr option"

section \<open>Upload\<close>

definition handler_Upload ::
  "('s, 'r) StorageService \<Rightarrow> probe \<Rightarrow> string \<Rightarrow> string \<Rightarrow> time \<Rightarrow> form_file result
     \<Rightarrow> 's \<times> 'r \<Rightarrow> gin_call list res \<times> 's \<times> 'r" where
  "handler_Upload sv pb path fileID now form w =
     (case form of
        Inl e \<Rightarrow> (Ok [JSON 400 (ErrorMsg ''invalid file upload'')], w)
      | Inr file \<Rightarrow>
          if ff_Size file = 0 then (Ok [JSON 400 (ErrorMsg ''empty file not allowed'')], w)
          else if ff_Size file > 100 * 1024 * 1024 then (Ok [JSON 400 (ErrorMsg ''file too large'')], w)
          else (case ff_open file of
            Inl e \<Rightarrow> (Ok [JSON 400 (ErrorMsg ''failed to process file'')], w)
          | Inr rd \<Rightarrow>
              (case pb_detect pb rd of
                 Inl e \<Rightarrow> (Ok [JSON 400 (ErrorMsg ''invalid file format'')], w)
               | Inr mtype \<Rightarrow>
                   (case pb_seek pb of
                      Some e \<Rightarrow> (Ok [JSON 500 (ErrorMsg ''file processing error'')], w)
                    | None \<Rightarrow>
                        (case SanitizeFilename (ff_Filename file) of
                           Panic m \<Rightarrow> (Panic m, w)
                         | Err e \<Rightarrow> (Err e, w)
                         | Ok sanitizedName \<Rightarrow>
                             (let header = \<lparr>HName = sanitizedName, HSize = ff_Size file,
                                    HContentType = mtype\<rparr>
                              in case ValidateFile (Some header) of
                                   Some e \<Rightarrow> (Ok [JSON 400 (ErrorMsg (Error e))], w)
                                 | None \<Rightarrow>
                                     (case Upload sv path fileID now rd header w of
                                        (Inl e, w) \<Rightarrow> (Ok [JSON 500 (ErrorMsg (SanitizeError (Some e)))], w)
                                      | (Inr result, w) \<Rightarrow> (Ok [JSON 201 (FileBody result)], w))))))))"

section \<open>Download and View\<close>

definition safe_name :: "string \<Rightarrow> File \<Rightarrow> string" where
  "safe_name i file = (if Name file \<noteq> [] then Name file else ''file_'' @ i)"

definition quoted :: "string \<Rightarrow> string" where
  "quoted s = CHR 0x22 # s @ [CHR 0x22]"

text \<open>
  \<open>io.Copy\<close> to the response: it writes what the reader delivers before it stops, and the handler
  aborts when it stopped with an error.
\<close>

definition stream :: "reader \<Rightarrow> gin_call list" where
  "stream rd =
     (if rd_data rd = [] then [] else [WriteBody (rd_data rd)])
     @ (case rd_err rd of Some e \<Rightarrow> [AbortWithStatus 500] | None \<Rightarrow> [])"

definition handler_Download ::
  "('s, 'r) StorageService \<Rightarrow> string \<Rightarrow> 's \<times> 'r \<Rightarrow> gin_call list \<times> 's \<times> 'r" where
  "handler_Download sv i w =
     (if i = [] then ([JSON 400 (ErrorMsg ''file ID required'')], w)
      else (case Download sv i w of
          (Inl e, w) \<Rightarrow> ([JSON 404 (ErrorMsg ''file not found'')], w)
        | (Inr (rd, file), w) \<Rightarrow>
            ([Header ''Content-Type'' (GetContentType file),
              Header ''Content-Disposition'' (''attachment; filename='' @ quoted (safe_name i file)),
              Header ''Content-Length'' (Itoa (GetSize file)),
              Header ''Cache-Control'' ''no-cache, no-store, must-revalidate'',
              Header ''Pragma'' ''no-cache'',
              Header ''Expires'' ''0'',
              Header ''X-Content-Type-Options'' ''nosniff''] @ stream rd, w)))"

definition handler_View ::
  "('s, 'r) StorageService \<Rightarrow> string \<Rightarrow> 's \<times> 'r \<Rightarrow> gin_call list \<times> 's \<times> 'r" where
  "handler_View sv i w =
     (if i = [] then ([JSON 400 (ErrorMsg ''file ID required'')], w)
      else (case Download sv i w of
          (Inl e, w) \<Rightarrow> ([JSON 404 (ErrorMsg ''file not found'')], w)
        | (Inr (rd, file), w) \<Rightarrow>
            ([Header ''Content-Type'' (GetContentType file),
              Header ''Content-Disposition'' (''inline; filename='' @ quoted (safe_name i file)),
              Header ''Content-Length'' (Itoa (GetSize file)),
              Header ''Cache-Control'' ''max-age=3600'',
              Header ''X-Content-Type-Options'' ''nosniff''] @ stream rd, w)))"

section \<open>Delete and List\<close>

definition handler_Delete ::
  "('s, 'r) StorageService \<Rightarrow> string \<Rightarrow> 's \<times> 'r \<Rightarrow> gin_call list res \<times> 's \<times> 'r" where
  "handler_Delete sv i w =
     (if i = [] then (Ok [JSON 400 (ErrorMsg ''file ID required'')], w)
      else (case Delete sv i w of
          (Panic m, w) \<Rightarrow> (Panic m, w)
        | (Err e, w) \<Rightarrow> (Ok [JSON 500 (ErrorMsg (SanitizeError (Some e)))], w)
        | (Ok u, w) \<Rightarrow> (Ok [Status 204], w)))"

definition handler_List ::
  "('s, 'r) StorageService \<Rightarrow> 's \<times> 'r \<Rightarrow> gin_call list \<times> 's \<times> 'r" where
  "handler_List sv w =
     (case svc_List sv w of
        (Inl e, w) \<Rightarrow> ([JSON 500 (ErrorMsg (SanitizeError (Some e)))], w)
      | (Inr files, w) \<Rightarrow> ([JSON 200 (ListBody files (int (length files)))], w))"

section \<open>The response\<close>

record response =
  rs_status :: nat
  rs_headers :: "(string \<times> string) list"
  rs_json :: "payload option"
  rs_bytes :: bytes
  rs_sent :: bool

definition blank_response :: response where
  "blank_response = \<lparr>rs_status = 200, rs_headers = [], rs_json = None, rs_bytes = [], rs_sent = False\<rparr>"

fun apply_call :: "response \<Rightarrow> gin_call \<Rightarrow> response" where
  "apply_call rs (JSON code p) =
     (if rs_sent rs then rs else rs\<lparr>rs_status := code, rs_json := Some p, rs_sent := True\<rparr>)"
| "apply_call rs (Header k v) =
     (if rs_sent rs then rs
      else if v = [] then rs\<lparr>rs_headers := AList.delete k (rs_headers rs)\<rparr>
      else rs\<lparr>rs_headers := AList.update k v (rs_headers rs)\<rparr>)"
| "apply_call rs (WriteBody bs) = rs\<lparr>rs_bytes := rs_bytes rs @ bs, rs_sent := True\<rparr>"
| "apply_call rs (AbortWithStatus code) =
     (if rs_sent rs then rs else rs\<lparr>rs_status := code, rs_sent := True\<rparr>)"
| "apply_call rs (Status code) = (if rs_sent rs then rs else rs\<lparr>rs_status := code\<rparr>)"

definition respond :: "gin_call list \<Rightarrow> response" where
  "respond calls = foldl apply_call blank_response calls"

section \<open>Facts\<close>

lemma respond_JSON [simp]:
  "rs_status (respond [JSON code p]) = code" "rs_json (respond [JSON code p]) = Some p"
  by (simp_all add: respond_def blank_response_def)

lemma respond_Status [simp]: "rs_status (respond [Status code]) = code"
  by (simp add: respond_def blank_response_def)

lemma sent_status: "rs_sent rs \<Longrightarrow> \<forall>c \<in> set cs. \<nexists>bs. c = WriteBody bs \<Longrightarrow> foldl apply_call rs cs = rs"
proof (induction cs)
  case (Cons c cs)
  then show ?case by (cases c) auto
qed simp

text \<open>The status and the body of a streamed answer, after any headers.\<close>

lemma foldl_headers:
  assumes "\<forall>c \<in> set hs. \<exists>k v. c = Header k v" "\<not> rs_sent rs"
  shows "\<exists>l. foldl apply_call rs hs = rs\<lparr>rs_headers := l\<rparr>"
  using assms
proof (induction hs arbitrary: rs)
  case Nil
  then show ?case by (intro exI [of _ "rs_headers rs"]) simp
next
  case (Cons c cs)
  then obtain k v where c: "c = Header k v" by auto
  have "\<exists>l. foldl apply_call (rs\<lparr>rs_headers := m\<rparr>) cs = rs\<lparr>rs_headers := m\<rparr>\<lparr>rs_headers := l\<rparr>" for m
    using Cons.prems by (intro Cons.IH) auto
  then show ?case using c Cons.prems(2) by auto
qed

lemma respond_stream:
  assumes "\<forall>c \<in> set hs. \<exists>k v. c = Header k v"
  shows "rs_bytes (respond (hs @ stream rd)) = rd_data rd"
    "rs_status (respond (hs @ stream rd)) = (if rd_data rd = [] \<and> rd_err rd \<noteq> None then 500 else 200)"
proof -
  obtain l where "foldl apply_call blank_response hs = blank_response\<lparr>rs_headers := l\<rparr>"
    using foldl_headers [OF assms, of blank_response] by (auto simp: blank_response_def)
  then show "rs_bytes (respond (hs @ stream rd)) = rd_data rd"
    "rs_status (respond (hs @ stream rd)) = (if rd_data rd = [] \<and> rd_err rd \<noteq> None then 500 else 200)"
    by (auto simp: respond_def stream_def blank_response_def split: option.split)
qed

lemma quoted_not_Nil [simp]: "quoted s \<noteq> []"
  by (simp add: quoted_def)

text \<open>The headers an answer has when its body starts, as a map.\<close>

fun set_headers :: "gin_call list \<Rightarrow> (string \<rightharpoonup> string) \<Rightarrow> (string \<rightharpoonup> string)" where
  "set_headers (Header k v # cs) m = set_headers cs (m(k := if v = [] then None else Some v))"
| "set_headers _ m = m"

lemma foldl_header_map:
  assumes "\<forall>c \<in> set hs. \<exists>k v. c = Header k v" "\<not> rs_sent rs"
  shows "map_of (rs_headers (foldl apply_call rs hs)) = set_headers hs (map_of (rs_headers rs))"
  using assms
proof (induction hs arbitrary: rs)
  case (Cons c cs)
  then obtain k v where "c = Header k v" by auto
  with Cons show ?case by (simp add: delete_conv' update_conv')
qed simp

lemma foldl_stream_headers: "rs_headers (foldl apply_call rs (stream rd)) = rs_headers rs"
  by (simp add: stream_def split: option.split)

lemma respond_headers:
  assumes "\<forall>c \<in> set hs. \<exists>k v. c = Header k v"
  shows "map_of (rs_headers (respond (hs @ stream rd))) = set_headers hs Map.empty"
  using foldl_header_map [OF assms, of blank_response]
  by (simp add: respond_def foldl_stream_headers blank_response_def)

text \<open>Whatever its parts do, an upload makes exactly one call on the context.\<close>

lemma handler_Upload_answer:
  "\<exists>calls w'. handler_Upload sv pb path fileID now form w = (Ok calls, w') \<and>
     ((\<exists>m. calls = [JSON 400 (ErrorMsg m)] \<and> w' = w)
    \<or> (\<exists>m. calls = [JSON 500 (ErrorMsg m)] \<and> m \<in> set (''file processing error'' # safe_messages))
    \<or> (\<exists>f. calls = [JSON 201 (FileBody f)] \<and> ID f = fileID \<and> CreatedAt f = now
           \<and> ValidateFilename (Name f) = None))"
proof -
  obtain s r where w: "w = (s, r)" by fastforce
  have n: "SanitizeFilename name \<noteq> Err e" "SanitizeFilename name \<noteq> Panic m" for name e m
    using SanitizeFilename_result [of name] by (metis res.distinct)+
  have u: "ID f = fileID \<and> CreatedAt f = now \<and> ValidateFilename (Name f) = None"
    if "ValidateFile (Some h) = None" "Upload sv path fileID now rd h v = (Inr f, v')" for rd h f v v'
    using Upload_returns [OF that(2)] ValidateFile_name [OF that(1)] by simp
  show ?thesis unfolding handler_Upload_def w
    by (use n in \<open>auto simp: Let_def SanitizeError_safe u split: sum.split prod.split option.split res.split\<close>)
qed

end
