(* ===== verification/LocalStorage.thy ===== *)
theory LocalStorage
  imports BlobStore GoPath "HOL-Library.List_Lexorder" "HOL-Library.Char_ord"
begin

text \<open>
  pkg/storage/local.go: the implementation of the storage interface on the local file system.

  The file system is a list of entries, a path (its elements from the root) with a directory or
  a file; \<open>cwd\<close> is what \<open>os.Getwd\<close> returns. Each system call takes the next entry of a
  schedule \<open>disk\<close> of outcomes, so every I/O error the code handles can occur: a call whose
  entry is \<open>DiskErr n e\<close> fails with \<open>e\<close> and changes nothing, except the copy into a file,
  which has then written the first \<open>n\<close> bytes, and \<open>MkdirAll\<close>, which has then made the missing
  ones of the first \<open>n\<close> directories of its path. An empty schedule is a disk without faults.
  Symbolic links and permissions are not modelled. The code ignores the error of closing a file
  it has written (\<open>defer file.Close()\<close>); what the copy has reported as written stays written here.
\<close>

section \<open>The file system and the calls of package os\<close>

datatype node = DirNode | FileNode bytes

datatype disk_event = DiskOk | DiskErr nat goerr

type_synonym nodes = "(string list \<times> node) list"

record localfs =
  nodes :: nodes
  cwd :: "string result"
  disk :: "disk_event list"

definition lookup_node :: "nodes \<Rightarrow> string list \<Rightarrow> node option" where
  "lookup_node ns p = (if p = [] then Some DirNode else map_of ns p)"

definition put_node :: "nodes \<Rightarrow> string list \<Rightarrow> node \<Rightarrow> nodes" where
  "put_node ns p n = (p, n) # filter (\<lambda>e. fst e \<noteq> p) ns"

definition drop_node :: "nodes \<Rightarrow> string list \<Rightarrow> nodes" where
  "drop_node ns p = filter (\<lambda>e. fst e \<noteq> p) ns"

definition next_event :: "localfs \<Rightarrow> disk_event \<times> localfs" where
  "next_event fs = (case disk fs of [] \<Rightarrow> (DiskOk, fs) | ev # evs \<Rightarrow> (ev, fs\<lparr>disk := evs\<rparr>))"

definition path_error :: "string \<Rightarrow> string \<Rightarrow> string \<Rightarrow> goerr" where
  "path_error oper p msg = ErrorString (oper @ '' '' @ p @ '': '' @ msg)"

text \<open>The absolute place of a path: its elements below the root.\<close>

definition elems :: "string \<Rightarrow> string list" where
  "elems p = rev (path_stack p)"

definition resolve :: "string result \<Rightarrow> string \<Rightarrow> string list option" where
  "resolve wd p = (case Abs wd p of Inr q \<Rightarrow> Some (elems q) | _ \<Rightarrow> None)"

fun mk_dirs :: "nodes \<Rightarrow> string list \<Rightarrow> string list \<Rightarrow> nodes option" where
  "mk_dirs ns at [] = (if lookup_node ns at = Some DirNode then Some ns else None)"
| "mk_dirs ns at (w # ws) =
     (case lookup_node ns at of
        Some DirNode \<Rightarrow>
          (case lookup_node ns (at @ [w]) of
             None \<Rightarrow> mk_dirs (put_node ns (at @ [w]) DirNode) (at @ [w]) ws
           | Some n \<Rightarrow> mk_dirs ns (at @ [w]) ws)
      | _ \<Rightarrow> None)"

definition os_MkdirAll :: "string \<Rightarrow> localfs \<Rightarrow> goerr option \<times> localfs" where
  "os_MkdirAll p fs =
     (let (ev, fs) = next_event fs in
      case ev of
        DiskErr n e \<Rightarrow>
          (Some e,
           (case Option.bind (resolve (cwd fs) p) (\<lambda>q. mk_dirs (nodes fs) [] (take n q)) of
              None \<Rightarrow> fs
            | Some ns \<Rightarrow> fs\<lparr>nodes := ns\<rparr>))
      | DiskOk \<Rightarrow>
          (case resolve (cwd fs) p of
             None \<Rightarrow> (Some (path_error ''mkdir'' p ''no such file or directory''), fs)
           | Some q \<Rightarrow>
               (case mk_dirs (nodes fs) [] q of
                  None \<Rightarrow> (Some (path_error ''mkdir'' p ''not a directory''), fs)
                | Some ns \<Rightarrow> (None, fs\<lparr>nodes := ns\<rparr>))))"

definition os_Create :: "string \<Rightarrow> localfs \<Rightarrow> goerr option \<times> localfs" where
  "os_Create p fs =
     (let (ev, fs) = next_event fs in
      case ev of
        DiskErr n e \<Rightarrow> (Some e, fs)
      | DiskOk \<Rightarrow>
          (case resolve (cwd fs) p of
             None \<Rightarrow> (Some (path_error ''open'' p ''no such file or directory''), fs)
           | Some q \<Rightarrow>
               if lookup_node (nodes fs) q = Some DirNode
                 then (Some (path_error ''open'' p ''is a directory''), fs)
               else if lookup_node (nodes fs) (butlast q) = Some DirNode
                 then (None, fs\<lparr>nodes := put_node (nodes fs) q (FileNode [])\<rparr>)
               else (Some (path_error ''open'' p ''no such file or directory''), fs)))"

text \<open>\<open>io.Copy(file, reader)\<close> into the file just created: how much was written, and the error.\<close>

definition io_Copy_to :: "string \<Rightarrow> reader \<Rightarrow> localfs \<Rightarrow> (int \<times> goerr option) \<times> localfs" where
  "io_Copy_to p r fs =
     (let (ev, fs) = next_event fs;
          (written, err) = (case ev of DiskOk \<Rightarrow> (rd_data r, rd_err r)
                                     | DiskErr n e \<Rightarrow> (take n (rd_data r), Some e))
      in ((int (length written), err),
          (case resolve (cwd fs) p of
             Some q \<Rightarrow> fs\<lparr>nodes := put_node (nodes fs) q (FileNode written)\<rparr>
           | None \<Rightarrow> fs)))"

definition os_Open :: "string \<Rightarrow> localfs \<Rightarrow> reader result \<times> localfs" where
  \<comment> \<open>a directory can be opened; reading from it is what fails\<close>
  "os_Open p fs =
     (let (ev, fs) = next_event fs in
      case ev of
        DiskErr n e \<Rightarrow> (Inl e, fs)
      | DiskOk \<Rightarrow>
          (case Option.bind (resolve (cwd fs) p) (lookup_node (nodes fs)) of
             None \<Rightarrow> (Inl (path_error ''open'' p ''no such file or directory''), fs)
           | Some DirNode \<Rightarrow>
               (Inr \<lparr>rd_data = [], rd_err = Some (path_error ''read'' p ''is a directory'')\<rparr>, fs)
           | Some (FileNode c) \<Rightarrow> (Inr (reader_of c), fs)))"

definition has_children :: "nodes \<Rightarrow> string list \<Rightarrow> bool" where
  "has_children ns p \<longleftrightarrow> list_ex (\<lambda>e. fst e \<noteq> [] \<and> butlast (fst e) = p) ns"

definition os_Remove :: "string \<Rightarrow> localfs \<Rightarrow> goerr option \<times> localfs" where
  "os_Remove p fs =
     (let (ev, fs) = next_event fs in
      case ev of
        DiskErr n e \<Rightarrow> (Some e, fs)
      | DiskOk \<Rightarrow>
          (case resolve (cwd fs) p of
             None \<Rightarrow> (Some (path_error ''remove'' p ''no such file or directory''), fs)
           | Some q \<Rightarrow>
               (case lookup_node (nodes fs) q of
                  None \<Rightarrow> (Some (path_error ''remove'' p ''no such file or directory''), fs)
                | Some DirNode \<Rightarrow>
                    if q = [] \<or> has_children (nodes fs) q
                    then (Some (path_error ''remove'' p ''directory not empty''), fs)
                    else (None, fs\<lparr>nodes := drop_node (nodes fs) q\<rparr>)
                | Some (FileNode c) \<Rightarrow> (None, fs\<lparr>nodes := drop_node (nodes fs) q\<rparr>))))"

section \<open>LocalStorage\<close>

record LocalStorage =
  basePath :: string

definition systemDirs :: "string list" where
  "systemDirs = [''etc/'', ''var/'', ''usr/'', ''home/'', ''root/'', ''sys/'', ''proc/'']"

definition sanitizePath :: "LocalStorage \<Rightarrow> string \<Rightarrow> localfs \<Rightarrow> string result" where
  "sanitizePath s userPath fs =
     (let cleanPath = Clean userPath;
          cleanPath = TrimPrefix cleanPath ''/''
      in if Contains cleanPath ''..''
           then Inl (ErrorString (''path traversal detected: '' @ userPath))
         else if list_ex (HasPrefix cleanPath) systemDirs
           then Inl (ErrorString (''access to system directories not allowed: '' @ cleanPath))
         else
           (let fullPath = Join (basePath s) cleanPath in
            case Abs (cwd fs) fullPath of
              Inl e \<Rightarrow> Inl (wrapf ''failed to resolve absolute path: '' e)
            | Inr absFullPath \<Rightarrow>
                (case Abs (cwd fs) (basePath s) of
                   Inl e \<Rightarrow> Inl (wrapf ''failed to resolve base path: '' e)
                 | Inr absBasePath \<Rightarrow>
                     if \<not> HasPrefix absFullPath (absBasePath @ ''/'') \<and> absFullPath \<noteq> absBasePath
                     then Inl (ErrorString (''path outside base directory: '' @ userPath))
                     else Inr cleanPath)))"

definition NewLocalStorage :: "string \<Rightarrow> localfs \<Rightarrow> LocalStorage result \<times> localfs" where
  "NewLocalStorage base fs =
     (case os_MkdirAll base fs of
        (Some e, fs) \<Rightarrow> (Inl (wrapf ''failed to create base path: '' e), fs)
      | (None, fs) \<Rightarrow> (Inr \<lparr>basePath = base\<rparr>, fs))"

definition put_error :: "goerr \<Rightarrow> put_result" where
  "put_error e = \<lparr>pr_n = 0, pr_err = Some e, pr_consumed = []\<rparr>"

definition local_Put ::
    "LocalStorage \<Rightarrow> string \<Rightarrow> reader \<Rightarrow> int \<Rightarrow> localfs \<Rightarrow> put_result \<times> localfs" where
  "local_Put s path r sz fs =
     (case sanitizePath s path fs of
        Inl e \<Rightarrow> (put_error (wrapf ''invalid path: '' e), fs)
      | Inr cleanPath \<Rightarrow>
          (let fullPath = Join (basePath s) cleanPath in
           case os_MkdirAll (Dir fullPath) fs of
             (Some e, fs) \<Rightarrow> (put_error (wrapf ''failed to create directory: '' e), fs)
           | (None, fs) \<Rightarrow>
               (case os_Create fullPath fs of
                  (Some e, fs) \<Rightarrow> (put_error (wrapf ''failed to create file: '' e), fs)
                | (None, fs) \<Rightarrow>
                    (let ((n, err), fs) = io_Copy_to fullPath r fs
                     in (\<lparr>pr_n = n, pr_err = err, pr_consumed = rd_data r\<rparr>, fs)))))"

definition local_Get :: "LocalStorage \<Rightarrow> string \<Rightarrow> localfs \<Rightarrow> reader result \<times> localfs" where
  "local_Get s path fs =
     (case sanitizePath s path fs of
        Inl e \<Rightarrow> (Inl (wrapf ''invalid path: '' e), fs)
      | Inr cleanPath \<Rightarrow>
          (case os_Open (Join (basePath s) cleanPath) fs of
             (Inl e, fs) \<Rightarrow> (Inl (wrapf ''failed to open file: '' e), fs)
           | (Inr r, fs) \<Rightarrow> (Inr r, fs)))"

definition local_Delete :: "LocalStorage \<Rightarrow> string \<Rightarrow> localfs \<Rightarrow> goerr option \<times> localfs" where
  "local_Delete s path fs =
     (case sanitizePath s path fs of
        Inl e \<Rightarrow> (Some (wrapf ''invalid path: '' e), fs)
      | Inr cleanPath \<Rightarrow>
          (case os_Remove (Join (basePath s) cleanPath) fs of
             (Some e, fs) \<Rightarrow> (Some (wrapf ''failed to delete file: '' e), fs)
           | (None, fs) \<Rightarrow> (None, fs)))"

text \<open>
  \<open>filepath.Walk\<close> visits a tree depth first with the names of a directory in byte order, which
  is the lexicographic order of the element lists. The callback never returns an error, so
  \<open>Walk\<close> returns nil whatever happens on the way.
\<close>

definition walk_files :: "nodes \<Rightarrow> string list \<Rightarrow> string list list" where
  "walk_files ns root =
     sort (map fst (filter (\<lambda>e. snd e \<noteq> DirNode \<and> take (length root) (fst e) = root) ns))"

definition local_List :: "LocalStorage \<Rightarrow> string \<Rightarrow> localfs \<Rightarrow> string list result \<times> localfs" where
  "local_List s pre fs =
     (case sanitizePath s pre fs of
        Inl e \<Rightarrow> (Inl (wrapf ''invalid prefix: '' e), fs)
      | Inr cleanPrefix \<Rightarrow>
          (case (resolve (cwd fs) (Join (basePath s) cleanPrefix), resolve (cwd fs) (basePath s)) of
             (Some root, Some b) \<Rightarrow>
               (Inr (map (\<lambda>q. JoinWith ''/'' (drop (length b) q)) (walk_files (nodes fs) root)), fs)
           | _ \<Rightarrow> (Inr [], fs)))"

definition local_storage_ops :: "LocalStorage \<Rightarrow> localfs storage_ops" where
  "local_storage_ops s =
     \<lparr>st_Put = local_Put s, st_Get = local_Get s, st_Delete = local_Delete s, st_List = local_List s\<rparr>"

section \<open>Paths stay below the base directory\<close>

lemma elems_render: "rooted_stack S \<Longrightarrow> elems (render True S) = rev S"
  by (simp add: elems_def)

lemma resolve_Inr: "IsAbs d \<Longrightarrow> resolve (Inr d) p = Some (rev (abs_stack d p))"
  by (simp add: resolve_def Abs_Inr elems_render rooted_abs_stack)

text \<open>The string test on the rendered paths means that one list of elements extends the other.\<close>

lemma render_prefix:
  assumes "rooted_stack S" "rooted_stack T"
    and "HasPrefix (render True T) (render True S @ ''/'') \<or> render True T = render True S"
  shows "take (length S) (rev T) = rev S"
proof (cases "S = [] \<or> render True T = render True S")
  case True
  then show ?thesis using assms(1,2) path_stack_render by fastforce
next
  case False
  then obtain rest where r: "render True T = render True S @ slash # rest"
    using assms(3) by (auto simp: HasPrefix_iff)
  have "T \<noteq> []"
  proof
    assume "T = []"
    then have "length (render True T) = 1" by (simp add: render_def)
    moreover have "0 < length (render True S)" by (simp add: render_def Let_def)
    ultimately show False using r by simp
  qed
  then have "[] # rev T = Split slash (render True T)" using assms Split_render_True by simp
  also have "\<dots> = ([] # rev S) @ Split slash rest"
    using False assms Split_render_True by (simp add: r Split_append_sep)
  finally have "rev T = rev S @ Split slash rest" by simp
  then show ?thesis by simp
qed

definition below :: "string list \<Rightarrow> string list \<Rightarrow> bool" where
  \<comment> \<open>the second place is the first or lies under it\<close>
  "below b q \<longleftrightarrow> take (length b) q = b"

lemma sanitizePath_below:
  assumes "cwd fs = Inr d" "IsAbs d" "sanitizePath s u fs = Inr p"
  shows "below (rev (abs_stack d (basePath s))) (rev (abs_stack d (Join (basePath s) p)))"
proof -
  have "HasPrefix (render True (abs_stack d (Join (basePath s) p)))
          (render True (abs_stack d (basePath s)) @ ''/'')
      \<or> render True (abs_stack d (Join (basePath s) p)) = render True (abs_stack d (basePath s))"
    using assms by (auto simp: sanitizePath_def Let_def Abs_Inr split: if_splits)
  from render_prefix [OF rooted_abs_stack rooted_abs_stack this, OF assms(2) assms(2)]
  show ?thesis by (simp add: below_def)
qed

text \<open>A path the service uses is one plain element; it passes the checks unchanged.\<close>

definition plain_path :: "string \<Rightarrow> bool" where
  "plain_path p \<longleftrightarrow> plain_elem p \<and> \<not> Contains p ''..''"

lemma no_system_prefix: "slash \<notin> set p \<Longrightarrow> \<not> list_ex (HasPrefix p) systemDirs"
  by (auto simp: systemDirs_def HasPrefix_iff)

lemma TrimPrefix_plain: "slash \<notin> set p \<Longrightarrow> TrimPrefix p ''/'' = p"
  by (auto simp: TrimPrefix_def HasPrefix_iff)

lemma sanitizePath_plain:
  assumes "cwd fs = Inr d" "IsAbs d" "basePath s \<noteq> []" "abs_stack d (basePath s) \<noteq> []" "plain_path p"
  shows "sanitizePath s p fs = Inr p"
proof -
  have p: "plain_elem p" "\<not> Contains p ''..''" "slash \<notin> set p"
    using assms(5) by (auto simp: plain_path_def plain_elem_def)
  have full: "Abs (cwd fs) (Join (basePath s) p)
      = Inr (render True (abs_stack d (basePath s)) @ ''/'' @ p)"
    using assms p by (simp add: Abs_Inr abs_stack_Join_plain render_True_Cons)
  have "HasPrefix (render True (abs_stack d (basePath s)) @ ''/'' @ p)
      (render True (abs_stack d (basePath s)) @ ''/'')"
    by (auto simp: HasPrefix_iff)
  then show ?thesis using assms p full no_system_prefix [of p] TrimPrefix_plain [of p] Clean_plain [of p]
    by (simp add: sanitizePath_def Let_def Abs_Inr)
qed

section \<open>The local file system as a blob store\<close>

lemma lookup_put_node:
  "p \<noteq> [] \<Longrightarrow> lookup_node (put_node ns p n) q = (if q = p then Some n else lookup_node ns q)"
proof -
  have "map_of (filter (\<lambda>e. fst e \<noteq> p) ns) q = map_of ns q" if "q \<noteq> p"
    using that by (induction ns) auto
  then show "p \<noteq> [] \<Longrightarrow> ?thesis" by (auto simp: lookup_node_def put_node_def)
qed

lemma lookup_drop_node:
  "p \<noteq> [] \<Longrightarrow> lookup_node (drop_node ns p) q = (if q = p then None else lookup_node ns q)"
proof -
  have "map_of (filter (\<lambda>e. fst e \<noteq> p) ns) q = (if q = p then None else map_of ns q)"
    by (induction ns) auto
  then show "p \<noteq> [] \<Longrightarrow> ?thesis" by (auto simp: lookup_node_def drop_node_def)
qed

lemma mk_dirs_present:
  "\<forall>n \<le> length ws. lookup_node ns (at @ take n ws) = Some DirNode \<Longrightarrow> mk_dirs ns at ws = Some ns"
proof (induction ws arbitrary: at)
  case Nil
  then show ?case by simp
next
  case (Cons w ws)
  have "lookup_node ns at = Some DirNode" using Cons.prems [rule_format, of 0] by simp
  moreover have "lookup_node ns (at @ [w]) = Some DirNode" using Cons.prems [rule_format, of 1] by simp
  moreover have "\<forall>n \<le> length ws. lookup_node ns ((at @ [w]) @ take n ws) = Some DirNode"
  proof (intro allI impI)
    fix n assume "n \<le> length ws"
    then show "lookup_node ns ((at @ [w]) @ take n ws) = Some DirNode"
      using Cons.prems [rule_format, of "Suc n"] by simp
  qed
  ultimately show ?case using Cons.IH by simp
qed

text \<open>
  The state in which the store works: no fault ahead, a working directory, a base directory
  below the root that exists, and no directory where a blob would go.
\<close>

definition root_of :: "LocalStorage \<Rightarrow> localfs \<Rightarrow> string list" where
  "root_of s fs = (case cwd fs of Inr d \<Rightarrow> rev (abs_stack d (basePath s)) | Inl e \<Rightarrow> [])"

definition local_inv :: "LocalStorage \<Rightarrow> localfs \<Rightarrow> bool" where
  "local_inv s fs \<longleftrightarrow>
     disk fs = [] \<and> (\<exists>d. cwd fs = Inr d \<and> IsAbs d) \<and> basePath s \<noteq> [] \<and> root_of s fs \<noteq> []
     \<and> (\<forall>n \<le> length (root_of s fs). lookup_node (nodes fs) (take n (root_of s fs)) = Some DirNode)
     \<and> (\<forall>p. plain_path p \<longrightarrow> lookup_node (nodes fs) (root_of s fs @ [p]) \<noteq> Some DirNode)"

definition local_blobs :: "LocalStorage \<Rightarrow> localfs \<Rightarrow> string \<Rightarrow> bytes option" where
  "local_blobs s fs p =
     (case lookup_node (nodes fs) (root_of s fs @ [p]) of Some (FileNode c) \<Rightarrow> Some c | _ \<Rightarrow> None)"

lemma next_event_Nil: "disk fs = [] \<Longrightarrow> next_event fs = (DiskOk, fs)"
  by (simp add: next_event_def)

text \<open>What the paths of a plain name look like under the invariant.\<close>

lemma local_inv_paths:
  assumes "local_inv s fs" "plain_path p"
  shows "sanitizePath s p fs = Inr p"
    and "resolve (cwd fs) (Join (basePath s) p) = Some (root_of s fs @ [p])"
    and "resolve (cwd fs) (Dir (Join (basePath s) p)) = Some (root_of s fs)"
proof -
  obtain d where d: "cwd fs = Inr d" "IsAbs d" and b: "basePath s \<noteq> []" "abs_stack d (basePath s) \<noteq> []"
    using assms by (auto simp: local_inv_def root_of_def)
  have p: "plain_elem p" "slash \<notin> set p" using assms by (auto simp: plain_path_def plain_elem_def)
  show "sanitizePath s p fs = Inr p" using d b assms(2) by (rule sanitizePath_plain)
  show "resolve (cwd fs) (Join (basePath s) p) = Some (root_of s fs @ [p])"
    using d b p by (simp add: resolve_Inr abs_stack_Join_plain root_of_def)
  have "abs_stack d (Dir (Join (basePath s) p)) = abs_stack d (basePath s)"
  proof (cases "\<not> IsAbs (basePath s) \<and> path_stack (basePath s) = []")
    case True
    then have "Join (basePath s) p = p" using b p by (simp add: Join_plain render_def plain_elem_def)
    then have "Dir (Join (basePath s) p) = ''.''" using p
      by (simp add: Dir_def Clean_def dropWhile_eq_Nil_conv [THEN iffD2])
    moreover have "abs_stack d (basePath s) = path_stack d"
      using abs_stack_render [OF d(2) b(1)] True abs_stack_dot [of d] by (simp add: render_def)
    ultimately show ?thesis by (simp add: abs_stack_dot)
  next
    case False
    let ?r = "IsAbs (basePath s)" and ?stk = "path_stack (basePath s)"
    obtain a where a: "Join (basePath s) p = a @ slash # p"
        "Clean (a @ ''/'') = Clean (render ?r ?stk @ ''/'')"
    proof (cases "?stk = []")
      case True
      then have "Join (basePath s) p = [] @ slash # p" using False b p
        by (simp add: Join_plain render_def)
      moreover have "Clean ([] @ ''/'') = Clean (render ?r ?stk @ ''/'')"
        using True False by (simp add: render_def) (simp add: Clean_def IsAbs_def clean_stack_def)
      ultimately show ?thesis by (rule that)
    next
      case ne: False
      then have "JoinWith ''/'' (rev ?stk) \<noteq> []"
        using clean_stack_Split_elems JoinWith_Nil_iff [of "rev ?stk"] by (auto simp: path_stack_def)
      then have "Join (basePath s) p = render ?r ?stk @ slash # p" using ne b p
        by (simp add: Join_plain render_def Let_def JoinWith_snoc)
      then show ?thesis by (rule that) simp
    qed
    have ne: "render ?r ?stk \<noteq> []" by (simp add: render_def Let_def)
    have "abs_stack d (Dir (Join (basePath s) p)) = abs_stack d (Clean (render ?r ?stk @ ''/''))"
      using a p by (simp add: Dir_append)
    also have "\<dots> = abs_stack d (render ?r ?stk @ ''/'')" using d by (simp add: abs_stack_Clean)
    also have "\<dots> = abs_stack d (basePath s)"
      using abs_stack_trailing [OF ne] abs_stack_render [OF d(2) b(1)] by simp
    finally show ?thesis .
  qed
  then show "resolve (cwd fs) (Dir (Join (basePath s) p)) = Some (root_of s fs)"
    using d by (simp add: resolve_Inr root_of_def)
qed

text \<open>The system calls on such a path.\<close>

lemma lookup_base_prefix: "local_inv s fs \<Longrightarrow> lookup_node (nodes fs) (root_of s fs) = Some DirNode"
  unfolding local_inv_def by (metis order_refl take_all)

lemma local_Put_plain:
  assumes inv: "local_inv s fs" and p: "plain_path p"
  shows "local_Put s p r sz fs =
    (\<lparr>pr_n = int (length (rd_data r)), pr_err = rd_err r, pr_consumed = rd_data r\<rparr>,
     fs\<lparr>nodes := put_node (put_node (nodes fs) (root_of s fs @ [p]) (FileNode []))
                  (root_of s fs @ [p]) (FileNode (rd_data r))\<rparr>)"
proof -
  note paths = local_inv_paths [OF inv p]
  have disk: "disk fs = []" using inv by (simp add: local_inv_def)
  have dirs: "mk_dirs (nodes fs) [] (root_of s fs) = Some (nodes fs)"
    using inv by (intro mk_dirs_present) (simp add: local_inv_def)
  have mk: "os_MkdirAll (Dir (Join (basePath s) p)) fs = (None, fs)"
    using paths disk dirs by (simp add: os_MkdirAll_def next_event_Nil)
  have nd: "lookup_node (nodes fs) (root_of s fs @ [p]) \<noteq> Some DirNode"
    using inv p by (simp add: local_inv_def)
  show ?thesis using paths disk mk nd lookup_base_prefix [OF inv]
    by (simp add: local_Put_def os_Create_def io_Copy_to_def next_event_Nil)
qed

lemma local_inv_nodes:
  assumes "local_inv s fs" "plain_path p"
    and same: "\<And>q. q \<noteq> root_of s fs @ [p] \<Longrightarrow> lookup_node ns q = lookup_node (nodes fs) q"
    and "lookup_node ns (root_of s fs @ [p]) \<noteq> Some DirNode"
  shows "local_inv s (fs\<lparr>nodes := ns\<rparr>)"
proof -
  have r: "root_of s (fs\<lparr>nodes := ns\<rparr>) = root_of s fs" by (simp add: root_of_def)
  have "take n (root_of s fs) \<noteq> root_of s fs @ [p]" for n
  proof
    assume "take n (root_of s fs) = root_of s fs @ [p]"
    then have "length (take n (root_of s fs)) = length (root_of s fs @ [p])" by simp
    then show False by simp
  qed
  then show ?thesis using assms unfolding local_inv_def r by (auto simp: same) (metis same)
qed

lemma local_put_any:
  assumes "local_inv s fs" "plain_path p"
  shows "\<exists>fs'. st_Put (local_storage_ops s) p r sz fs =
        (\<lparr>pr_n = int (length (rd_data r)), pr_err = rd_err r, pr_consumed = rd_data r\<rparr>, fs')
      \<and> local_inv s fs' \<and> local_blobs s fs' = (local_blobs s fs)(p \<mapsto> rd_data r)"
proof -
  let ?q = "root_of s fs @ [p]"
  let ?ns = "put_node (put_node (nodes fs) ?q (FileNode [])) ?q (FileNode (rd_data r))"
  have "local_inv s (fs\<lparr>nodes := ?ns\<rparr>)"
    using assms(1,2) by (rule local_inv_nodes) (simp_all add: lookup_put_node)
  moreover have "local_blobs s (fs\<lparr>nodes := ?ns\<rparr>) = (local_blobs s fs)(p \<mapsto> rd_data r)"
    by (auto simp: local_blobs_def root_of_def fun_eq_iff lookup_put_node)
  ultimately show ?thesis using local_Put_plain [OF assms(1,2)]
    by (simp add: local_storage_ops_def)
qed

lemma local_put_contract:
  assumes "local_inv s fs" "plain_path p" "rd_err r = None"
  shows "\<exists>fs'. st_Put (local_storage_ops s) p r sz fs =
        (\<lparr>pr_n = int (length (rd_data r)), pr_err = None, pr_consumed = rd_data r\<rparr>, fs')
      \<and> local_inv s fs' \<and> local_blobs s fs' = (local_blobs s fs)(p \<mapsto> rd_data r)"
  using local_put_any [OF assms(1,2)] assms(3) by metis

lemma local_get_contract:
  assumes "local_inv s fs" "plain_path p"
  shows "local_blobs s fs p = Some c \<Longrightarrow> st_Get (local_storage_ops s) p fs = (Inr (reader_of c), fs)"
    and "local_blobs s fs p = None \<Longrightarrow> \<exists>e. st_Get (local_storage_ops s) p fs = (Inl e, fs)"
proof -
  have disk: "disk fs = []" and nd: "lookup_node (nodes fs) (root_of s fs @ [p]) \<noteq> Some DirNode"
    using assms by (simp_all add: local_inv_def)
  note simps = local_storage_ops_def local_Get_def os_Open_def next_event_Nil local_inv_paths [OF assms]
    local_blobs_def
  show "local_blobs s fs p = Some c \<Longrightarrow> st_Get (local_storage_ops s) p fs = (Inr (reader_of c), fs)"
    using disk by (auto simp: simps split: option.splits node.splits)
  show "local_blobs s fs p = None \<Longrightarrow> \<exists>e. st_Get (local_storage_ops s) p fs = (Inl e, fs)"
    using disk nd by (auto simp: simps split: option.splits node.splits)
qed

lemma local_delete_contract:
  assumes "local_inv s fs" "plain_path p" "local_blobs s fs p = Some c"
  shows "\<exists>fs'. st_Delete (local_storage_ops s) p fs = (None, fs')
      \<and> local_inv s fs' \<and> local_blobs s fs' = (local_blobs s fs)(p := None)"
proof -
  let ?q = "root_of s fs @ [p]"
  have disk: "disk fs = []" using assms by (simp add: local_inv_def)
  have "lookup_node (nodes fs) ?q = Some (FileNode c)"
    using assms(3) by (auto simp: local_blobs_def split: option.splits node.splits)
  then have "st_Delete (local_storage_ops s) p fs = (None, fs\<lparr>nodes := drop_node (nodes fs) ?q\<rparr>)"
    using disk local_inv_paths [OF assms(1,2)]
    by (simp add: local_storage_ops_def local_Delete_def os_Remove_def next_event_Nil)
  moreover have "local_inv s (fs\<lparr>nodes := drop_node (nodes fs) ?q\<rparr>)"
    using assms(1,2) by (rule local_inv_nodes) (simp_all add: lookup_drop_node)
  moreover have "local_blobs s (fs\<lparr>nodes := drop_node (nodes fs) ?q\<rparr>) = (local_blobs s fs)(p := None)"
    by (auto simp: local_blobs_def root_of_def fun_eq_iff lookup_drop_node)
  ultimately show ?thesis by blast
qed

text \<open>The empty path stands for the base directory, which opens but cannot be read.\<close>

lemma Clean_empty: "Clean [] = ''.''"
  by code_simp

lemma local_Get_empty:
  assumes "local_inv s fs"
  shows "\<exists>e. local_Get s [] fs = (Inr \<lparr>rd_data = [], rd_err = Some e\<rparr>, fs)"
proof -
  obtain d where d: "cwd fs = Inr d" "IsAbs d" and b: "basePath s \<noteq> []" "abs_stack d (basePath s) \<noteq> []"
    using assms by (auto simp: local_inv_def root_of_def)
  have same: "abs_stack d (Join (basePath s) ''.'') = abs_stack d (basePath s)"
    using d b by (simp add: abs_stack_Join Split_no_sep)
  have dot: "TrimPrefix ''.'' ''/'' = ''.''" "\<not> Contains ''.'' ''..''"
      "\<not> list_ex (HasPrefix ''.'') systemDirs" by code_simp+
  have san: "sanitizePath s [] fs = Inr ''.''"
    using d same by (simp add: sanitizePath_def Clean_empty Abs_Inr dot Let_def)
  have "resolve (cwd fs) (Join (basePath s) ''.'') = Some (root_of s fs)"
    using d same by (simp add: resolve_Inr root_of_def)
  then show ?thesis using san assms lookup_base_prefix [OF assms]
    by (simp add: local_Get_def os_Open_def next_event_Nil local_inv_def)
qed
text \<open>What creating the base directory does to the tree.\<close>

lemma mk_dirs_made:
  "mk_dirs ns cur ws = Some ns' \<Longrightarrow>
    (\<forall>n \<le> length ws. lookup_node ns' (cur @ take n ws) = Some DirNode)
  \<and> (\<forall>q. length cur + length ws < length q \<longrightarrow> lookup_node ns' q = lookup_node ns q)
  \<and> (\<forall>q. lookup_node ns q = Some DirNode \<longrightarrow> lookup_node ns' q = Some DirNode)"
proof (induction ws arbitrary: ns cur)
  case Nil
  then show ?case by (auto split: if_splits)
next
  case (Cons w ws)
  then have cur: "lookup_node ns cur = Some DirNode" by (auto split: option.splits node.splits)
  define ns1 where "ns1 = (if lookup_node ns (cur @ [w]) = None then put_node ns (cur @ [w]) DirNode else ns)"
  have "mk_dirs ns1 (cur @ [w]) ws = Some ns'"
    using Cons.prems cur by (auto simp: ns1_def split: option.splits node.splits)
  note ih = Cons.IH [OF this]
  have keep: "lookup_node ns q = Some DirNode \<Longrightarrow> lookup_node ns1 q = Some DirNode" for q
    by (auto simp: ns1_def lookup_put_node)
  have far: "lookup_node ns1 q = lookup_node ns q" if "length cur + length (w # ws) < length q" for q
    using that by (auto simp: ns1_def lookup_put_node)
  show ?case
  proof (intro conjI allI impI)
    fix n assume "n \<le> length (w # ws)"
    then show "lookup_node ns' (cur @ take n (w # ws)) = Some DirNode"
      using ih keep [OF cur] by (cases n) auto
  next
    fix q :: "string list" assume "length cur + length (w # ws) < length q"
    then show "lookup_node ns' q = lookup_node ns q" using ih far [of q] by auto
  next
    fix q :: "string list" assume "lookup_node ns q = Some DirNode"
    then show "lookup_node ns' q = Some DirNode" using ih keep by blast
  qed
qed

lemma NewLocalStorage_inv:
  assumes "disk fs = []" "cwd fs = Inr d" "IsAbs d" "base \<noteq> []" "abs_stack d base \<noteq> []"
    and "\<forall>p. plain_path p \<longrightarrow> lookup_node (nodes fs) (rev (abs_stack d base) @ [p]) = None"
    and "NewLocalStorage base fs = (Inr ls, fs')"
  shows "basePath ls = base \<and> local_inv ls fs' \<and> (\<forall>p. plain_path p \<longrightarrow> local_blobs ls fs' p = None)"
proof -
  let ?q = "rev (abs_stack d base)"
  have res: "resolve (cwd fs) base = Some ?q" using assms(2,3) by (simp add: resolve_Inr)
  then obtain ns where ns: "mk_dirs (nodes fs) [] ?q = Some ns" "fs' = fs\<lparr>nodes := ns\<rparr>" "ls = \<lparr>basePath = base\<rparr>"
    using assms(1,7) by (auto simp: NewLocalStorage_def os_MkdirAll_def next_event_Nil split: option.splits)
  note m = mk_dirs_made [OF ns(1)]
  have root: "root_of ls fs' = ?q" using ns assms(2) by (simp add: root_of_def)
  have new: "lookup_node ns (?q @ [p]) = None" if "plain_path p" for p
    using m assms(6) that by auto
  have "local_inv ls fs'" unfolding local_inv_def root
    using m new ns assms(1-5) by auto
  then show ?thesis using new ns(2,3) root by (simp add: local_blobs_def)
qed

interpretation lfs: blob_store "local_storage_ops s" "local_blobs s" "local_inv s" plain_path
  for s
  by unfold_locales
    (rule local_put_contract local_get_contract local_delete_contract; assumption)+

section \<open>Where the operations reach\<close>

text \<open>The only change the calls of package os make away from their target is a new directory.\<close>

definition kept :: "nodes \<Rightarrow> nodes \<Rightarrow> string list \<Rightarrow> bool" where
  "kept ns ns' q \<longleftrightarrow> lookup_node ns' q = lookup_node ns q
     \<or> lookup_node ns q = None \<and> lookup_node ns' q = Some DirNode"

lemma kept_refl [simp]: "kept ns ns q"
  by (simp add: kept_def)

lemma map_of_filter_other: "q \<noteq> p \<Longrightarrow> map_of (filter (\<lambda>e. fst e \<noteq> p) ns) q = map_of ns q"
  by (induction ns) auto

lemma lookup_put_other: "q \<noteq> p \<Longrightarrow> lookup_node (put_node ns p n) q = lookup_node ns q"
  by (auto simp: lookup_node_def put_node_def map_of_filter_other)

lemma lookup_drop_other: "q \<noteq> p \<Longrightarrow> lookup_node (drop_node ns p) q = lookup_node ns q"
  by (auto simp: lookup_node_def drop_node_def map_of_filter_other)

lemma kept_trans: "kept ns ns' q \<Longrightarrow> kept ns' ns'' q \<Longrightarrow> kept ns ns'' q"
  by (auto simp: kept_def)

lemma kept_mk_dirs: "mk_dirs ns at ws = Some ns' \<Longrightarrow> kept ns ns' q"
proof (induction ws arbitrary: ns at)
  case Nil
  then show ?case by (auto split: if_splits)
next
  case (Cons w ws)
  show ?case
  proof (cases "lookup_node ns (at @ [w])")
    case None
    with Cons.prems have "mk_dirs (put_node ns (at @ [w]) DirNode) (at @ [w]) ws = Some ns'"
      by (auto split: option.splits node.splits)
    from Cons.IH [OF this] None show ?thesis by (auto simp: kept_def lookup_put_node split: if_splits)
  next
    case (Some n)
    with Cons show ?thesis by (auto split: option.splits node.splits)
  qed
qed

lemma next_event_keeps:
  "next_event fs = (ev, fs') \<Longrightarrow> nodes fs' = nodes fs"
  "next_event fs = (ev, fs') \<Longrightarrow> cwd fs' = cwd fs"
  by (auto simp: next_event_def split: list.splits)

lemma os_MkdirAll_keeps:
  assumes "os_MkdirAll p fs = (err, fs')"
  shows "kept (nodes fs) (nodes fs') q" "cwd fs' = cwd fs"
proof -
  obtain ev fs1 where ev: "next_event fs = (ev, fs1)" by fastforce
  show "kept (nodes fs) (nodes fs') q" "cwd fs' = cwd fs"
    using assms ev next_event_keeps [OF ev] kept_mk_dirs
    by (auto simp: os_MkdirAll_def bind_eq_Some_conv split: disk_event.splits option.splits)
qed

text \<open>And it lies on the way to the target.\<close>

lemma mk_dirs_way:
  assumes "mk_dirs ns at ws = Some ns'" "lookup_node ns' q \<noteq> lookup_node ns q"
  shows "\<exists>k. q = at @ take k ws"
  using assms
proof (induction ws arbitrary: ns at)
  case (Cons w ws)
  then obtain ns1 where ns1: "mk_dirs ns1 (at @ [w]) ws = Some ns'" "ns1 = ns \<or> ns1 = put_node ns (at @ [w]) DirNode"
    by (auto split: option.splits node.splits)
  show ?case
  proof (cases "lookup_node ns' q = lookup_node ns1 q")
    case True
    then have "q = at @ take 1 (w # ws)" using ns1(2) Cons.prems(2) lookup_put_other [of q "at @ [w]" ns DirNode] by auto
    then show ?thesis by blast
  next
    case False
    from Cons.IH [OF ns1(1) this] obtain k where "q = at @ take (Suc k) (w # ws)" by auto
    then show ?thesis by blast
  qed
qed (auto split: if_splits)

lemma below_take: "below (take k t) t"
  by (simp add: below_def min_def)

lemma below_comparable:
  assumes "below q t" "below b t" "\<not> below b q"
  shows "below q b"
proof -
  have q: "q = take (length q) t" and b: "b = take (length b) t" using assms(1,2) by (simp_all add: below_def)
  have "\<not> length b \<le> length q"
  proof
    assume "length b \<le> length q"
    then have "take (length b) q = take (length b) t" using q by (metis min.absorb1 take_take)
    then show False using assms(3) b by (simp add: below_def)
  qed
  then show ?thesis using q b by (metis below_def min.absorb1 nat_le_linear take_take)
qed

lemma below_trans: "below a b \<Longrightarrow> below b c \<Longrightarrow> below a c"
  unfolding below_def by (metis length_take min.absorb2 min.cobounded1 take_take)

text \<open>The directory part of a path is a step up or down from it, or the same place.\<close>

lemma clean_elem_one: "clean_elem True S w = S \<or> (\<exists>v. clean_elem True S w = v # S) \<or> clean_elem True S w = tl S"
  by (cases S) (auto simp: clean_elem.simps)

lemma Dir_cases:
  obtains (bare) "slash \<notin> set p" "Dir p = ''.''"
  | (deep) a w where "p = a @ slash # w" "slash \<notin> set w"
proof (cases "slash \<in> set p")
  case True
  then obtain u v where uv: "rev p = u @ slash # v" "slash \<notin> set u" by (metis set_rev split_list_first)
  then have "p = rev v @ slash # rev u" by (metis append.assoc append_Cons append_Nil rev.simps(2) rev_append rev_rev_ident)
  then show ?thesis using uv(2) deep by simp
next
  case False
  then have "dropWhile (\<lambda>c. c \<noteq> slash) (rev p) = []" by (simp add: dropWhile_eq_Nil_conv) metis
  then show ?thesis using False bare by (simp add: Dir_def Clean_def)
qed

lemma Dir_one_step:
  assumes "IsAbs d" shows "\<exists>w. abs_stack d p = clean_elem True (abs_stack d (Dir p)) w"
proof (cases p rule: Dir_cases)
  case bare
  then have "abs_stack d p = clean_elem True (path_stack d) p"
    by (cases p) (auto simp: abs_stack_def IsAbs_def Split_no_sep)
  then show ?thesis using bare(2) abs_stack_dot [of d] by auto
next
  case (deep a w)
  note D = Dir_append [OF deep(2), of a]
  show ?thesis
  proof (cases "a = []")
    case True
    have "abs_stack d p = clean_elem True [] w"
      using deep True by (simp add: abs_stack_def path_stack_def IsAbs_def clean_stack_def Split_no_sep)
    moreover have "abs_stack d (Dir p) = []"
      using D deep(1) True by (simp add: abs_stack_def path_stack_def IsAbs_def clean_stack_def Clean_def)
    ultimately show ?thesis by auto
  next
    case False
    have "abs_stack d p = clean_elem True (abs_stack d a) w"
      using False deep by (simp add: abs_stack_def IsAbs_append path_stack_append Split_append_sep Split_no_sep)
    moreover have "abs_stack d (Dir p) = abs_stack d a"
      using D deep(1) False abs_stack_Clean [OF assms, of "a @ ''/''"] abs_stack_trailing [OF False, of d] by simp
    ultimately show ?thesis by auto
  qed
qed

lemma Dir_comparable:
  assumes "IsAbs d"
  shows "below (rev (abs_stack d p)) (rev (abs_stack d (Dir p))) \<or> below (rev (abs_stack d (Dir p))) (rev (abs_stack d p))"
proof -
  obtain w where w: "abs_stack d p = clean_elem True (abs_stack d (Dir p)) w" using Dir_one_step [OF assms] by blast
  have "below (rev (tl S)) (rev S)" for S :: "string list" by (cases S) (simp_all add: below_def)
  then show ?thesis using clean_elem_one [of "abs_stack d (Dir p)" w] unfolding w by (auto simp: below_def)
qed

text \<open>From \<open>ns\<close> to \<open>ns'\<close> nothing changed at \<open>q\<close>, or a directory was made there on the way to \<open>b\<close>.\<close>

definition unchanged_but_way :: "nodes \<Rightarrow> nodes \<Rightarrow> string list \<Rightarrow> string list \<Rightarrow> bool" where
  "unchanged_but_way ns ns' b q \<longleftrightarrow> lookup_node ns' q = lookup_node ns q
     \<or> below q b \<and> lookup_node ns q = None \<and> lookup_node ns' q = Some DirNode"

lemma os_MkdirAll_way:
  assumes "os_MkdirAll p fs = (err, fs')" "resolve (cwd fs) p = Some t"
  shows "unchanged_but_way (nodes fs) (nodes fs') t q"
proof (cases "lookup_node (nodes fs') q = lookup_node (nodes fs) q")
  case False
  obtain ev fs1 where ev: "next_event fs = (ev, fs1)" by fastforce
  have "\<exists>n. mk_dirs (nodes fs) [] (take n t) = Some (nodes fs')"
  proof (cases ev)
    case DiskOk
    then have "mk_dirs (nodes fs) [] (take (length t) t) = Some (nodes fs')"
      using assms ev next_event_keeps [OF ev] False by (auto simp: os_MkdirAll_def split: option.splits)
    then show ?thesis by blast
  next
    case (DiskErr n e)
    then have "mk_dirs (nodes fs) [] (take n t) = Some (nodes fs')"
      using assms ev next_event_keeps [OF ev] False by (auto simp: os_MkdirAll_def split: option.splits)
    then show ?thesis by blast
  qed
  then obtain n where n: "mk_dirs (nodes fs) [] (take n t) = Some (nodes fs')" by blast
  from mk_dirs_way [OF n False] have "below q t" using below_take by (metis append_Nil take_take)
  then show ?thesis using os_MkdirAll_keeps(1) [OF assms(1), of q] False by (auto simp: kept_def unchanged_but_way_def)
qed (simp add: unchanged_but_way_def)

lemma os_Create_keeps:
  assumes "os_Create p fs = (err, fs')"
  shows "resolve (cwd fs) p \<noteq> Some q \<Longrightarrow> lookup_node (nodes fs') q = lookup_node (nodes fs) q"
    and "cwd fs' = cwd fs"
proof -
  obtain ev fs1 where ev: "next_event fs = (ev, fs1)" by fastforce
  show "resolve (cwd fs) p \<noteq> Some q \<Longrightarrow> lookup_node (nodes fs') q = lookup_node (nodes fs) q"
    using assms ev next_event_keeps [OF ev]
    by (auto simp: os_Create_def lookup_put_other split: disk_event.splits option.splits if_splits)
  show "cwd fs' = cwd fs"
    using assms ev next_event_keeps [OF ev]
    by (auto simp: os_Create_def split: disk_event.splits option.splits if_splits)
qed

lemma io_Copy_to_keeps:
  "io_Copy_to p rd fs = (res, fs') \<Longrightarrow> resolve (cwd fs) p \<noteq> Some q \<Longrightarrow>
   lookup_node (nodes fs') q = lookup_node (nodes fs) q"
proof -
  obtain ev fs1 where ev: "next_event fs = (ev, fs1)" by fastforce
  show "io_Copy_to p rd fs = (res, fs') \<Longrightarrow> resolve (cwd fs) p \<noteq> Some q \<Longrightarrow> ?thesis"
    using ev next_event_keeps [OF ev]
    by (auto simp: io_Copy_to_def lookup_put_other split: disk_event.splits option.splits prod.splits)
qed

lemma os_Remove_keeps:
  "os_Remove p fs = (err, fs') \<Longrightarrow> resolve (cwd fs) p \<noteq> Some q \<Longrightarrow>
   lookup_node (nodes fs') q = lookup_node (nodes fs) q"
proof -
  obtain ev fs1 where ev: "next_event fs = (ev, fs1)" by fastforce
  show "os_Remove p fs = (err, fs') \<Longrightarrow> resolve (cwd fs) p \<noteq> Some q \<Longrightarrow> ?thesis"
    using ev next_event_keeps [OF ev]
    by (auto simp: os_Remove_def lookup_drop_other
        split: disk_event.splits option.splits node.splits if_splits)
qed

lemma sanitized_target:
  assumes "cwd fs = Inr d" "IsAbs d" "sanitizePath s path fs = Inr p"
    and "\<not> below (rev (abs_stack d (basePath s))) q"
  shows "resolve (cwd fs) (Join (basePath s) p) \<noteq> Some q"
  using sanitizePath_below [OF assms(1-3)] assms(1,2,4) by (auto simp: resolve_Inr)

text \<open>
  C10: Whatever path they are given and whichever of their system calls fail, \<open>Put\<close> and \<open>Delete\<close>
  of the local storage leave everything outside the base directory as it was: no file and no
  directory there changes or goes, and none appears, except that \<open>Put\<close> makes the missing directories
  among those that contain the base.
\<close>

theorem local_writes_stay_below_base:
  assumes "cwd fs = Inr d" and "IsAbs d" and "\<not> below (rev (abs_stack d (basePath s))) q"
  shows "(lookup_node (nodes (snd (local_Put s path rd sz fs))) q = lookup_node (nodes fs) q
      \<or> below q (rev (abs_stack d (basePath s))) \<and> lookup_node (nodes fs) q = None
          \<and> lookup_node (nodes (snd (local_Put s path rd sz fs))) q = Some DirNode)
    \<and> lookup_node (nodes (snd (local_Delete s path fs))) q = lookup_node (nodes fs) q"
proof (cases "sanitizePath s path fs")
  case (Inl e)
  then show ?thesis by (simp add: local_Put_def local_Delete_def)
next
  case (Inr p)
  let ?full = "Join (basePath s) p" and ?b = "rev (abs_stack d (basePath s))"
  let ?t = "rev (abs_stack d (Dir ?full))"
  note other = sanitized_target [OF assms(1,2) Inr assms(3)]
  obtain e1 fs1 where m: "os_MkdirAll (Dir ?full) fs = (e1, fs1)" by fastforce
  obtain e2 fs2 where c: "os_Create ?full fs1 = (e2, fs2)" by fastforce
  obtain r3 fs3 where w: "io_Copy_to ?full rd fs2 = (r3, fs3)" by fastforce
  obtain e4 fs4 where r: "os_Remove ?full fs = (e4, fs4)" by fastforce
  have "resolve (cwd fs) (Dir ?full) = Some ?t" using assms(1,2) by (simp add: resolve_Inr)
  note way = os_MkdirAll_way [OF m this, of q]
  have "below q ?b" if "below q ?t"
    using Dir_comparable [OF assms(2), of ?full] sanitizePath_below [OF assms(1,2) Inr]
      that below_trans below_comparable assms(3) by metis
  then have k1: "unchanged_but_way (nodes fs) (nodes fs1) ?b q" and c1: "cwd fs1 = cwd fs"
    using way os_MkdirAll_keeps(2) [OF m] by (auto simp: unchanged_but_way_def)
  have k2: "unchanged_but_way (nodes fs) (nodes fs2) ?b q" and c2: "cwd fs2 = cwd fs"
    using os_Create_keeps(1) [OF c, of q] os_Create_keeps(2) [OF c] k1 c1 other by (auto simp: unchanged_but_way_def)
  have k3: "unchanged_but_way (nodes fs) (nodes fs3) ?b q"
    using io_Copy_to_keeps [OF w, of q] k2 c2 other by (auto simp: unchanged_but_way_def)
  have "unchanged_but_way (nodes fs) (nodes (snd (local_Put s path rd sz fs))) ?b q"
    using Inr m c w k1 k2 k3 by (auto simp: local_Put_def Let_def split: option.split prod.split)
  moreover have "lookup_node (nodes (snd (local_Delete s path fs))) q = lookup_node (nodes fs) q"
    using Inr r os_Remove_keeps [OF r other] by (auto simp: local_Delete_def split: option.split)
  ultimately show ?thesis by (auto simp: unchanged_but_way_def)
qed

definition example_fs :: localfs where
  "example_fs = \<lparr>nodes = [([''srv''], DirNode), ([''srv'', ''data''], DirNode), ([''etc''], DirNode),
     ([''etc'', ''passwd''], FileNode [1, 2, 3])], cwd = Inr ''/srv'', disk = []\<rparr>"

theorem local_writes_stay_below_base_witness:
  "lookup_node (nodes (snd (local_Delete \<lparr>basePath = ''data''\<rparr> ''/../etc/passwd'' example_fs)))
     [''etc'', ''passwd''] = Some (FileNode [1, 2, 3])"
proof -
  have "cwd example_fs = Inr ''/srv''" "IsAbs ''/srv''" by code_simp+
  moreover have "\<not> below (rev (abs_stack ''/srv'' (basePath \<lparr>basePath = ''data''\<rparr>))) [''etc'', ''passwd'']"
    by code_simp
  ultimately show ?thesis
    using local_writes_stay_below_base [of example_fs "''/srv''" "\<lparr>basePath = ''data''\<rparr>"
        "[''etc'', ''passwd'']" "''/../etc/passwd''"]
    by (simp add: example_fs_def lookup_node_def)
qed

text \<open>
  C40: What \<open>Get\<close> of the local storage delivers is the content of a file at or below the base
  directory (or the error of reading a directory there), and it changes no file.
\<close>

theorem local_reads_stay_below_base:
  assumes "cwd fs = Inr d" and "IsAbs d" and "local_Get s path fs = (Inr rd, fs')"
  shows "nodes fs' = nodes fs \<and>
    (\<exists>q. below (rev (abs_stack d (basePath s))) q \<and>
       (lookup_node (nodes fs) q = Some (FileNode (rd_data rd)) \<and> rd_err rd = None
        \<or> lookup_node (nodes fs) q = Some DirNode \<and> rd_data rd = []))"
proof -
  obtain p where p: "sanitizePath s path fs = Inr p"
    using assms(3) by (auto simp: local_Get_def split: sum.splits)
  let ?q = "rev (abs_stack d (Join (basePath s) p))"
  have "resolve (cwd fs) (Join (basePath s) p) = Some ?q" using assms(1,2) by (simp add: resolve_Inr)
  moreover obtain ev fs1 where ev: "next_event fs = (ev, fs1)" by fastforce
  moreover have "below (rev (abs_stack d (basePath s))) ?q" using sanitizePath_below [OF assms(1,2) p] .
  ultimately show ?thesis using assms(3) p next_event_keeps [OF ev]
    by (auto simp: local_Get_def os_Open_def split: sum.splits disk_event.splits option.splits node.splits)
qed

theorem local_reads_stay_below_base_witness:
  "\<exists>q. below [''srv'', ''data''] q \<and> lookup_node (nodes example_fs) q = Some DirNode"
proof -
  have "cwd example_fs = Inr ''/srv''" "IsAbs ''/srv''" by code_simp+
  moreover have "local_Get \<lparr>basePath = ''data''\<rparr> ''/'' example_fs =
      (Inr \<lparr>rd_data = [], rd_err = Some (path_error ''read'' ''data'' ''is a directory'')\<rparr>, example_fs)"
    by code_simp
  moreover have "rev (abs_stack ''/srv'' (basePath \<lparr>basePath = ''data''\<rparr>)) = [''srv'', ''data'']" by code_simp
  ultimately show ?thesis
    using local_reads_stay_below_base [of example_fs "''/srv''" "\<lparr>basePath = ''data''\<rparr>" "''/''"] by fastforce
qed

text \<open>
  A path that still has two dots in a row after cleaning is refused by every operation before
  any system call: the state, the schedule of the disk included, is untouched.
\<close>

theorem local_traversal_refused:
  assumes "Contains (TrimPrefix (Clean path) ''/'') ''..''"
  shows "\<exists>e. local_Put s path rd sz fs = (put_error (wrapf ''invalid path: '' e), fs)
    \<and> local_Get s path fs = (Inl (wrapf ''invalid path: '' e), fs)
    \<and> local_Delete s path fs = (Some (wrapf ''invalid path: '' e), fs)
    \<and> local_List s path fs = (Inl (wrapf ''invalid prefix: '' e), fs)"
proof -
  obtain e where "sanitizePath s path fs = Inl e"
    using assms by (auto simp: sanitizePath_def)
  then show ?thesis
    by (intro exI [of _ e]) (simp add: local_Put_def local_Get_def local_Delete_def local_List_def)
qed

theorem local_traversal_refused_witness:
  "\<exists>e. local_Delete \<lparr>basePath = ''data''\<rparr> ''a/../../secret'' example_fs = (Some e, example_fs)"
proof -
  have "Contains (TrimPrefix (Clean ''a/../../secret'') ''/'') ''..''" by code_simp
  from local_traversal_refused [OF this, of "\<lparr>basePath = ''data''\<rparr>" _ _ example_fs]
  show ?thesis by blast
qed

text \<open>
  C39: On a disk without faults the local storage is a map from names to contents: what \<open>Put\<close>
  stores under a plain name \<open>Get\<close> returns until it is deleted, other names keep their content,
  and deleting a name that was new gives back the old contents.
\<close>

theorem local_put_get_delete:
  assumes "local_inv s fs" and "plain_path p" and "rd_err rd = None"
    and "local_Put s p rd sz fs = (pr, fs')"
  shows "pr_err pr = None \<and> pr_n pr = int (length (rd_data rd))
    \<and> local_Get s p fs' = (Inr (reader_of (rd_data rd)), fs')
    \<and> local_blobs s fs' = (local_blobs s fs)(p \<mapsto> rd_data rd)
    \<and> (\<exists>fs''. local_Delete s p fs' = (None, fs'') \<and>
         local_blobs s fs'' = (local_blobs s fs)(p := None))"
proof -
  have put: "st_Put (local_storage_ops s) p rd sz fs = (pr, fs')"
    using assms(4) by (simp add: local_storage_ops_def)
  from lfs.put [OF assms(1-3), of sz] put
  have pr: "pr = \<lparr>pr_n = int (length (rd_data rd)), pr_err = None, pr_consumed = rd_data rd\<rparr>"
    and inv: "local_inv s fs'" and blobs: "local_blobs s fs' = (local_blobs s fs)(p \<mapsto> rd_data rd)"
    by auto
  from lfs.delete_hit [OF inv assms(2), of "rd_data rd"] blobs
  obtain fs'' where "st_Delete (local_storage_ops s) p fs' = (None, fs'')"
      "local_blobs s fs'' = (local_blobs s fs)(p := None)" by auto
  with pr blobs lfs.put_get [OF assms(1-3) put] show ?thesis
    by (auto simp: local_storage_ops_def)
qed

lemma example_inv: "local_inv \<lparr>basePath = ''data''\<rparr> example_fs"
proof -
  have root: "root_of \<lparr>basePath = ''data''\<rparr> example_fs = [''srv'', ''data'']" by code_simp
  have abs: "IsAbs ''/srv''" by code_simp
  have dirs: "lookup_node (nodes example_fs) (take n [''srv'', ''data'']) = Some DirNode" for n
    by (cases n; cases "n - 1"; simp add: example_fs_def lookup_node_def)
  have "lookup_node (nodes example_fs) ([''srv'', ''data''] @ [p]) \<noteq> Some DirNode" for p
    by (simp add: example_fs_def lookup_node_def)
  then show ?thesis using abs dirs unfolding local_inv_def root by (simp add: example_fs_def)
qed

theorem local_put_get_delete_witness:
  "\<exists>fs'. local_Get \<lparr>basePath = ''data''\<rparr> ''blob'' fs' = (Inr (reader_of [7, 8]), fs')"
proof -
  have "plain_path ''blob''" by code_simp
  moreover obtain pr fs' where
    "local_Put \<lparr>basePath = ''data''\<rparr> ''blob'' (reader_of [7, 8]) 2 example_fs = (pr, fs')" by fastforce
  ultimately show ?thesis
    using local_put_get_delete [OF example_inv, of "''blob''" "reader_of [7, 8]"] by fastforce
qed

end
