(* ===== verification/Database.thy ===== *)
theory Database
  imports Model
begin

text \<open>
  The database of migrations/001_initial.sql and the SQL statements that
  internal/repository/file.go sends to it, as functions on the two tables. A statement checks
  what the schema declares: the length and the encoding of text (\<open>VARCHAR(n)\<close> counts
  characters), \<open>NOT NULL\<close>, \<open>PRIMARY KEY\<close>, \<open>UNIQUE\<close>, the foreign key with
  \<open>ON DELETE RESTRICT\<close>, the range of \<open>INTEGER\<close>, and the trigger that sets \<open>updated_at\<close>.

  A table is the list of its rows in insertion order. Where SQL leaves an order open (rows
  with equal sort keys, \<open>LIMIT 1\<close> without an order) the list order stands for one the
  database may choose.
\<close>

section \<open>Tables\<close>

text \<open>
  A row of \<open>storage\<close> has the columns of the Go struct \<open>Storage\<close>, so it is one. The legacy
  columns of \<open>files\<close> may be NULL.
\<close>

record file_row =
  fr_id :: string
  fr_name :: string
  fr_storage_hash :: string
  fr_created_at :: time
  fr_size :: "int option"
  fr_content_type :: "string option"
  fr_storage_path :: "string option"
  fr_checksum :: "string option"

record db =
  storage_tbl :: "Storage list"
  files_tbl :: "file_row list"

definition empty_db :: db where
  "empty_db = \<lparr>storage_tbl = [], files_tbl = []\<rparr>"

section \<open>Values\<close>

definition pg_error :: "string \<Rightarrow> string \<Rightarrow> goerr" where
  "pg_error code msg = ErrorString (''ERROR: '' @ msg @ '' (SQLSTATE '' @ code @ '')'')"

definition text_param :: "string \<Rightarrow> string result" where
  "text_param s =
     (if ValidString s \<and> CHR 0x00 \<notin> set s then Inr s
      else Inl (pg_error ''22021'' ''invalid byte sequence for encoding UTF8''))"

text \<open>
  Assignment to \<open>VARCHAR(n)\<close>: a longer value is an error, unless the excess is blanks, which
  are dropped.
\<close>

definition varchar :: "nat \<Rightarrow> string \<Rightarrow> string result" where
  "varchar n s =
     (case text_param s of
        Inl e \<Rightarrow> Inl e
      | Inr s \<Rightarrow>
          (if RuneCountInString s \<le> n then Inr s
           else if list_all (\<lambda>r. r = 32) (drop n (runes s))
             then Inr (string_of_runes (take n (runes s)))
           else Inl (pg_error ''22001'' ''value too long for type character varying'')))"

definition int4 :: "int \<Rightarrow> int result" where
  "int4 n = (if - 2147483648 \<le> n \<and> n \<le> 2147483647 then Inr n
     else Inl (pg_error ''22003'' ''integer out of range''))"

text \<open>
  Input of type \<open>UUID\<close>: 32 hexadecimal digits of either case, a hyphen allowed after every
  fourth, braces allowed around all; the value prints in lower case with hyphens after the
  digits 8, 12, 16 and 20.
\<close>

definition lower_hex :: "char \<Rightarrow> char option" where
  "lower_hex c =
     (if c \<in> set hex_digits then Some c
      else if c \<in> set ''ABCDEF'' then Some (char_of (of_char c + 32 :: nat)) else None)"

fun uuid_digits :: "nat \<Rightarrow> string \<Rightarrow> (string \<times> string) option" where
  \<comment> \<open>the bytes still to read; the digits read and what follows them\<close>
  "uuid_digits 0 s = Some ([], s)"
| "uuid_digits (Suc n) s =
     (case s of
        a # b # rest \<Rightarrow>
          (case (lower_hex a, lower_hex b) of
             (Some x, Some y) \<Rightarrow>
               (case uuid_digits n (if n \<noteq> 0 \<and> even n \<and> rest \<noteq> [] \<and> hd rest = CHR ''-''
                                    then tl rest else rest) of
                  Some (ds, t) \<Rightarrow> Some (x # y # ds, t)
                | None \<Rightarrow> None)
           | _ \<Rightarrow> None)
      | _ \<Rightarrow> None)"

definition uuid_text :: "string \<Rightarrow> string" where
  "uuid_text ds = take 8 ds @ ''-'' @ take 4 (drop 8 ds) @ ''-'' @ take 4 (drop 12 ds) @ ''-''
     @ take 4 (drop 16 ds) @ ''-'' @ drop 20 ds"

definition uuid_in :: "string \<Rightarrow> string result" where
  "uuid_in s =
     (let bad = Inl (pg_error ''22P02'' (''invalid input syntax for type uuid: '' @ s));
          body = (if s \<noteq> [] \<and> hd s = CHR ''{'' then tl s else s);
          close = (if s \<noteq> [] \<and> hd s = CHR ''{'' then ''}'' else [])
      in case uuid_digits 16 body of
           Some (ds, t) \<Rightarrow> if t = close then Inr (uuid_text ds) else bad
         | None \<Rightarrow> bad)"

definition canonical_uuid :: "string \<Rightarrow> bool" where
  "canonical_uuid s \<longleftrightarrow> uuid_in s = Inr s"

section \<open>Statements on the storage table\<close>

definition select_storage :: "string \<Rightarrow> db \<Rightarrow> Storage option result \<times> db" where
  "select_storage hash d =
     (case text_param hash of
        Inl e \<Rightarrow> (Inl e, d)
      | Inr h \<Rightarrow> (Inr (find (\<lambda>s. Hash s = h) (storage_tbl d)), d))"

definition storage_row :: "Storage \<Rightarrow> Storage result" where
  \<comment> \<open>the row an insertion would store, with its text checked\<close>
  "storage_row s =
     (case varchar 64 (Hash s) of Inl e \<Rightarrow> Inl e | Inr h \<Rightarrow>
      case varchar 100 (StContentType s) of Inl e \<Rightarrow> Inl e | Inr ct \<Rightarrow>
      case varchar 500 (StStoragePath s) of Inl e \<Rightarrow> Inl e | Inr p \<Rightarrow>
      case int4 (ReferenceCount s) of Inl e \<Rightarrow> Inl e | Inr rc \<Rightarrow>
      Inr (s\<lparr>Hash := h, StContentType := ct, StStoragePath := p\<rparr>))"

text \<open>
  The size is the \<open>int64\<close> that \<open>io.Copy\<close> counted, whose range is the one of \<open>BIGINT\<close>, so the
  column takes it as it is. A \<open>time\<close> has the precision of \<open>TIMESTAMPTZ\<close>, to which pgx cuts the
  nanoseconds of \<open>time.Now\<close>.
\<close>

definition insert_storage :: "Storage \<Rightarrow> db \<Rightarrow> unit result \<times> db" where
  "insert_storage s d =
     (case storage_row s of
        Inl e \<Rightarrow> (Inl e, d)
      | Inr r \<Rightarrow>
          (if list_ex (\<lambda>x. Hash x = Hash r) (storage_tbl d)
             then (Inl (pg_error ''23505''
               ''duplicate key value violates unique constraint storage_pkey''), d)
           else if list_ex (\<lambda>x. StStoragePath x = StStoragePath r) (storage_tbl d)
             then (Inl (pg_error ''23505''
               ''duplicate key value violates unique constraint storage_storage_path_key''), d)
           else (Inr (), d\<lparr>storage_tbl := storage_tbl d @ [r]\<rparr>)))"

text \<open>
  \<open>UPDATE storage SET reference_count = reference_count + k, updated_at = CURRENT_TIMESTAMP
  WHERE hash = $1\<close>, with the new count of the row it changed.
\<close>

definition update_storage_ref :: "int \<Rightarrow> time \<Rightarrow> string \<Rightarrow> db \<Rightarrow> int option result \<times> db" where
  "update_storage_ref k now hash d =
     (case text_param hash of
        Inl e \<Rightarrow> (Inl e, d)
      | Inr h \<Rightarrow>
          (case find (\<lambda>s. Hash s = h) (storage_tbl d) of
             None \<Rightarrow> (Inr None, d)
           | Some s \<Rightarrow>
               (case int4 (ReferenceCount s + k) of
                  Inl e \<Rightarrow> (Inl e, d)
                | Inr n \<Rightarrow>
                    (Inr (Some n),
                     d\<lparr>storage_tbl := map (\<lambda>x. if Hash x = h
                         then x\<lparr>ReferenceCount := n, UpdatedAt := now\<rparr> else x) (storage_tbl d)\<rparr>))))"

definition delete_storage :: "string \<Rightarrow> db \<Rightarrow> unit result \<times> db" where
  \<comment> \<open>\<open>DELETE FROM storage WHERE hash = $1 AND reference_count = 0\<close>\<close>
  "delete_storage hash d =
     (case text_param hash of
        Inl e \<Rightarrow> (Inl e, d)
      | Inr h \<Rightarrow>
          (if list_ex (\<lambda>s. Hash s = h \<and> ReferenceCount s = 0) (storage_tbl d)
              \<and> list_ex (\<lambda>f. fr_storage_hash f = h) (files_tbl d)
           then (Inl (pg_error ''23503''
             ''update or delete on table storage violates foreign key constraint fk_files_storage_hash''), d)
           else (Inr (), d\<lparr>storage_tbl :=
             filter (\<lambda>s. \<not> (Hash s = h \<and> ReferenceCount s = 0)) (storage_tbl d)\<rparr>)))"

section \<open>Statements on the files table\<close>

definition insert_file :: "string \<Rightarrow> string \<Rightarrow> string \<Rightarrow> time \<Rightarrow> db \<Rightarrow> unit result \<times> db" where
  "insert_file i n hash now d =
     (case uuid_in i of Inl e \<Rightarrow> (Inl e, d) | Inr i \<Rightarrow>
      case varchar 255 n of Inl e \<Rightarrow> (Inl e, d) | Inr n \<Rightarrow>
      case varchar 64 hash of Inl e \<Rightarrow> (Inl e, d) | Inr h \<Rightarrow>
      if list_ex (\<lambda>f. fr_id f = i) (files_tbl d)
        then (Inl (pg_error ''23505'' ''duplicate key value violates unique constraint files_pkey''), d)
      else if \<not> list_ex (\<lambda>s. Hash s = h) (storage_tbl d)
        then (Inl (pg_error ''23503''
          ''insert or update on table files violates foreign key constraint fk_files_storage_hash''), d)
      else (Inr (), d\<lparr>files_tbl := files_tbl d @
        [\<lparr>fr_id = i, fr_name = n, fr_storage_hash = h, fr_created_at = now, fr_size = None,
          fr_content_type = None, fr_storage_path = None, fr_checksum = None\<rparr>]\<rparr>))"

text \<open>
  The legacy insertion names no \<open>storage_hash\<close>, a column that is \<open>NOT NULL\<close> and has no
  default, so after its values are read the row is refused.
\<close>

definition insert_legacy_file :: "File \<Rightarrow> db \<Rightarrow> unit result \<times> db" where
  "insert_legacy_file f d =
     (case uuid_in (ID f) of Inl e \<Rightarrow> (Inl e, d) | Inr i \<Rightarrow>
      case varchar 255 (Name f) of Inl e \<Rightarrow> (Inl e, d) | Inr n \<Rightarrow>
      case varchar 100 (ContentType f) of Inl e \<Rightarrow> (Inl e, d) | Inr ct \<Rightarrow>
      case varchar 500 (StoragePath f) of Inl e \<Rightarrow> (Inl e, d) | Inr p \<Rightarrow>
      case varchar 64 (Checksum f) of Inl e \<Rightarrow> (Inl e, d) | Inr ck \<Rightarrow>
      (Inl (pg_error ''23502''
         ''null value in column storage_hash of relation files violates not-null constraint''), d))"

definition delete_file :: "string \<Rightarrow> db \<Rightarrow> unit result \<times> db" where
  "delete_file i d =
     (case uuid_in i of
        Inl e \<Rightarrow> (Inl e, d)
      | Inr i \<Rightarrow> (Inr (), d\<lparr>files_tbl := filter (\<lambda>f. fr_id f \<noteq> i) (files_tbl d)\<rparr>))"

definition select_file :: "string \<Rightarrow> db \<Rightarrow> file_row option result \<times> db" where
  "select_file i d =
     (case uuid_in i of
        Inl e \<Rightarrow> (Inl e, d)
      | Inr i \<Rightarrow> (Inr (find (\<lambda>f. fr_id f = i) (files_tbl d)), d))"

definition join_rows :: "db \<Rightarrow> (file_row \<times> Storage) list" where
  \<comment> \<open>\<open>FROM files f JOIN storage s ON f.storage_hash = s.hash\<close>\<close>
  "join_rows d = [(f, s). f \<leftarrow> files_tbl d, s \<leftarrow> storage_tbl d, Hash s = fr_storage_hash f]"

definition select_join_by_id :: "string \<Rightarrow> db \<Rightarrow> (file_row \<times> Storage) option result \<times> db" where
  "select_join_by_id i d =
     (case uuid_in i of
        Inl e \<Rightarrow> (Inl e, d)
      | Inr i \<Rightarrow> (Inr (find (\<lambda>p. fr_id (fst p) = i) (join_rows d)), d))"

definition select_join_by_hash :: "string \<Rightarrow> db \<Rightarrow> (file_row \<times> Storage) option result \<times> db" where
  "select_join_by_hash hash d =
     (case text_param hash of
        Inl e \<Rightarrow> (Inl e, d)
      | Inr h \<Rightarrow> (Inr (find (\<lambda>p. fr_storage_hash (fst p) = h) (join_rows d)), d))"

definition select_join_all :: "db \<Rightarrow> (file_row \<times> Storage) list result \<times> db" where
  \<comment> \<open>\<open>ORDER BY f.created_at DESC\<close>\<close>
  "select_join_all d = (Inr (sort_key (\<lambda>p. - fr_created_at (fst p)) (join_rows d)), d)"

definition select_by_checksum :: "string \<Rightarrow> db \<Rightarrow> file_row option result \<times> db" where
  "select_by_checksum ck d =
     (case text_param ck of
        Inl e \<Rightarrow> (Inl e, d)
      | Inr c \<Rightarrow> (Inr (find (\<lambda>f. fr_checksum f = Some c) (files_tbl d)), d))"

definition select_files_all :: "db \<Rightarrow> file_row list result \<times> db" where
  "select_files_all d = (Inr (sort_key (\<lambda>f. - fr_created_at f) (files_tbl d)), d)"

end
