(* ===== verification/Schema.thy ===== *)
theory Schema
  imports Database RepositoryInterface
begin

text \<open>
  What the schema of migrations/001_initial.sql guarantees: the predicate \<open>db_wf\<close> collects its
  constraints (and that the legacy columns of \<open>files\<close>, which no statement that succeeds
  writes, stay NULL), and every statement of \<open>Database\<close> keeps it. The values that fit their
  columns pass unchanged, and what a column accepts fits it.
\<close>

section \<open>Values\<close>

lemma text_param_ok: "text_ok n s \<Longrightarrow> text_param s = Inr s"
  by (simp add: text_ok_def text_param_def)

lemma text_param_Inr: "text_param s = Inr t \<longleftrightarrow> t = s \<and> ValidString s \<and> CHR 0x00 \<notin> set s"
  by (auto simp: text_param_def)

lemma varchar_ok: "text_ok n s \<Longrightarrow> varchar n s = Inr s"
  by (simp add: varchar_def text_param_def text_ok_def)

lemma zero_byte_code: "(of_char (CHR 0x00) :: nat) = 0"
  by code_simp

lemma varchar_Inr:
  assumes "varchar n s = Inr t"
  shows "text_ok n t"
proof (cases "RuneCountInString s \<le> n")
  case True
  with assms show ?thesis
    by (auto simp: varchar_def text_param_def text_ok_def split: if_splits)
next
  case False
  with assms have t: "t = string_of_runes (take n (runes s))" and z: "CHR 0x00 \<notin> set s"
    by (auto simp: varchar_def text_param_def split: if_splits)
  have sc: "\<forall>r \<in> set (take n (runes s)). scalar r"
    by (auto dest: in_set_takeD intro: runes_scalar)
  have "of_char (CHR 0x00) \<notin> set (runes t)"
    using z runes_ascii_iff [of "CHR 0x00" s] unfolding t runes_string_of_runes [OF sc]
    by (auto simp: zero_byte_code dest: in_set_takeD)
  then have "CHR 0x00 \<notin> set t"
    using runes_ascii_iff [of "CHR 0x00" t] by (simp add: zero_byte_code)
  then show ?thesis
    unfolding t text_ok_def RuneCountInString_def runes_string_of_runes [OF sc]
    by (simp add: ValidString_string_of_runes [OF sc])
qed

lemma varchar_invalid: "\<not> ValidString s \<Longrightarrow> \<exists>e. varchar n s = Inl e"
  by (simp add: varchar_def text_param_def)

lemma int4_ok: "count_ok n \<Longrightarrow> int4 n = Inr n"
  by (simp add: count_ok_def int4_def)

lemma int4_Inr: "int4 n = Inr m \<longleftrightarrow> m = n \<and> count_ok n"
  by (auto simp: count_ok_def int4_def)

section \<open>UUIDs\<close>

lemma lower_hex_Some: "lower_hex c = Some x \<Longrightarrow> x \<in> set hex_digits"
proof -
  have "\<forall>c \<in> set ''ABCDEF''. char_of (of_char c + 32 :: nat) \<in> set hex_digits" by code_simp
  then show "lower_hex c = Some x \<Longrightarrow> x \<in> set hex_digits"
    by (auto simp: lower_hex_def simp del: list.set split: if_splits)
qed

lemma lower_hex_id: "c \<in> set hex_digits \<Longrightarrow> lower_hex c = Some c"
  by (simp add: lower_hex_def)

lemma uuid_digits_Some:
  "uuid_digits n s = Some (ds, t) \<Longrightarrow> length ds = 2 * n \<and> set ds \<subseteq> set hex_digits"
proof (induction n arbitrary: s ds t)
  case (Suc n)
  then obtain a b rest x y ds' where s: "s = a # b # rest" and x: "lower_hex a = Some x"
      and y: "lower_hex b = Some y" and ds: "ds = x # y # ds'"
      and r: "uuid_digits n (if n \<noteq> 0 \<and> even n \<and> rest \<noteq> [] \<and> hd rest = CHR ''-''
        then tl rest else rest) = Some (ds', t)"
    by (fastforce split: list.splits option.splits prod.splits)
  from Suc.IH [OF r] ds lower_hex_Some [OF x] lower_hex_Some [OF y] show ?case by simp
qed simp

lemma hyphen_not_hex: "CHR ''-'' \<notin> set hex_digits"
  by (simp add: hex_digits_def)

text \<open>Reading back the groups of hexadecimal digits that \<open>uuid_text\<close> writes.\<close>

fun grouped :: "nat \<Rightarrow> string \<Rightarrow> string" where
  \<comment> \<open>the digits of \<open>n\<close> bytes, with the hyphens that follow when \<open>m\<close> says so\<close>
  "grouped (Suc n) (a # b # ds) =
     a # b # (if n \<in> {12, 10, 8, 6} then CHR ''-'' # grouped n ds else grouped n ds)"
| "grouped _ ds = ds"

lemma hd_grouped: "ds \<noteq> [] \<Longrightarrow> hd (grouped n ds) = hd ds"
  by (cases "(n, ds)" rule: grouped.cases) auto

lemma grouped_Nil: "grouped n [] = []"
  by (cases n) auto

lemma uuid_digits_grouped:
  "length ds = 2 * n \<Longrightarrow> set ds \<subseteq> set hex_digits \<Longrightarrow> uuid_digits n (grouped n ds) = Some (ds, [])"
proof (induction n ds rule: grouped.induct)
  case (1 n a b ds)
  from "1.prems" have ds: "length ds = 2 * n" "set ds \<subseteq> set hex_digits"
      and ab: "lower_hex a = Some a" "lower_hex b = Some b"
    by (simp_all add: lower_hex_id)
  have nh: "grouped n ds \<noteq> [] \<Longrightarrow> hd (grouped n ds) \<noteq> CHR ''-''"
    using ds hyphen_not_hex hd_grouped [of ds n] grouped_Nil [of n] by (cases ds) auto
  show ?case
  proof (cases "n \<in> {12, 10, 8, 6}")
    case True
    then show ?thesis using ds ab "1.IH"(1) by auto
  next
    case False
    then show ?thesis using ds ab nh "1.IH"(2) by auto
  qed
qed auto

lemma uuid_text_grouped:
  assumes "length ds = 32"
  shows "uuid_text ds = grouped 16 ds"
proof -
  have "\<exists>a b c d es. xs = a # b # c # d # es \<and> length es = n" if "length xs = Suc (Suc (Suc (Suc n)))"
    for xs :: string and n
    using that by (auto simp: length_Suc_conv)
  note four = this
  from assms obtain a b c d es where "ds = a # b # c # d # es" "length es = 28"
    using four [of ds 28] by auto
  moreover then obtain a b c d fs where "es = a # b # c # d # fs" "length fs = 24"
    using four [of es 24] by auto
  moreover then obtain a b c d gs where "fs = a # b # c # d # gs" "length gs = 20"
    using four [of fs 20] by auto
  moreover then obtain a b c d hs where "gs = a # b # c # d # hs" "length hs = 16"
    using four [of gs 16] by auto
  moreover then obtain a b c d js where "hs = a # b # c # d # js" "length js = 12"
    using four [of hs 12] by auto
  moreover then obtain a b c d ks where "js = a # b # c # d # ks" "length ks = 8"
    using four [of js 8] by auto
  moreover then obtain a b c d ls where "ks = a # b # c # d # ls" "length ls = 4"
    using four [of ks 4] by auto
  moreover then obtain a b c d ms where "ls = a # b # c # d # ms" "length ms = 0"
    using four [of ls 0] by auto
  ultimately show ?thesis
    by (simp add: uuid_text_def numeral_eq_Suc)
qed

theorem uuid_in_canonical:
  assumes "uuid_in s = Inr t"
  shows "canonical_uuid t"
proof -
  from assms obtain ds where t: "t = uuid_text ds" and d: "length ds = 32" "set ds \<subseteq> set hex_digits"
    by (fastforce simp: uuid_in_def Let_def split: option.splits prod.splits if_splits
        dest: uuid_digits_Some)
  then have "hd t \<noteq> CHR ''{''" using hd_grouped [of ds 16] uuid_text_grouped [of ds]
    by (cases ds) (auto simp: hex_digits_def)
  moreover have "uuid_digits 16 t = Some (ds, [])"
    using t d uuid_text_grouped uuid_digits_grouped [of ds 16] by simp
  ultimately show ?thesis using t by (simp add: canonical_uuid_def uuid_in_def)
qed

section \<open>The constraints\<close>

definition row_ok :: "file_row \<Rightarrow> bool" where
  "row_ok f \<longleftrightarrow> canonical_uuid (fr_id f) \<and> text_ok 255 (fr_name f) \<and> text_ok 64 (fr_storage_hash f)
     \<and> fr_size f = None \<and> fr_content_type f = None \<and> fr_storage_path f = None \<and> fr_checksum f = None"

definition db_wf :: "db \<Rightarrow> bool" where
  "db_wf d \<longleftrightarrow>
     distinct (map Hash (storage_tbl d)) \<and> distinct (map StStoragePath (storage_tbl d)) \<and>
     list_all storage_ok (storage_tbl d) \<and>
     distinct (map fr_id (files_tbl d)) \<and> list_all row_ok (files_tbl d) \<and>
     list_all (\<lambda>f. list_ex (\<lambda>s. Hash s = fr_storage_hash f) (storage_tbl d)) (files_tbl d)"

lemma db_wf_empty [simp]: "db_wf empty_db"
  by (simp add: db_wf_def empty_db_def)

lemma row_ok_legacy: "row_ok f \<Longrightarrow> fr_checksum f = None \<and> fr_size f = None"
  by (simp add: row_ok_def)

lemma storage_row_Inr:
  "storage_row s = Inr r \<Longrightarrow> storage_ok r \<and> ReferenceCount r = ReferenceCount s \<and> StSize r = StSize s"
  by (auto simp: storage_row_def storage_ok_def int4_Inr split: sum.splits dest: varchar_Inr)

lemma storage_row_ok: "storage_ok s \<Longrightarrow> storage_row s = Inr s"
  by (simp add: storage_row_def storage_ok_def varchar_ok int4_ok)

lemmas list_pred_iff = list_all_iff list_ex_iff

lemma insert_storage_wf: "db_wf d \<Longrightarrow> db_wf (snd (insert_storage s d))"
  by (auto simp: insert_storage_def db_wf_def list_pred_iff split: sum.split dest!: storage_row_Inr)

text \<open>The row an update of the count leaves in place of each row.\<close>

definition with_count :: "string \<Rightarrow> int \<Rightarrow> time \<Rightarrow> Storage \<Rightarrow> Storage" where
  "with_count h n t x = (if Hash x = h then x\<lparr>ReferenceCount := n, UpdatedAt := t\<rparr> else x)"

lemma with_count_simps [simp]:
  "Hash (with_count h n t x) = Hash x" "StStoragePath (with_count h n t x) = StStoragePath x"
  "StSize (with_count h n t x) = StSize x" "StContentType (with_count h n t x) = StContentType x"
  by (simp_all add: with_count_def)

lemma update_storage_ref_cases:
  "update_storage_ref k t h d =
     (if \<not> ValidString h \<or> CHR 0x00 \<in> set h
      then (Inl (pg_error ''22021'' ''invalid byte sequence for encoding UTF8''), d)
      else case find (\<lambda>s. Hash s = h) (storage_tbl d) of
             None \<Rightarrow> (Inr None, d)
           | Some s \<Rightarrow>
               (case int4 (ReferenceCount s + k) of
                  Inl e \<Rightarrow> (Inl e, d)
                | Inr n \<Rightarrow> (Inr (Some n),
                    d\<lparr>storage_tbl := map (with_count h n t) (storage_tbl d)\<rparr>)))"
  by (auto simp: update_storage_ref_def text_param_def with_count_def [abs_def]
      split: option.split sum.split)

lemma db_wf_with_count:
  "db_wf d \<Longrightarrow> count_ok n \<Longrightarrow> db_wf (d\<lparr>storage_tbl := map (with_count h n t) (storage_tbl d)\<rparr>)"
  by (simp add: db_wf_def list_pred_iff comp_def image_iff)
    (auto simp: storage_ok_def with_count_def)

lemma update_storage_ref_wf: "db_wf d \<Longrightarrow> db_wf (snd (update_storage_ref k t h d))"
  by (auto simp: update_storage_ref_cases int4_Inr intro: db_wf_with_count
      split: option.split sum.split)

lemma delete_storage_wf: "db_wf d \<Longrightarrow> db_wf (snd (delete_storage h d))"
  by (auto simp: delete_storage_def db_wf_def list_pred_iff distinct_map_filter_key
      split: sum.split) fastforce+

lemma insert_file_wf: "db_wf d \<Longrightarrow> db_wf (snd (insert_file i n h t d))"
  by (auto simp: insert_file_def db_wf_def row_ok_def list_pred_iff
      split: sum.split dest: varchar_Inr uuid_in_canonical)

lemma insert_legacy_file_refused: "\<exists>e. insert_legacy_file f d = (Inl e, d)"
  by (auto simp: insert_legacy_file_def split: sum.split)

lemma delete_file_wf: "db_wf d \<Longrightarrow> db_wf (snd (delete_file i d))"
  by (auto simp: delete_file_def db_wf_def list_pred_iff distinct_map_filter_key split: sum.split)

lemma select_unchanged [simp]:
  "snd (select_storage h d) = d" "snd (select_file i d) = d" "snd (select_join_by_id i d) = d"
  "snd (select_join_by_hash h d) = d" "snd (select_by_checksum h d) = d"
  by (auto simp: select_storage_def select_file_def select_join_by_id_def select_join_by_hash_def
      select_by_checksum_def split: sum.split)

section \<open>The tables as maps\<close>

definition storages_of :: "db \<Rightarrow> string \<Rightarrow> Storage option" where
  "storages_of d h = find (\<lambda>s. Hash s = h) (storage_tbl d)"

definition row_ref :: "file_row \<Rightarrow> file_ref" where
  "row_ref f = \<lparr>ref_name = fr_name f, ref_hash = fr_storage_hash f, ref_created = fr_created_at f\<rparr>"

definition files_of :: "db \<Rightarrow> string \<Rightarrow> file_ref option" where
  "files_of d i = map_option row_ref (find (\<lambda>f. fr_id f = i) (files_tbl d))"

lemma storages_of_Some: "db_wf d \<Longrightarrow> storages_of d h = Some s \<longleftrightarrow> s \<in> set (storage_tbl d) \<and> Hash s = h"
  by (simp add: storages_of_def find_key_iff db_wf_def)

lemma storages_of_None: "storages_of d h = None \<longleftrightarrow> (\<forall>s \<in> set (storage_tbl d). Hash s \<noteq> h)"
  by (auto simp: storages_of_def find_None_iff)

lemma files_of_Some:
  "db_wf d \<Longrightarrow> files_of d i = Some r \<longleftrightarrow> (\<exists>f \<in> set (files_tbl d). fr_id f = i \<and> row_ref f = r)"
  by (auto simp: files_of_def find_key_iff db_wf_def)

lemma files_of_None: "files_of d i = None \<longleftrightarrow> (\<forall>f \<in> set (files_tbl d). fr_id f \<noteq> i)"
  by (auto simp: files_of_def find_None_iff)

lemma row_ref_hash [simp]: "ref_hash (row_ref f) = fr_storage_hash f"
  by (simp add: row_ref_def)

lemma dom_files_of: "dom (files_of d) = fr_id ` set (files_tbl d)"
  by (auto simp: dom_def files_of_def find_None_iff image_iff)

lemma storages_of_ok: "db_wf d \<Longrightarrow> storages_of d h = Some s \<Longrightarrow> storage_ok s \<and> Hash s = h \<and> text_ok 64 h"
  by (auto simp: storages_of_Some db_wf_def list_pred_iff storage_ok_def)

lemma storages_of_paths:
  "db_wf d \<Longrightarrow> storages_of d h = Some s \<Longrightarrow> storages_of d h' = Some s' \<Longrightarrow>
   StStoragePath s = StStoragePath s' \<Longrightarrow> h = h'"
  by (auto simp: storages_of_Some db_wf_def distinct_map inj_on_def)

lemma foreign_key_of: "db_wf d \<Longrightarrow> files_of d i = Some f \<Longrightarrow> storages_of d (ref_hash f) \<noteq> None"
  by (auto simp: files_of_Some db_wf_def list_pred_iff storages_of_None)

subsection \<open>Each statement on the maps\<close>

lemma select_storage_maps: "text_param h = Inr h \<Longrightarrow> select_storage h d = (Inr (storages_of d h), d)"
  by (simp add: select_storage_def storages_of_def)

lemma select_storage_miss: "storages_of d h = None \<Longrightarrow> select_storage h d = (Inr None, d) \<or>
    (\<exists>e. select_storage h d = (Inl e, d))"
  by (auto simp: select_storage_def storages_of_def text_param_def)

lemma insert_storage_maps:
  assumes "storage_ok s" "storages_of d (Hash s) = None"
    "\<forall>x \<in> set (storage_tbl d). StStoragePath x \<noteq> StStoragePath s"
  shows "\<exists>d'. insert_storage s d = (Inr (), d') \<and> storages_of d' = (storages_of d)(Hash s \<mapsto> s) \<and>
    files_tbl d' = files_tbl d"
proof -
  have "insert_storage s d = (Inr (), d\<lparr>storage_tbl := storage_tbl d @ [s]\<rparr>)"
    using assms by (auto simp: insert_storage_def storage_row_ok list_ex_iff storages_of_None)
  moreover have "find (\<lambda>x. Hash x = h) (storage_tbl d @ [s]) =
      (if h = Hash s then Some s else find (\<lambda>x. Hash x = h) (storage_tbl d))" for h
    using assms(2) by (simp add: find_append storages_of_def split: option.split)
  ultimately show ?thesis by (auto simp: storages_of_def [abs_def] fun_eq_iff)
qed

lemma insert_storage_taken:
  "storage_ok s \<Longrightarrow> storages_of d (Hash s) \<noteq> None \<Longrightarrow> \<exists>e. insert_storage s d = (Inl e, d)"
  using storages_of_None [of d "Hash s"]
  by (auto simp: insert_storage_def storage_row_ok list_ex_iff simp del: not_None_eq)

lemma update_storage_ref_maps:
  assumes "db_wf d" "storages_of d h = Some s" "count_ok (ReferenceCount s + k)"
  shows "\<exists>d'. update_storage_ref k t h d = (Inr (Some (ReferenceCount s + k)), d') \<and>
    storages_of d' = (storages_of d)(h \<mapsto> s\<lparr>ReferenceCount := ReferenceCount s + k, UpdatedAt := t\<rparr>) \<and>
    files_tbl d' = files_tbl d"
proof -
  have "text_ok 64 h" and s: "Hash s = h" using storages_of_ok assms by auto
  then have "ValidString h" "CHR 0x00 \<notin> set h" by (auto simp: text_ok_def)
  then have u: "update_storage_ref k t h d = (Inr (Some (ReferenceCount s + k)),
      d\<lparr>storage_tbl := map (with_count h (ReferenceCount s + k) t) (storage_tbl d)\<rparr>)"
    using assms(2,3) by (simp add: update_storage_ref_cases storages_of_def int4_ok)
  have "map_option (with_count h n t) (storages_of d h') =
      (if h' = h then Some (s\<lparr>ReferenceCount := n, UpdatedAt := t\<rparr>) else storages_of d h')" for h' n
  proof (cases "storages_of d h'")
    case None
    then show ?thesis using assms(2) by auto
  next
    case (Some x)
    then have "Hash x = h'" using storages_of_ok [OF assms(1)] by blast
    then have "with_count h n t x = (if h' = h then s\<lparr>ReferenceCount := n, UpdatedAt := t\<rparr> else x)"
      using Some assms(2) unfolding with_count_def by (cases "h' = h") simp_all
    then show ?thesis using Some by simp
  qed
  then show ?thesis using u
    by (auto simp: storages_of_def [abs_def] find_map_key [of Hash] fun_eq_iff)
qed

lemma storages_of_only: "db_wf d \<Longrightarrow> storages_of d (Hash x) = Some s \<Longrightarrow> x \<in> set (storage_tbl d) \<Longrightarrow> x = s"
  using storages_of_Some [of d "Hash x" x] by auto

lemma delete_storage_maps:
  assumes "db_wf d" "storages_of d h = Some s" "ReferenceCount s = 0"
    "\<forall>f \<in> set (files_tbl d). fr_storage_hash f \<noteq> h"
  shows "\<exists>d'. delete_storage h d = (Inr (), d') \<and> storages_of d' = (storages_of d)(h := None) \<and>
    files_tbl d' = files_tbl d"
proof -
  have "text_ok 64 h" using storages_of_ok assms by auto
  then have u: "delete_storage h d = (Inr (), d\<lparr>storage_tbl :=
      filter (\<lambda>s. \<not> (Hash s = h \<and> ReferenceCount s = 0)) (storage_tbl d)\<rparr>)"
    using assms(4) by (auto simp: delete_storage_def text_param_ok [of 64] list_ex_iff)
  have "find (\<lambda>s. Hash s = h') (filter (\<lambda>s. \<not> (Hash s = h \<and> ReferenceCount s = 0)) (storage_tbl d)) =
      (if h' = h then None else storages_of d h')" for h'
  proof (cases "h' = h")
    case True
    then show ?thesis using storages_of_only [OF assms(1)] assms(2,3) by (auto simp: find_None_iff)
  next
    case False
    then show ?thesis by (simp add: find_filter_key storages_of_def)
  qed
  with u show ?thesis by (auto simp: storages_of_def [abs_def] fun_eq_iff)
qed

lemma delete_storage_kept:
  assumes "db_wf d" "storages_of d h = Some s" "ReferenceCount s \<noteq> 0"
  shows "delete_storage h d = (Inr (), d)"
proof -
  have "text_ok 64 h" using storages_of_ok assms by auto
  moreover have "ReferenceCount x \<noteq> 0" if "x \<in> set (storage_tbl d)" "Hash x = h" for x
    using assms(2,3) storages_of_only [OF assms(1) _ that(1)] that(2) by auto
  ultimately show ?thesis
    by (auto simp: delete_storage_def text_param_ok [of 64] list_ex_iff filter_id_conv)
qed

lemma delete_storage_restricted:
  assumes "db_wf d" "storages_of d h = Some s" "ReferenceCount s = 0" "files_of d i = Some f" "ref_hash f = h"
  shows "\<exists>e. delete_storage h d = (Inl e, d)"
proof -
  have "text_ok 64 h" using storages_of_ok assms by auto
  moreover obtain x where "x \<in> set (files_tbl d)" "fr_storage_hash x = h"
    using files_of_Some [OF assms(1), of i f] assms(4,5) by auto
  moreover have "s \<in> set (storage_tbl d)" "Hash s = h"
    using assms(2) by (auto simp: storages_of_def find_Some_iff)
  ultimately show ?thesis using assms(3)
    by (auto simp: delete_storage_def text_param_ok [of 64] list_ex_iff)
qed

lemma insert_file_maps:
  assumes "canonical_uuid i" "text_ok 255 n" "text_ok 64 h" "storages_of d h \<noteq> None" "files_of d i = None"
  shows "\<exists>d'. insert_file i n h t d = (Inr (), d') \<and> storage_tbl d' = storage_tbl d \<and>
    files_of d' = (files_of d)(i \<mapsto> \<lparr>ref_name = n, ref_hash = h, ref_created = t\<rparr>)"
proof -
  have u: "insert_file i n h t d = (Inr (), d\<lparr>files_tbl := files_tbl d @
      [\<lparr>fr_id = i, fr_name = n, fr_storage_hash = h, fr_created_at = t, fr_size = None,
        fr_content_type = None, fr_storage_path = None, fr_checksum = None\<rparr>]\<rparr>)"
    using assms by (auto simp: insert_file_def canonical_uuid_def varchar_ok list_ex_iff
        storages_of_None files_of_None)
  have "find (\<lambda>f. fr_id f = i) (files_tbl d) = None"
    using assms(5) by (simp add: files_of_def)
  with u show ?thesis
    by (auto simp: files_of_def [abs_def] find_append fun_eq_iff row_ref_def split: option.split)
qed

lemma insert_file_invalid_name: "\<not> ValidString n \<Longrightarrow> \<exists>e. insert_file i n h t d = (Inl e, d)"
  using varchar_invalid [of n 255] by (auto simp: insert_file_def split: sum.split)

lemma delete_file_maps:
  assumes "canonical_uuid i"
  shows "\<exists>d'. delete_file i d = (Inr (), d') \<and> storage_tbl d' = storage_tbl d \<and>
    files_of d' = (files_of d)(i := None)"
proof -
  have "find (\<lambda>f. fr_id f = j) (filter (\<lambda>f. fr_id f \<noteq> i) xs) =
      (if j = i then None else find (\<lambda>f. fr_id f = j) xs)" for j and xs :: "file_row list"
    by (auto simp: find_filter_key find_None_iff)
  then show ?thesis using assms
    by (auto simp: delete_file_def canonical_uuid_def files_of_def [abs_def] fun_eq_iff
        simp del: find_None_iff)
qed

subsection \<open>The join\<close>

lemma join_rows_mem:
  "p \<in> set (join_rows d) \<longleftrightarrow> fst p \<in> set (files_tbl d) \<and> snd p \<in> set (storage_tbl d) \<and>
     Hash (snd p) = fr_storage_hash (fst p)"
  by (cases p) (auto simp: join_rows_def)

lemma find_join:
  assumes "db_wf d" "files_of d i = Some f" "storages_of d (ref_hash f) = Some s"
  shows "\<exists>r. find (\<lambda>p. fr_id (fst p) = i) (join_rows d) = Some (r, s) \<and> fr_id r = i \<and> row_ref r = f"
proof -
  from assms(1,2) obtain r where r: "r \<in> set (files_tbl d)" "fr_id r = i" "row_ref r = f"
    by (auto simp: files_of_Some)
  have s: "s \<in> set (storage_tbl d)" "Hash s = fr_storage_hash r"
    using assms(1,3) r by (auto simp: storages_of_Some)
  then have "find (\<lambda>p. fr_id (fst p) = i) (join_rows d) \<noteq> None"
    using r join_rows_mem [of "(r, s)" d] by (auto simp: find_None_iff)
  then obtain r' s' where f: "find (\<lambda>p. fr_id (fst p) = i) (join_rows d) = Some (r', s')" by auto
  then have r': "r' \<in> set (files_tbl d)" "s' \<in> set (storage_tbl d)" "Hash s' = fr_storage_hash r'"
      "fr_id r' = i"
    using find_Some_mem [OF f] by (auto simp: join_rows_mem)
  have "r' = r" using r r' assms(1) by (auto simp: db_wf_def distinct_map inj_on_def)
  moreover then have "s' = s" using s r' assms(1) by (auto simp: db_wf_def distinct_map inj_on_def)
  ultimately show ?thesis using f r by simp
qed

lemma find_join_miss: "files_of d i = None \<Longrightarrow> find (\<lambda>p. fr_id (fst p) = i) (join_rows d) = None"
  by (auto simp: files_of_None find_None_iff join_rows_mem)

end
