(* ===== verification/Repository.thy ===== *)
theory Repository
  imports Schema
begin

text \<open>
  internal/repository/file.go: \<open>FileRepository\<close>, the implementation of
  \<open>FileRepositoryInterface\<close> on PostgreSQL and Redis.

  The state holds the tables, the cache, the clock, and two schedules of outcomes. Each SQL
  statement takes the next entry of \<open>db_events\<close>, so that every database error the code handles
  can occur: a statement that never ran (\<open>DbFail\<close>), one that ran although its reply was lost
  (\<open>DbLost\<close>), one whose row was delivered and scanned before the error came, with its effect
  kept or rolled back (\<open>DbLate\<close>), and a result set cut off after some rows (\<open>DbCut\<close>). Each Redis command takes
  the next entry of \<open>cache_events\<close>, true for a command that fails. An empty schedule means
  that nothing fails.
\<close>

section \<open>State\<close>

datatype db_event = DbOk | DbFail goerr | DbLost goerr | DbLate bool goerr | DbCut nat goerr

record repo_state =
  db :: db
  db_events :: "db_event list"
  cache :: "string \<Rightarrow> (json \<times> time) option"
  cache_events :: "bool list"
  clock :: time

definition next_db_event :: "repo_state \<Rightarrow> db_event \<times> repo_state" where
  "next_db_event w = (case db_events w of [] \<Rightarrow> (DbOk, w) | ev # evs \<Rightarrow> (ev, w\<lparr>db_events := evs\<rparr>))"

definition next_cache_event :: "repo_state \<Rightarrow> bool \<times> repo_state" where
  "next_cache_event w =
     (case cache_events w of [] \<Rightarrow> (False, w) | ev # evs \<Rightarrow> (ev, w\<lparr>cache_events := evs\<rparr>))"

section \<open>The database and cache clients\<close>

definition run_sql :: "(db \<Rightarrow> 'a result \<times> db) \<Rightarrow> repo_state \<Rightarrow> 'a result \<times> repo_state" where
  "run_sql stmt w =
     (let (ev, w) = next_db_event w; (r, d) = stmt (db w) in
      case ev of
        DbOk \<Rightarrow> (r, w\<lparr>db := d\<rparr>)
      | DbFail e \<Rightarrow> (Inl e, w)
      | DbLost e \<Rightarrow> (Inl e, w\<lparr>db := d\<rparr>)
      | DbLate kept e \<Rightarrow> (Inl e, if kept then w\<lparr>db := d\<rparr> else w)
      | DbCut n e \<Rightarrow> (Inl e, w))"

text \<open>
  \<open>Row.Scan\<close> has filled its variables when an error comes after the row; this is the row. Only
  \<open>DecrementStorageRef\<close> returns a variable beside the error. (\<open>GetByID\<close> scans the legacy columns
  into the same variable afterwards, but under the schema no row has them.)
\<close>

definition scanned_row :: "(db \<Rightarrow> 'a option result \<times> db) \<Rightarrow> repo_state \<Rightarrow> 'a option" where
  "scanned_row stmt w =
     (case (fst (next_db_event w), fst (stmt (db w))) of (DbLate kept e, Inr row) \<Rightarrow> row | _ \<Rightarrow> None)"

text \<open>
  \<open>db.Query\<close>: the rows that \<open>rows.Next\<close> delivers. When the result set is cut off,
  \<open>rows.Next\<close> just stops; only \<open>rows.Err\<close>, which the program never calls, would tell.
\<close>

definition run_query :: "(db \<Rightarrow> 'a list result \<times> db) \<Rightarrow> repo_state \<Rightarrow> 'a list result \<times> repo_state" where
  "run_query stmt w =
     (let (ev, w) = next_db_event w; (r, d) = stmt (db w) in
      case ev of
        DbOk \<Rightarrow> (r, w)
      | DbFail e \<Rightarrow> (Inl e, w)
      | DbLost e \<Rightarrow> (Inl e, w)
      | DbLate kept e \<Rightarrow> (Inl e, w)
      | DbCut n e \<Rightarrow> (map_sum id (take n) r, w))"

definition cache_get :: "string \<Rightarrow> repo_state \<Rightarrow> json option \<times> repo_state" where
  \<comment> \<open>a failure is as good as a miss; an expired entry is gone\<close>
  "cache_get k w =
     (let (down, w) = next_cache_event w in
      ((if down then None
        else (case cache w k of
                Some (j, expiry) \<Rightarrow> if clock w < expiry then Some j else None
              | None \<Rightarrow> None)), w))"

definition cache_set :: "string \<Rightarrow> json \<Rightarrow> time \<Rightarrow> repo_state \<Rightarrow> repo_state" where
  "cache_set k j ttl w =
     (let (down, w) = next_cache_event w in
      if down then w else w\<lparr>cache := (cache w)(k \<mapsto> (j, clock w + ttl))\<rparr>)"

definition cache_del :: "string \<Rightarrow> repo_state \<Rightarrow> repo_state" where
  "cache_del k w =
     (let (down, w) = next_cache_event w in
      if down then w else w\<lparr>cache := (cache w)(k := None)\<rparr>)"

definition one_hour :: time where
  "one_hour = 3600000000"

definition ten_minutes :: time where
  "ten_minutes = 600000000"

definition ErrNoRows :: goerr where
  "ErrNoRows = ErrorString ''no rows in result set''"

definition scan_null :: goerr where
  "scan_null = ErrorString ''cannot scan NULL''"

definition file_key :: "string \<Rightarrow> string" where
  "file_key i = ''file:'' @ i"

definition list_key :: string where
  "list_key = ''file_list''"

section \<open>Storage rows\<close>

definition GetStorageByHash :: "string \<Rightarrow> repo_state \<Rightarrow> Storage option result \<times> repo_state" where
  \<comment> \<open>a pointer and an error: never a nil pointer without an error here\<close>
  "GetStorageByHash hash w =
     (case run_sql (select_storage hash) w of
        (Inl e, w) \<Rightarrow> (Inl e, w)
      | (Inr None, w) \<Rightarrow> (Inl ErrNoRows, w)
      | (Inr (Some s), w) \<Rightarrow> (Inr (Some s), w))"

definition CreateStorage :: "Storage \<Rightarrow> repo_state \<Rightarrow> goerr option \<times> repo_state" where
  "CreateStorage storage w =
     (case run_sql (insert_storage storage) w of
        (Inl e, w) \<Rightarrow> (Some e, w)
      | (Inr u, w) \<Rightarrow> (None, w))"

definition IncrementStorageRef :: "string \<Rightarrow> repo_state \<Rightarrow> goerr option \<times> repo_state" where
  "IncrementStorageRef hash w =
     (case run_sql (update_storage_ref 1 (clock w) hash) w of
        (Inl e, w) \<Rightarrow> (Some e, w)
      | (Inr n, w) \<Rightarrow> (None, w))"

definition DecrementStorageRef :: "string \<Rightarrow> repo_state \<Rightarrow> (int \<times> goerr option) \<times> repo_state" where
  "DecrementStorageRef hash w =
     (let stmt = update_storage_ref (- 1) (clock w) hash in
      case run_sql stmt w of
        (Inl e, w') \<Rightarrow> ((case scanned_row stmt w of Some n \<Rightarrow> n | None \<Rightarrow> 0, Some e), w')
      | (Inr None, w') \<Rightarrow> ((0, Some ErrNoRows), w')
      | (Inr (Some n), w') \<Rightarrow> ((n, None), w'))"

definition DeleteStorage :: "string \<Rightarrow> repo_state \<Rightarrow> goerr option \<times> repo_state" where
  "DeleteStorage hash w =
     (case run_sql (delete_storage hash) w of
        (Inl e, w) \<Rightarrow> (Some e, w)
      | (Inr u, w) \<Rightarrow> (None, w))"

section \<open>File rows\<close>

text \<open>
  What the scan of a joined row builds, with the legacy fields copied from the storage row.
\<close>

definition join_file :: "file_row \<Rightarrow> Storage \<Rightarrow> File" where
  "join_file f s =
     \<lparr>ID = fr_id f, Name = fr_name f, StorageHash = fr_storage_hash f, CreatedAt = fr_created_at f,
      FStorage = Some s, Size = StSize s, ContentType = StContentType s,
      StoragePath = StStoragePath s, Checksum = Hash s\<rparr>"

text \<open>The scan of a row by its legacy columns: NULL does not scan into a string or an integer.\<close>

definition legacy_file :: "file_row \<Rightarrow> File result" where
  "legacy_file f =
     (case (fr_size f, fr_content_type f, fr_checksum f, fr_storage_path f) of
        (Some sz, Some ct, Some ck, Some p) \<Rightarrow>
          Inr (zero_File\<lparr>ID := fr_id f, Name := fr_name f, Size := sz, ContentType := ct,
            Checksum := ck, CreatedAt := fr_created_at f, StoragePath := p\<rparr>)
      | _ \<Rightarrow> Inl scan_null)"

definition GetByStorageHash :: "string \<Rightarrow> repo_state \<Rightarrow> File result \<times> repo_state" where
  "GetByStorageHash hash w =
     (case run_sql (select_join_by_hash hash) w of
        (Inl e, w) \<Rightarrow> (Inl e, w)
      | (Inr None, w) \<Rightarrow> (Inl ErrNoRows, w)
      | (Inr (Some (f, s)), w) \<Rightarrow> (Inr (join_file f s), w))"

definition GetByChecksum :: "string \<Rightarrow> repo_state \<Rightarrow> File result \<times> repo_state" where
  "GetByChecksum checksum w =
     (case GetByStorageHash checksum w of
        (Inr f, w) \<Rightarrow> (Inr f, w)
      | (Inl _, w) \<Rightarrow>
          (case run_sql (select_by_checksum checksum) w of
             (Inl e, w) \<Rightarrow> (Inl e, w)
           | (Inr None, w) \<Rightarrow> (Inl ErrNoRows, w)
           | (Inr (Some f), w) \<Rightarrow> (legacy_file f, w)))"

definition CreateFileReference :: "File \<Rightarrow> repo_state \<Rightarrow> goerr option \<times> repo_state" where
  "CreateFileReference file w =
     (case run_sql (insert_file (ID file) (Name file) (StorageHash file) (CreatedAt file)) w of
        (Inl e, w) \<Rightarrow> (Some e, w)
      | (Inr u, w) \<Rightarrow> (None, cache_del list_key w))"

definition Create :: "File \<Rightarrow> repo_state \<Rightarrow> goerr option \<times> repo_state" where
  "Create file w =
     (if StorageHash file \<noteq> [] then CreateFileReference file w
      else (case run_sql (insert_legacy_file file) w of
              (Inl e, w) \<Rightarrow> (Some e, w)
            | (Inr u, w) \<Rightarrow> (None, cache_del list_key w)))"

definition cache_file :: "string \<Rightarrow> File \<Rightarrow> repo_state \<Rightarrow> repo_state" where
  \<comment> \<open>\<open>if data, err := json.Marshal(file); err == nil\<close>: cache for an hour\<close>
  "cache_file key f w =
     (case marshal_File f of Some j \<Rightarrow> cache_set key j one_hour w | None \<Rightarrow> w)"

definition GetByID :: "string \<Rightarrow> repo_state \<Rightarrow> File result \<times> repo_state" where
  "GetByID i w =
     (let cacheKey = file_key i;
          (val, w) = cache_get cacheKey w
      in case Option.bind val unmarshal_File of
           Some f \<Rightarrow> (Inr f, w)
         | None \<Rightarrow>
             (case run_sql (select_join_by_id i) w of
                (Inr (Some (f, s)), w) \<Rightarrow>
                  (let file = join_file f s in (Inr file, cache_file cacheKey file w))
              | (_, w) \<Rightarrow>
                  (case run_sql (select_file i) w of
                     (Inl e, w) \<Rightarrow> (Inl e, w)
                   | (Inr None, w) \<Rightarrow> (Inl ErrNoRows, w)
                   | (Inr (Some f), w) \<Rightarrow>
                       (case legacy_file f of
                          Inl e \<Rightarrow> (Inl e, w)
                        | Inr file \<Rightarrow> (Inr file, cache_file cacheKey file w)))))"

definition GetStorageHashByFileID :: "string \<Rightarrow> repo_state \<Rightarrow> string result \<times> repo_state" where
  "GetStorageHashByFileID i w =
     (let (r, w) = run_sql (select_file i) w in
      case r of
        Inr (Some f) \<Rightarrow>
          if fr_storage_hash f \<noteq> [] then (Inr (fr_storage_hash f), w)
          else (case run_sql (select_file i) w of
                  (Inl e, w) \<Rightarrow> (Inl e, w)
                | (Inr None, w) \<Rightarrow> (Inl ErrNoRows, w)
                | (Inr (Some f), w) \<Rightarrow>
                    (case fr_checksum f of Some c \<Rightarrow> (Inr c, w) | None \<Rightarrow> (Inl scan_null, w)))
      | _ \<Rightarrow>
          (case run_sql (select_file i) w of
             (Inl e, w) \<Rightarrow> (Inl e, w)
           | (Inr None, w) \<Rightarrow> (Inl ErrNoRows, w)
           | (Inr (Some f), w) \<Rightarrow>
               (case fr_checksum f of Some c \<Rightarrow> (Inr c, w) | None \<Rightarrow> (Inl scan_null, w))))"

definition DeleteByID :: "string \<Rightarrow> repo_state \<Rightarrow> goerr option \<times> repo_state" where
  "DeleteByID i w =
     (case run_sql (delete_file i) w of
        (r, w) \<Rightarrow>
          (case r of Inl e \<Rightarrow> Some e | Inr u \<Rightarrow> None, cache_del list_key (cache_del (file_key i) w)))"

definition cache_list :: "File list \<Rightarrow> repo_state \<Rightarrow> repo_state" where
  "cache_list fs w =
     (case marshal_Files fs of Some j \<Rightarrow> cache_set list_key j ten_minutes w | None \<Rightarrow> w)"

fun legacy_scan_loop :: "file_row list \<Rightarrow> File list result" where
  \<comment> \<open>the first row that does not scan ends the call with its error\<close>
  "legacy_scan_loop [] = Inr []"
| "legacy_scan_loop (f # fs) =
     (case legacy_file f of
        Inl e \<Rightarrow> Inl e
      | Inr x \<Rightarrow> (case legacy_scan_loop fs of Inl e \<Rightarrow> Inl e | Inr xs \<Rightarrow> Inr (x # xs)))"

definition ListFiles :: "repo_state \<Rightarrow> File list result \<times> repo_state" where
  "ListFiles w =
     (let (val, w) = cache_get list_key w in
      case Option.bind val unmarshal_Files of
        Some fs \<Rightarrow> (Inr fs, w)
      | None \<Rightarrow>
          (case run_query select_join_all w of
             (Inr rows, w) \<Rightarrow>
               (let files = map (\<lambda>(f, s). join_file f s) rows in (Inr files, cache_list files w))
           | (Inl _, w) \<Rightarrow>
               (case run_query select_files_all w of
                  (Inl e, w) \<Rightarrow> (Inl e, w)
                | (Inr rows, w) \<Rightarrow>
                    (case legacy_scan_loop rows of
                       Inl e \<Rightarrow> (Inl e, w)
                     | Inr files \<Rightarrow> (Inr files, cache_list files w)))))"

section \<open>The interface\<close>

definition file_repository :: "repo_state repo_ops" where
  "file_repository =
     \<lparr>r_GetStorageByHash = GetStorageByHash, r_CreateStorage = CreateStorage,
      r_IncrementStorageRef = IncrementStorageRef, r_DecrementStorageRef = DecrementStorageRef,
      r_DeleteStorage = DeleteStorage, r_CreateFileReference = CreateFileReference,
      r_GetByID = GetByID, r_GetStorageHashByFileID = GetStorageHashByFileID,
      r_DeleteByID = DeleteByID, r_List = ListFiles, r_GetByChecksum = GetByChecksum,
      r_GetByStorageHash = GetByStorageHash, r_Create = Create\<rparr>"

section \<open>The contract, kept by this repository while nothing fails\<close>

definition healthy :: "repo_state \<Rightarrow> bool" where
  "healthy w \<longleftrightarrow> db_events w = [] \<and> cache_events w = [] \<and> db_wf (db w)"

definition cached_file :: "repo_state \<Rightarrow> string \<Rightarrow> File option" where
  \<comment> \<open>the entry \<open>GetByID\<close> would answer from\<close>
  "cached_file w i =
     (case cache w (file_key i) of
        Some (j, expiry) \<Rightarrow> if clock w < expiry then unmarshal_File j else None
      | None \<Rightarrow> None)"

lemma run_sql_healthy:
  "db_events w = [] \<Longrightarrow> run_sql stmt w = (fst (stmt (db w)), w\<lparr>db := snd (stmt (db w))\<rparr>)"
  by (simp add: run_sql_def next_db_event_def split: prod.split)

lemma run_query_healthy: "db_events w = [] \<Longrightarrow> run_query stmt w = (fst (stmt (db w)), w)"
  by (simp add: run_query_def next_db_event_def split: prod.split)

lemma cache_healthy:
  assumes "cache_events w = []"
  shows "cache_set k j ttl w = w\<lparr>cache := (cache w)(k \<mapsto> (j, clock w + ttl))\<rparr>"
    "cache_del k w = w\<lparr>cache := (cache w)(k := None)\<rparr>"
    "snd (cache_get k w) = w"
    "Option.bind (fst (cache_get (file_key i) w)) unmarshal_File = cached_file w i"
  using assms by (auto simp: cache_set_def cache_del_def cache_get_def cached_file_def
      next_cache_event_def split: option.splits)

lemma file_key_neq [simp]: "file_key i \<noteq> list_key" "list_key \<noteq> file_key i"
  by (simp_all add: file_key_def list_key_def)

lemma file_key_inj [simp]: "file_key i = file_key j \<longleftrightarrow> i = j"
  by (simp add: file_key_def)

lemma cached_file_db [simp]: "cached_file (w\<lparr>db := d\<rparr>) = cached_file w"
  by (auto simp: cached_file_def fun_eq_iff split: option.split)

lemma cached_file_del:
  "cached_file (w\<lparr>cache := (cache w)(list_key := x)\<rparr>) = cached_file w"
  "cached_file (w\<lparr>cache := (cache w)(file_key i := None)\<rparr>) = (cached_file w)(i := None)"
  by (auto simp: cached_file_def fun_eq_iff split: option.split)

lemma healthy_simps [simp]:
  "healthy w \<Longrightarrow> db_events w = []" "healthy w \<Longrightarrow> cache_events w = []" "healthy w \<Longrightarrow> db_wf (db w)"
  "healthy w \<Longrightarrow> db_wf d \<Longrightarrow> healthy (w\<lparr>db := d\<rparr>)"
  "healthy w \<Longrightarrow> healthy (w\<lparr>cache := c\<rparr>)"
  by (simp_all add: healthy_def)

lemma run_sql_query: "db_events w = [] \<Longrightarrow> stmt (db w) = (r, db w) \<Longrightarrow> run_sql stmt w = (r, w)"
  by (simp add: run_sql_healthy)

text \<open>A statement that keeps the schema keeps a healthy repository healthy.\<close>

lemma run_sql_update:
  assumes "healthy w" "stmt (db w) = (r, d)" "db_wf (snd (stmt (db w)))"
  shows "run_sql stmt w = (r, w\<lparr>db := d\<rparr>)" "healthy (w\<lparr>db := d\<rparr>)"
  using assms by (simp_all add: run_sql_healthy)

definition storages :: "repo_state \<Rightarrow> string \<Rightarrow> Storage option" where
  "storages w = storages_of (db w)"

definition files :: "repo_state \<Rightarrow> string \<Rightarrow> file_ref option" where
  "files w = files_of (db w)"

lemma maps_simps [simp]:
  "storages (w\<lparr>db := d\<rparr>) = storages_of d" "files (w\<lparr>db := d\<rparr>) = files_of d"
  "storages (w\<lparr>cache := c\<rparr>) = storages w" "files (w\<lparr>cache := c\<rparr>) = files w"
  by (simp_all add: storages_def files_def)

lemma clock_simps [simp]:
  "storages (w\<lparr>clock := t\<rparr>) = storages w" "files (w\<lparr>clock := t\<rparr>) = files w"
  "healthy (w\<lparr>clock := t\<rparr>) \<longleftrightarrow> healthy w"
  by (simp_all add: storages_def files_def healthy_def del: healthy_simps)

lemma files_of_tbl: "files_tbl d = files_tbl d' \<Longrightarrow> files_of d = files_of d'"
  by (simp add: files_of_def [abs_def])

lemma storages_of_tbl: "storage_tbl d = storage_tbl d' \<Longrightarrow> storages_of d = storages_of d'"
  by (simp add: storages_of_def [abs_def])

lemma GetStorageByHash_hit:
  assumes "healthy w" "storages w h = Some s"
  shows "GetStorageByHash h w = (Inr (Some s), w)"
proof -
  have "text_param h = Inr h"
    using storages_of_ok [of "db w" h s] assms by (auto simp: storages_def text_param_ok [of 64])
  then show ?thesis
    using assms by (simp add: GetStorageByHash_def run_sql_query select_storage_maps storages_def)
qed

lemma GetStorageByHash_none:
  assumes "healthy w" "storages w h = None"
  shows "\<exists>e. GetStorageByHash h w = (Inl e, w)"
  using select_storage_miss [of "db w" h] assms
  by (auto simp: GetStorageByHash_def run_sql_query storages_def)

lemma CreateStorage_new:
  assumes "healthy w" "storage_ok s" "storages w (Hash s) = None"
    and "\<And>h s'. storages w h = Some s' \<Longrightarrow> StStoragePath s' \<noteq> StStoragePath s"
  shows "\<exists>w'. CreateStorage s w = (None, w') \<and> healthy w' \<and> files w' = files w \<and>
    cached_file w' = cached_file w \<and> storages w' = (storages w)(Hash s \<mapsto> s)"
proof -
  have "\<forall>x \<in> set (storage_tbl (db w)). StStoragePath x \<noteq> StStoragePath s"
    using assms(1,4) by (auto simp: storages_def storages_of_Some)
  then obtain d where d: "insert_storage s (db w) = (Inr (), d)"
      "storages_of d = (storages_of (db w))(Hash s \<mapsto> s)" "files_tbl d = files_tbl (db w)"
    using insert_storage_maps [of s "db w"] assms by (auto simp: storages_def)
  have "db_wf (snd (insert_storage s (db w)))" using assms(1) insert_storage_wf by simp
  from run_sql_update [where stmt = "insert_storage s", OF assms(1) d(1) this] d show ?thesis
    by (auto simp: CreateStorage_def storages_def files_def files_of_tbl [of d "db w"])
qed

lemma CreateStorage_taken:
  "healthy w \<Longrightarrow> storage_ok s \<Longrightarrow> storages w (Hash s) \<noteq> None \<Longrightarrow> \<exists>e. CreateStorage s w = (Some e, w)"
  using insert_storage_taken [of s "db w"] by (auto simp: CreateStorage_def run_sql_query storages_def)

lemma update_ref:
  assumes "healthy w" "storages w h = Some s" "count_ok (ReferenceCount s + k)"
  shows "\<exists>w' t. run_sql (update_storage_ref k (clock w) h) w = (Inr (Some (ReferenceCount s + k)), w') \<and>
    healthy w' \<and> files w' = files w \<and> cached_file w' = cached_file w \<and>
    storages w' = (storages w)(h \<mapsto> s\<lparr>ReferenceCount := ReferenceCount s + k, UpdatedAt := t\<rparr>)"
proof -
  obtain d where d: "update_storage_ref k (clock w) h (db w) = (Inr (Some (ReferenceCount s + k)), d)"
      "storages_of d = (storages_of (db w))(h \<mapsto>
         s\<lparr>ReferenceCount := ReferenceCount s + k, UpdatedAt := clock w\<rparr>)"
      "files_tbl d = files_tbl (db w)"
    using update_storage_ref_maps [of "db w" h s k "clock w"] assms by (auto simp: storages_def)
  have "db_wf (snd (update_storage_ref k (clock w) h (db w)))"
    using assms(1) update_storage_ref_wf by simp
  from run_sql_update [where stmt = "update_storage_ref k (clock w) h", OF assms(1) d(1) this] d show ?thesis
    by (auto simp: storages_def files_def files_of_tbl [of d "db w"])
qed

lemma DeleteStorage_zero:
  assumes "healthy w" "storages w h = Some s" "ReferenceCount s = 0"
    and "\<And>i f. files w i = Some f \<Longrightarrow> ref_hash f \<noteq> h"
  shows "\<exists>w'. DeleteStorage h w = (None, w') \<and> healthy w' \<and> files w' = files w \<and>
    cached_file w' = cached_file w \<and> storages w' = (storages w)(h := None)"
proof -
  have "\<forall>f \<in> set (files_tbl (db w)). fr_storage_hash f \<noteq> h"
    using assms(1,4) files_of_Some [of "db w"] by (force simp: files_def)
  then obtain d where d: "delete_storage h (db w) = (Inr (), d)"
      "storages_of d = (storages_of (db w))(h := None)" "files_tbl d = files_tbl (db w)"
    using delete_storage_maps [of "db w" h s] assms by (auto simp: storages_def)
  have "db_wf (snd (delete_storage h (db w)))" using assms(1) delete_storage_wf by simp
  from run_sql_update [where stmt = "delete_storage h", OF assms(1) d(1) this] d show ?thesis
    by (auto simp: DeleteStorage_def storages_def files_def files_of_tbl [of d "db w"])
qed

lemma DeleteStorage_kept:
  "healthy w \<Longrightarrow> storages w h = Some s \<Longrightarrow> ReferenceCount s \<noteq> 0 \<Longrightarrow> DeleteStorage h w = (None, w)"
  by (simp add: DeleteStorage_def run_sql_query delete_storage_kept storages_def)

lemma DeleteStorage_restricted:
  "healthy w \<Longrightarrow> storages w h = Some s \<Longrightarrow> ReferenceCount s = 0 \<Longrightarrow> files w i = Some f \<Longrightarrow> ref_hash f = h \<Longrightarrow>
   \<exists>e. DeleteStorage h w = (Some e, w)"
  using delete_storage_restricted [of "db w" h s i f]
  by (auto simp: DeleteStorage_def run_sql_query storages_def files_def)

lemma CreateFileReference_new:
  assumes "healthy w" "canonical_uuid (ID x)" "text_ok 255 (Name x)"
    "storages w (StorageHash x) \<noteq> None" "files w (ID x) = None"
  shows "\<exists>w'. CreateFileReference x w = (None, w') \<and> healthy w' \<and> storages w' = storages w \<and>
    cached_file w' = cached_file w \<and> files w' = (files w)(ID x \<mapsto>
      \<lparr>ref_name = Name x, ref_hash = StorageHash x, ref_created = CreatedAt x\<rparr>)"
proof -
  let ?stmt = "insert_file (ID x) (Name x) (StorageHash x) (CreatedAt x)"
  have "text_ok 64 (StorageHash x)"
    using assms(1,4) storages_of_ok [of "db w" "StorageHash x"] by (auto simp: storages_def)
  then obtain d where d: "?stmt (db w) = (Inr (), d)" "storage_tbl d = storage_tbl (db w)"
      "files_of d = (files_of (db w))(ID x \<mapsto>
         \<lparr>ref_name = Name x, ref_hash = StorageHash x, ref_created = CreatedAt x\<rparr>)"
    using insert_file_maps [of "ID x" "Name x" "StorageHash x" "db w" "CreatedAt x"] assms
    by (auto simp: storages_def files_def)
  have "db_wf (snd (?stmt (db w)))" using assms(1) insert_file_wf by simp
  from run_sql_update [where stmt = "?stmt", OF assms(1) d(1) this] d show ?thesis
    using cached_file_del(1) [of "w\<lparr>db := d\<rparr>" None]
    by (auto simp: CreateFileReference_def cache_healthy storages_def files_def
        storages_of_tbl [of d "db w"])
qed

lemma CreateFileReference_invalid:
  "healthy w \<Longrightarrow> \<not> ValidString (Name x) \<Longrightarrow> \<exists>e. CreateFileReference x w = (Some e, w)"
  using insert_file_invalid_name [of "Name x" "ID x" "StorageHash x" "CreatedAt x" "db w"]
  by (auto simp: CreateFileReference_def run_sql_query)

lemma DeleteByID_done:
  assumes "healthy w" "canonical_uuid i"
  shows "\<exists>w'. DeleteByID i w = (None, w') \<and> healthy w' \<and> storages w' = storages w \<and>
    cached_file w' = (cached_file w)(i := None) \<and> files w' = (files w)(i := None)"
proof -
  obtain d where d: "delete_file i (db w) = (Inr (), d)" "storage_tbl d = storage_tbl (db w)"
      "files_of d = (files_of (db w))(i := None)"
    using delete_file_maps [OF assms(2), of "db w"] by (auto simp: files_def)
  have "db_wf (snd (delete_file i (db w)))" using assms(1) delete_file_wf by simp
  from run_sql_update [where stmt = "delete_file i", OF assms(1) d(1) this] d show ?thesis
    using assms(1) cached_file_del(1) [of "w\<lparr>db := d, cache := (cache w)(file_key i := None)\<rparr>" None]
      cached_file_del(2) [of "w\<lparr>db := d\<rparr>" i]
    by (auto simp: DeleteByID_def cache_healthy storages_def files_def
        storages_of_tbl [of d "db w"])
qed

lemma select_file_hit:
  assumes "db_wf d" "canonical_uuid i" "files_of d i = Some f"
  shows "\<exists>r. select_file i d = (Inr (Some r), d) \<and> row_ref r = f \<and> row_ok r"
proof -
  obtain r where r: "find (\<lambda>f. fr_id f = i) (files_tbl d) = Some r" "row_ref r = f"
    using assms(3) by (auto simp: files_of_def)
  then have "row_ok r" using find_Some_mem [OF r(1)] assms(1) by (auto simp: db_wf_def list_all_iff)
  with r assms(2) show ?thesis by (auto simp: select_file_def canonical_uuid_def)
qed

lemma select_file_miss:
  "canonical_uuid i \<Longrightarrow> files_of d i = None \<Longrightarrow> select_file i d = (Inr None, d)"
  by (auto simp: select_file_def canonical_uuid_def files_of_def)

lemma GetStorageHashByFileID_hit:
  assumes "healthy w" "canonical_uuid i" "files w i = Some f" "ref_hash f \<noteq> []"
  shows "GetStorageHashByFileID i w = (Inr (ref_hash f), w)"
proof -
  obtain r where r: "select_file i (db w) = (Inr (Some r), db w)" "row_ref r = f"
    using select_file_hit [of "db w" i f] assms by (auto simp: files_def)
  then have "fr_storage_hash r = ref_hash f" by auto
  with r(1) assms(1,4) show ?thesis
    by (simp add: GetStorageHashByFileID_def run_sql_query)
qed

lemma GetStorageHashByFileID_miss:
  "healthy w \<Longrightarrow> canonical_uuid i \<Longrightarrow> files w i = None \<Longrightarrow>
   \<exists>e. GetStorageHashByFileID i w = (Inl e, w)"
  by (simp add: GetStorageHashByFileID_def run_sql_query select_file_miss files_def)

lemma select_join_hit:
  assumes "db_wf d" "canonical_uuid i" "files_of d i = Some f" "storages_of d (ref_hash f) = Some s"
  shows "\<exists>r. select_join_by_id i d = (Inr (Some (r, s)), d) \<and> join_file r s = joined i f s"
proof -
  obtain r where r: "find (\<lambda>p. fr_id (fst p) = i) (join_rows d) = Some (r, s)" "fr_id r = i"
      "row_ref r = f"
    using find_join [OF assms(1,3,4)] by blast
  then have "join_file r s = joined i f s" by (auto simp: join_file_def joined_def row_ref_def)
  with r(1) assms(2) show ?thesis by (auto simp: select_join_by_id_def canonical_uuid_def)
qed

lemma select_join_miss:
  "canonical_uuid i \<Longrightarrow> files_of d i = None \<Longrightarrow> select_join_by_id i d = (Inr None, d)"
  by (simp add: select_join_by_id_def canonical_uuid_def find_join_miss)

text \<open>A lookup that the cache cannot answer, step by step.\<close>

lemma GetByID_uncached:
  assumes "cache_events w = []" "cached_file w i = None"
  shows "GetByID i w =
    (case run_sql (select_join_by_id i) w of
       (Inr (Some (f, s)), w) \<Rightarrow> (Inr (join_file f s), cache_file (file_key i) (join_file f s) w)
     | (_, w) \<Rightarrow>
         (case run_sql (select_file i) w of
            (Inl e, w) \<Rightarrow> (Inl e, w)
          | (Inr None, w) \<Rightarrow> (Inl ErrNoRows, w)
          | (Inr (Some f), w) \<Rightarrow>
              (case legacy_file f of
                 Inl e \<Rightarrow> (Inl e, w)
               | Inr file \<Rightarrow> (Inr file, cache_file (file_key i) file w))))"
proof -
  obtain val where "cache_get (file_key i) w = (val, w)" "Option.bind val unmarshal_File = None"
    using cache_healthy(4) [OF assms(1), of i] cache_healthy(3) [OF assms(1), of "file_key i"] assms(2)
    by (metis prod.collapse)
  then show ?thesis unfolding GetByID_def Let_def by simp
qed

lemma GetByID_hit:
  assumes "healthy w" "canonical_uuid i" "cached_file w i = None" "files w i = Some f"
    "storages w (ref_hash f) = Some s"
  shows "GetByID i w = (Inr (joined i f s), cache_file (file_key i) (joined i f s) w)"
proof -
  obtain r where "select_join_by_id i (db w) = (Inr (Some (r, s)), db w)" "join_file r s = joined i f s"
    using select_join_hit [of "db w" i f s] assms by (auto simp: files_def storages_def)
  then show ?thesis
    using assms(1,3) by (simp add: GetByID_uncached run_sql_query)
qed

lemma GetByID_cached:
  assumes "cache_events w = []" "cached_file w i = Some x"
  shows "GetByID i w = (Inr x, w)"
proof -
  obtain val where "cache_get (file_key i) w = (val, w)" "Option.bind val unmarshal_File = Some x"
    using cache_healthy(4) [OF assms(1), of i] cache_healthy(3) [OF assms(1), of "file_key i"] assms(2)
    by (metis prod.collapse)
  then show ?thesis by (simp add: GetByID_def Let_def)
qed

lemma GetByID_none:
  assumes "healthy w" "canonical_uuid i" "cached_file w i = None" "files w i = None"
  shows "GetByID i w = (Inl ErrNoRows, w)"
  using assms by (simp add: GetByID_uncached run_sql_query files_def select_join_miss select_file_miss)

lemma cache_file_healthy:
  "healthy w \<Longrightarrow> cache_file k f w = (case marshal_File f of
     Some j \<Rightarrow> w\<lparr>cache := (cache w)(k \<mapsto> (j, clock w + one_hour))\<rparr> | None \<Rightarrow> w)"
  by (simp add: cache_file_def cache_healthy split: option.split)

lemma cache_file_keeps [simp]:
  assumes "healthy w"
  shows "healthy (cache_file k f w)" "storages (cache_file k f w) = storages w"
    "files (cache_file k f w) = files w"
  using assms by (auto simp: cache_file_healthy split: option.split)

text \<open>Reading a file or the list changes nothing but the cache.\<close>

definition same_tables :: "repo_state \<Rightarrow> repo_state \<Rightarrow> bool" where
  "same_tables w w' \<longleftrightarrow> (healthy w \<longrightarrow> healthy w' \<and> storages w' = storages w \<and> files w' = files w)"

lemma same_tables_refl [intro]: "same_tables w w"
  by (simp add: same_tables_def)

lemma same_tables_cache_file [intro]: "same_tables w (cache_file k f w)"
  by (simp add: same_tables_def)

lemma cache_list_healthy:
  "healthy w \<Longrightarrow> cache_list fs w = (case marshal_Files fs of
     Some j \<Rightarrow> w\<lparr>cache := (cache w)(list_key \<mapsto> (j, clock w + ten_minutes))\<rparr> | None \<Rightarrow> w)"
  by (simp add: cache_list_def cache_healthy split: option.split)

lemma same_tables_cache_list [intro]: "same_tables w (cache_list fs w)"
  by (auto simp: same_tables_def cache_list_healthy split: option.split)

lemma GetByID_same_tables: "healthy w \<Longrightarrow> same_tables w (snd (GetByID i w))"
proof (cases "cached_file w i")
  case None
  assume w: "healthy w"
  have q: "run_sql (select_join_by_id i) w = (fst (select_join_by_id i (db w)), w)"
      "run_sql (select_file i) w = (fst (select_file i (db w)), w)"
    using w by (simp_all add: run_sql_healthy)
  show ?thesis using w None
    by (auto simp: GetByID_uncached q split: sum.split option.split prod.split)
next
  case (Some x)
  assume "healthy w"
  then show ?thesis using GetByID_cached [OF _ Some] by auto
qed

lemma ListFiles_same_tables: "healthy w \<Longrightarrow> same_tables w (snd (ListFiles w))"
proof -
  assume w: "healthy w"
  have q: "run_query stmt w = (fst (stmt (db w)), w)" for stmt :: "db \<Rightarrow> 'a list result \<times> db"
    using w by (simp add: run_query_healthy)
  obtain v where v: "cache_get list_key w = (v, w)"
    using cache_healthy(3) [of w list_key] w by (metis healthy_simps(2) prod.collapse)
  show ?thesis unfolding ListFiles_def v Let_def using w
    by (auto simp: run_query_healthy split: sum.split option.split prod.split)
qed

text \<open>The entry written is the one read back, stripped of what JSON does not carry.\<close>

lemma cached_after:
  assumes "healthy w" "marshal_File f \<noteq> None"
  shows "cached_file (cache_file (file_key i) f w) i = Some (strip_File f)"
  using assms by (auto simp: cache_file_healthy cached_file_def one_hour_def unmarshal_marshal_File)

lemma files_finite: "finite (dom (files w))"
  by (simp add: files_def dom_files_of)

lemma repo_contract_maps:
  "healthy w \<Longrightarrow> storages w h = Some s \<Longrightarrow> Hash s = h \<and> storage_ok s"
  "healthy w \<Longrightarrow> files w i = Some f \<Longrightarrow> storages w (ref_hash f) \<noteq> None"
  "healthy w \<Longrightarrow> storages w h = Some s \<Longrightarrow> storages w h' = Some s' \<Longrightarrow>
   StStoragePath s = StStoragePath s' \<Longrightarrow> h = h'"
proof -
  show "healthy w \<Longrightarrow> storages w h = Some s \<Longrightarrow> Hash s = h \<and> storage_ok s"
    using storages_of_ok [of "db w" h s] by (simp add: storages_def)
  show "healthy w \<Longrightarrow> files w i = Some f \<Longrightarrow> storages w (ref_hash f) \<noteq> None"
    using foreign_key_of [of "db w" i f] by (simp add: storages_def files_def)
  show "healthy w \<Longrightarrow> storages w h = Some s \<Longrightarrow> storages w h' = Some s' \<Longrightarrow>
      StStoragePath s = StStoragePath s' \<Longrightarrow> h = h'"
    using storages_of_paths [of "db w" h s h' s'] by (simp add: storages_def)
qed

interpretation fr: repository file_repository storages files cached_file healthy canonical_uuid
proof
  show "Hash s = h \<and> storage_ok s" if "healthy w" "storages w h = Some s" for w h s
    using repo_contract_maps(1) that by blast
  show "storages w (ref_hash f) \<noteq> None" if "healthy w" "files w i = Some f" for w i f
    using repo_contract_maps(2) that by blast
  show "h = h'" if "healthy w" "storages w h = Some s" "storages w h' = Some s'"
    "StStoragePath s = StStoragePath s'" for w h s h' s'
    using repo_contract_maps(3) that by blast
  show "\<exists>w' t. r_IncrementStorageRef file_repository h w = (None, w') \<and> healthy w' \<and>
      files w' = files w \<and> cached_file w' = cached_file w \<and>
      storages w' = (storages w)(h \<mapsto> s\<lparr>ReferenceCount := ReferenceCount s + 1, UpdatedAt := t\<rparr>)"
    if "healthy w" "storages w h = Some s" "count_ok (ReferenceCount s + 1)" for w h s
    using update_ref [OF that] by (auto simp: file_repository_def IncrementStorageRef_def)
  show "\<exists>w' t. r_DecrementStorageRef file_repository h w = ((ReferenceCount s - 1, None), w') \<and>
      healthy w' \<and> files w' = files w \<and> cached_file w' = cached_file w \<and>
      storages w' = (storages w)(h \<mapsto> s\<lparr>ReferenceCount := ReferenceCount s - 1, UpdatedAt := t\<rparr>)"
    if "healthy w" "storages w h = Some s" "count_ok (ReferenceCount s - 1)" for w h s
    using update_ref [of w h s "- 1"] that by (auto simp: file_repository_def DecrementStorageRef_def Let_def)
qed (simp_all add: file_repository_def files_finite GetStorageByHash_hit GetStorageByHash_none
    CreateStorage_new CreateStorage_taken DeleteStorage_zero DeleteStorage_kept DeleteStorage_restricted
    CreateFileReference_new CreateFileReference_invalid GetStorageHashByFileID_hit GetStorageHashByFileID_miss
    DeleteByID_done GetByID_hit GetByID_cached GetByID_none)

end
