(* ===== verification/ServiceFacts.thy ===== *)
theory ServiceFacts
  imports Service
begin

text \<open>
  What the service does on a storage and a repository that keep their contracts, proved once in
  the locale \<open>storage_service\<close> (the contract of the storage, that of the repository, and that
  every UUID is a path the storage accepts). The state invariant \<open>svc_inv\<close> adds the
  deduplication invariant to the invariants of the two parts.
\<close>

section \<open>What validation gives\<close>

lemma allowed_type_ok:
  assumes "map_of AllowedTypes ext = Some ts" "ct \<in> set ts"
  shows "text_ok 100 ct"
proof -
  have "\<forall>(e, ts) \<in> set AllowedTypes. \<forall>ct \<in> set ts. ascii ct \<and> CHR 0x00 \<notin> set ct \<and> length ct \<le> 100"
    by (simp add: AllowedTypes_def)
  then have "ascii ct" "CHR 0x00 \<notin> set ct" "length ct \<le> 100"
    using assms map_of_SomeD [OF assms(1)] by fastforce+
  then show ?thesis by (simp add: text_ok_def ValidString_ascii RuneCount_ascii)
qed

lemma ValidateFile_type_ok:
  assumes "ValidateFile (Some h) = None"
  shows "text_ok 100 (HContentType h)"
proof (cases "HContentType h = []")
  case True
  then show ?thesis by (simp add: text_ok_def ValidString_ascii RuneCount_ascii)
next
  case False
  then show ?thesis using assms allowed_type_ok
    by (auto simp: ValidateFile_None_iff ValidateContentType_None_iff)
qed

lemma regClass_zero: "regClass CHR 0x00"
  by code_simp

lemma ValidateFile_name_ok:
  assumes "ValidateFile (Some h) = None" "ValidString (HName h)"
  shows "text_ok 255 (HName h)"
proof -
  have v: "ValidateFilename (HName h) = None" using assms(1) by (simp add: ValidateFile_None_iff)
  then have "length (HName h) \<le> 255" by (simp add: ValidateFilename_None_iff)
  then have "RuneCountInString (HName h) \<le> 255" using RuneCount_le [of "HName h"] by linarith
  moreover have "CHR 0x00 \<notin> set (HName h)"
    using ValidateFilename_bytes [OF v, of "CHR 0x00"] regClass_zero by blast
  ultimately show ?thesis using assms(2) by (simp add: text_ok_def)
qed

lemma sha256_hex_ok: "text_ok 64 (sha256_hex c)"
proof -
  have "ascii (sha256_hex c)" by (rule hex_text_ascii [OF set_sha256_hex])
  moreover have "CHR 0x00 \<notin> set hex_digits" by (simp add: hex_digits_def)
  then have "CHR 0x00 \<notin> set (sha256_hex c)" using set_sha256_hex by blast
  ultimately show ?thesis by (simp add: text_ok_def ValidString_ascii RuneCount_ascii)
qed

section \<open>The service on its contracts\<close>

text \<open>What an upload asks of the UUIDs it draws, of the name and of the reader.\<close>

definition upload_ok ::
  "(string \<Rightarrow> bool) \<Rightarrow> (string \<Rightarrow> bytes option) \<Rightarrow> (string \<Rightarrow> file_ref option)
     \<Rightarrow> string \<Rightarrow> string \<Rightarrow> reader \<Rightarrow> FileHeader \<Rightarrow> bool" where
  "upload_ok id_ok B F path fileID rd header \<longleftrightarrow>
     ValidateFile (Some header) = None \<and> ValidString (HName header) \<and> rd_err rd = None \<and>
     id_ok path \<and> id_ok fileID \<and> B path = None \<and> F fileID = None \<and>
     int (card (dom F)) < 2147483647"

text \<open>The file an upload of new content returns.\<close>

definition new_storage :: "string \<Rightarrow> time \<Rightarrow> bytes \<Rightarrow> FileHeader \<Rightarrow> Storage" where
  "new_storage path now c header =
     \<lparr>Hash = sha256_hex c, StSize = int (length c), StContentType = HContentType header,
      StStoragePath = path, ReferenceCount = 1, StCreatedAt = now, UpdatedAt = now\<rparr>"

definition new_ref :: "time \<Rightarrow> bytes \<Rightarrow> FileHeader \<Rightarrow> file_ref" where
  "new_ref now c header = \<lparr>ref_name = HName header, ref_hash = sha256_hex c, ref_created = now\<rparr>"

lemma new_storage_simps [simp]:
  "Hash (new_storage path now c header) = sha256_hex c"
  "StSize (new_storage path now c header) = int (length c)"
  "StContentType (new_storage path now c header) = HContentType header"
  "StStoragePath (new_storage path now c header) = path"
  "ReferenceCount (new_storage path now c header) = 1"
  by (simp_all add: new_storage_def)

lemma new_ref_simps [simp]:
  "ref_hash (new_ref now c header) = sha256_hex c" "ref_name (new_ref now c header) = HName header"
  "ref_created (new_ref now c header) = now"
  by (simp_all add: new_ref_def)

lemma card_referrers_le: "finite (dom F) \<Longrightarrow> card (referrers F h) \<le> card (dom F)"
  by (rule card_mono) (auto simp: referrers_def)

locale storage_service =
  blob_store st blobs binv path_ok +
  repository repo storages files cached rinv id_ok
  for st :: "'s storage_ops" and blobs binv path_ok
    and repo :: "'r repo_ops" and storages files cached rinv id_ok +
  assumes id_path: "id_ok i \<Longrightarrow> path_ok i \<and> text_ok 500 i"
begin

lemma put_step:
  assumes "binv s" "id_ok path" "rd_err rd = None"
  obtains s' where "st_Put st path rd sz s =
      (\<lparr>pr_n = int (length (rd_data rd)), pr_err = None, pr_consumed = rd_data rd\<rparr>, s')"
    "binv s'" "blobs s' = (blobs s)(path \<mapsto> rd_data rd)"
  using put [OF assms(1) _ assms(3), of path sz] id_path [OF assms(2)] by blast

lemma delete_path:
  assumes "binv s" "id_ok path" "blobs s path = Some c"
  obtains s' where "st_Delete st path s = (None, s')" "binv s'" "blobs s' = (blobs s)(path := None)"
  using delete_hit [OF assms(1) _ assms(3)] id_path [OF assms(2)] by blast

lemma Upload_invalid:
  "ValidateFile (Some header) = Some e \<Longrightarrow>
   Upload (NewStorageService st repo) path fileID now rd header (s, r) = (Inl e, s, r)"
  by (simp add: Upload_def)

text \<open>An upload of content that is not stored yet.\<close>

lemma Upload_new:
  assumes inv: "binv s" "rinv r" "dedup_ok path_ok (storages r) (files r) (blobs s)"
    and up: "upload_ok id_ok (blobs s) (files r) path fileID rd header"
    and new: "storages r (sha256_hex (rd_data rd)) = None"
  shows "\<exists>s' r'. Upload (NewStorageService st repo) path fileID now rd header (s, r) =
      (Inr (joined fileID (new_ref now (rd_data rd) header) (new_storage path now (rd_data rd) header)), s', r')
    \<and> binv s' \<and> rinv r' \<and> cached r' = cached r
    \<and> storages r' = (storages r)(sha256_hex (rd_data rd) \<mapsto> new_storage path now (rd_data rd) header)
    \<and> files r' = (files r)(fileID \<mapsto> new_ref now (rd_data rd) header)
    \<and> blobs s' = (blobs s)(path \<mapsto> rd_data rd)"
proof -
  let ?c = "rd_data rd" and ?rec = "new_storage path now (rd_data rd) header"
  have v: "ValidateFile (Some header) = None" "ValidString (HName header)" "rd_err rd = None"
      "id_ok path" "id_ok fileID" "blobs s path = None" "files r fileID = None"
    using up by (simp_all add: upload_ok_def)
  obtain s' where s': "st_Put st path rd (HSize header) s =
        (\<lparr>pr_n = int (length ?c), pr_err = None, pr_consumed = ?c\<rparr>, s')"
      "binv s'" "blobs s' = (blobs s)(path \<mapsto> ?c)"
    using put_step [OF inv(1) v(4,3)] by blast
  obtain e where miss: "r_GetStorageByHash repo (sha256_hex ?c) r = (Inl e, r)"
    using get_storage_miss [OF inv(2) new] by blast
  have fits: "storage_ok ?rec"
    using ValidateFile_type_ok [OF v(1)] sha256_hex_ok id_path [OF v(4)]
    by (simp add: storage_ok_def count_ok_def)
  have apart: "StStoragePath x \<noteq> path" if "storages r h = Some x" for h x
    using inv(3) v(6) that by (fastforce simp: dedup_ok_def)
  obtain r1 where r1: "r_CreateStorage repo ?rec r = (None, r1)" "rinv r1" "files r1 = files r"
      "cached r1 = cached r" "storages r1 = (storages r)(sha256_hex ?c \<mapsto> ?rec)"
    using create_storage [OF inv(2) fits] new apart by auto
  let ?file = "joined fileID (new_ref now ?c header) ?rec"
  have fid: "ID ?file = fileID" "Name ?file = HName header" "StorageHash ?file = sha256_hex ?c"
      "CreatedAt ?file = now"
    by (simp_all add: joined_def)
  obtain r2 where r2: "r_CreateFileReference repo ?file r1 = (None, r2)" "rinv r2"
      "storages r2 = storages r1" "cached r2 = cached r1"
      "files r2 = (files r1)(fileID \<mapsto> new_ref now ?c header)"
    using create_file [OF r1(2), of ?file] v(5,7) r1(3,5) ValidateFile_name_ok [OF v(1,2)]
    unfolding fid by (auto simp: new_ref_def)
  have "Upload (NewStorageService st repo) path fileID now rd header (s, r) = (Inr ?file, s', r2)"
    using v(1) s'(1) miss r1(1) r2(1)
    by (simp add: Upload_def upload_new_def Let_def NewStorageService_def joined_def new_storage_def
        new_ref_def)
  then show ?thesis using s' r1 r2 by auto
qed

text \<open>An upload of content that is stored: the blob just written goes again.\<close>

lemma Upload_duplicate:
  assumes inv: "binv s" "rinv r"
    and up: "upload_ok id_ok (blobs s) (files r) path fileID rd header"
    and old: "storages r (sha256_hex (rd_data rd)) = Some x"
    and room: "count_ok (ReferenceCount x + 1)"
  shows "\<exists>s' r' t. Upload (NewStorageService st repo) path fileID now rd header (s, r) =
      (Inr (joined fileID (new_ref now (rd_data rd) header) x), s', r')
    \<and> binv s' \<and> rinv r' \<and> cached r' = cached r
    \<and> storages r' = (storages r)(sha256_hex (rd_data rd) \<mapsto>
        x\<lparr>ReferenceCount := ReferenceCount x + 1, UpdatedAt := t\<rparr>)
    \<and> files r' = (files r)(fileID \<mapsto> new_ref now (rd_data rd) header)
    \<and> blobs s' = blobs s"
proof -
  let ?c = "rd_data rd" and ?h = "sha256_hex (rd_data rd)"
  have v: "ValidateFile (Some header) = None" "ValidString (HName header)" "rd_err rd = None"
      "id_ok path" "id_ok fileID" "blobs s path = None" "files r fileID = None"
    using up by (simp_all add: upload_ok_def)
  obtain s1 where s1: "st_Put st path rd (HSize header) s =
        (\<lparr>pr_n = int (length ?c), pr_err = None, pr_consumed = ?c\<rparr>, s1)"
      "binv s1" "blobs s1 = (blobs s)(path \<mapsto> ?c)"
    using put_step [OF inv(1) v(4,3)] by blast
  have "blobs s1 path = Some ?c" using s1(3) by simp
  from delete_path [OF s1(2) v(4) this] obtain s2 where s2: "st_Delete st path s1 = (None, s2)"
      "binv s2" "blobs s2 = (blobs s1)(path := None)" .
  have "blobs s2 = blobs s" using s1(3) s2(3) v(6) by (auto simp: fun_upd_idem)
  obtain r1 t where r1: "r_IncrementStorageRef repo ?h r = (None, r1)" "rinv r1"
      "files r1 = files r" "cached r1 = cached r"
      "storages r1 = (storages r)(?h \<mapsto> x\<lparr>ReferenceCount := ReferenceCount x + 1, UpdatedAt := t\<rparr>)"
    using increment [OF inv(2) old room] by blast
  let ?file = "joined fileID (new_ref now ?c header) x"
  have fid: "ID ?file = fileID" "Name ?file = HName header" "StorageHash ?file = ?h" "CreatedAt ?file = now"
    by (simp_all add: joined_def)
  obtain r2 where r2: "r_CreateFileReference repo ?file r1 = (None, r2)" "rinv r2"
      "storages r2 = storages r1" "cached r2 = cached r1"
      "files r2 = (files r1)(fileID \<mapsto> new_ref now ?c header)"
    using create_file [OF r1(2), of ?file] v(5,7) r1(3,5) ValidateFile_name_ok [OF v(1,2)]
    unfolding fid by (auto simp: new_ref_def)
  have "Upload (NewStorageService st repo) path fileID now rd header (s, r) = (Inr ?file, s2, r2)"
    using v(1) s1(1) s2(1) r1(1) r2(1) get_storage [OF inv(2) old] wf [OF inv(2) old]
    by (simp add: Upload_def upload_duplicate_def Let_def NewStorageService_def joined_def new_ref_def)
  with \<open>blobs s2 = blobs s\<close> show ?thesis using s2(2) r1 r2 by auto
qed

lemma upload_room:
  assumes inv: "rinv r" "dedup_ok path_ok (storages r) (files r) (blobs s)"
    and up: "upload_ok id_ok (blobs s) (files r) path fileID rd header"
    and old: "storages r h = Some x"
  shows "count_ok (ReferenceCount x + 1)"
proof -
  have "ReferenceCount x = int (card (referrers (files r) h))" using dedup_count [OF inv(2) old] .
  then show ?thesis
    using card_referrers_le [OF finite_files [OF inv(1)], of h] up
    by (simp add: upload_ok_def count_ok_def)
qed

lemma Upload_keeps:
  assumes inv: "binv s" "rinv r" "dedup_ok path_ok (storages r) (files r) (blobs s)"
    and up: "upload_ok id_ok (blobs s) (files r) path fileID rd header"
  shows "\<exists>f s' r'. Upload (NewStorageService st repo) path fileID now rd header (s, r) = (Inr f, s', r')
    \<and> binv s' \<and> rinv r' \<and> dedup_ok path_ok (storages r') (files r') (blobs s')
    \<and> files r' = (files r)(fileID \<mapsto> new_ref now (rd_data rd) header) \<and> cached r' = cached r"
proof (cases "storages r (sha256_hex (rd_data rd))")
  case None
  have v: "id_ok path" "blobs s path = None" "files r fileID = None"
    using up by (simp_all add: upload_ok_def)
  have "dedup_ok path_ok
      ((storages r)(sha256_hex (rd_data rd) \<mapsto> new_storage path now (rd_data rd) header))
      ((files r)(fileID \<mapsto> new_ref now (rd_data rd) header)) ((blobs s)(path \<mapsto> rd_data rd))"
    using foreign_key [OF inv(2)] v id_path
    by (intro dedup_add_new [OF inv(3) None]) auto
  with Upload_new [OF inv up None] show ?thesis by force
next
  case (Some x)
  have v: "files r fileID = None" using up by (simp add: upload_ok_def)
  have "dedup_ok path_ok
      ((storages r)(sha256_hex (rd_data rd) \<mapsto> x\<lparr>ReferenceCount := ReferenceCount x + 1, UpdatedAt := t\<rparr>))
      ((files r)(fileID \<mapsto> new_ref now (rd_data rd) header)) (blobs s)" for t
    using v by (intro dedup_add_reference [OF inv(3) Some finite_files [OF inv(2)]]) simp_all
  with Upload_duplicate [OF inv(1,2) up Some upload_room [OF inv(2,3) up Some]] show ?thesis by force
qed

text \<open>A download of a file that no cached entry hides reads the content its hash names.\<close>

lemma Download_fresh:
  assumes inv: "binv s" "rinv r" "dedup_ok path_ok (storages r) (files r) (blobs s)"
    and i: "id_ok i" "files r i = Some f" "cached r i = None"
  shows "\<exists>c x r'. Download (NewStorageService st repo) i (s, r) = (Inr (reader_of c, joined i f x), s, r')
    \<and> sha256_hex c = ref_hash f \<and> storages r (ref_hash f) = Some x \<and> StSize x = int (length c)
    \<and> blobs s (StStoragePath x) = Some c
    \<and> rinv r' \<and> storages r' = storages r \<and> files r' = files r"
proof -
  obtain x where x: "storages r (ref_hash f) = Some x" using foreign_key [OF inv(2) i(2)] by auto
  from dedup_blob [OF inv(3) x] obtain c where c: "path_ok (StStoragePath x)"
      "blobs s (StStoragePath x) = Some c" "sha256_hex c = ref_hash f" "StSize x = int (length c)" by auto
  obtain r' where r': "r_GetByID repo i r = (Inr (joined i f x), r')" "rinv r'"
      "storages r' = storages r" "files r' = files r"
    using get_fresh [OF inv(2) i(1,3,2) x] by blast
  have "GetStoragePath (joined i f x) = StStoragePath x" by (simp add: GetStoragePath_def joined_def)
  then have "Download (NewStorageService st repo) i (s, r) = (Inr (reader_of c, joined i f x), s, r')"
    using r'(1) get_hit [OF inv(1) c(1,2)] by (simp add: Download_def NewStorageService_def)
  with c x r' show ?thesis by blast
qed

text \<open>A download that a cached entry answers asks the storage for the path the entry has.\<close>

lemma Download_cached:
  assumes "rinv r" "cached r i = Some x"
  shows "Download (NewStorageService st repo) i (s, r) =
    (case st_Get st (GetStoragePath x) s of (Inl e, s) \<Rightarrow> (Inl e, s, r) | (Inr rd, s) \<Rightarrow> (Inr (rd, x), s, r))"
  using get_cached [OF assms]
  by (simp add: Download_def NewStorageService_def split: prod.split sum.split)

lemma Download_lost:
  assumes inv: "binv s" "rinv r"
    and i: "id_ok i" "files r i = Some f" "storages r (ref_hash f) = Some x" "cached r i = None"
    and lost: "path_ok (StStoragePath x)" "blobs s (StStoragePath x) = None"
  shows "\<exists>e r'. Download (NewStorageService st repo) i (s, r) = (Inl e, s, r')"
proof -
  obtain r' where "r_GetByID repo i r = (Inr (joined i f x), r')"
    using get_fresh [OF inv(2) i(1,4,2,3)] by blast
  moreover have "GetStoragePath (joined i f x) = StStoragePath x"
    by (simp add: GetStoragePath_def joined_def)
  moreover obtain e where "st_Get st (StStoragePath x) s = (Inl e, s)"
    using get_miss [OF inv(1) lost] by blast
  ultimately show ?thesis by (simp add: Download_def NewStorageService_def)
qed

lemma Download_missing:
  assumes "rinv r" "id_ok i" "files r i = None" "cached r i = None"
  shows "\<exists>e. Download (NewStorageService st repo) i (s, r) = (Inl e, s, r)"
  using get_missing [OF assms(1,2,4,3)] by (auto simp: Download_def NewStorageService_def)

text \<open>Deleting a file whose content other files still have, and the last one with its content.\<close>

lemma Delete_start:
  assumes inv: "rinv r" "dedup_ok path_ok (storages r) (files r) (blobs s)"
    and i: "id_ok i" "files r i = Some f" "storages r (ref_hash f) = Some x"
  obtains r1 r2 t where "r_GetStorageHashByFileID repo i r = (Inr (ref_hash f), r)"
    "r_DeleteByID repo i r = (None, r1)"
    "r_DecrementStorageRef repo (ref_hash f) r1 = ((ReferenceCount x - 1, None), r2)"
    "rinv r2" "files r2 = (files r)(i := None)" "cached r2 = (cached r)(i := None)"
    "storages r2 = (storages r)(ref_hash f \<mapsto> x\<lparr>ReferenceCount := ReferenceCount x - 1, UpdatedAt := t\<rparr>)"
proof -
  have "ref_hash f \<noteq> []" using dedup_blob [OF inv(2) i(3)] by auto
  note hash = get_hash [OF inv(1) i(1,2) this]
  obtain r1 where r1: "r_DeleteByID repo i r = (None, r1)" "rinv r1" "storages r1 = storages r"
      "cached r1 = (cached r)(i := None)" "files r1 = (files r)(i := None)"
    using delete_file [OF inv(1) i(1)] by blast
  have "i \<in> referrers (files r) (ref_hash f)" using i(2) by (simp add: referrers_def)
  then have "0 < card (referrers (files r) (ref_hash f))"
    using finite_referrers [OF finite_files [OF inv(1)]] by (auto simp: card_gt_0_iff)
  then have "1 \<le> ReferenceCount x" using dedup_count [OF inv(2) i(3)] by simp
  moreover have "ReferenceCount x - 1 \<le> 2147483647"
    using wf [OF inv(1) i(3)] by (simp add: storage_ok_def count_ok_def)
  ultimately have "count_ok (ReferenceCount x - 1)" by (simp add: count_ok_def)
  then obtain r2 t where r2: "r_DecrementStorageRef repo (ref_hash f) r1 = ((ReferenceCount x - 1, None), r2)"
      "rinv r2" "files r2 = files r1" "cached r2 = cached r1"
      "storages r2 = (storages r1)(ref_hash f \<mapsto> x\<lparr>ReferenceCount := ReferenceCount x - 1, UpdatedAt := t\<rparr>)"
    using decrement [OF r1(2), of "ref_hash f" x] i(3) r1(3) by auto
  show ?thesis using that [OF hash r1(1) r2(1,2)] r1 r2 by simp
qed

lemma Delete_shared:
  assumes inv: "binv s" "rinv r" "dedup_ok path_ok (storages r) (files r) (blobs s)"
    and i: "id_ok i" "files r i = Some f" "storages r (ref_hash f) = Some x" "ReferenceCount x \<noteq> 1"
  shows "\<exists>r' t. Delete (NewStorageService st repo) i (s, r) = (Ok (), s, r') \<and> rinv r'
    \<and> files r' = (files r)(i := None) \<and> cached r' = (cached r)(i := None)
    \<and> storages r' = (storages r)(ref_hash f \<mapsto> x\<lparr>ReferenceCount := ReferenceCount x - 1, UpdatedAt := t\<rparr>)"
proof -
  obtain r1 r2 t where *: "r_GetStorageHashByFileID repo i r = (Inr (ref_hash f), r)"
      "r_DeleteByID repo i r = (None, r1)"
      "r_DecrementStorageRef repo (ref_hash f) r1 = ((ReferenceCount x - 1, None), r2)"
      "rinv r2" "files r2 = (files r)(i := None)" "cached r2 = (cached r)(i := None)"
      "storages r2 = (storages r)(ref_hash f \<mapsto> x\<lparr>ReferenceCount := ReferenceCount x - 1, UpdatedAt := t\<rparr>)"
    using Delete_start [OF inv(2,3) i(1-3)] by blast
  then have "Delete (NewStorageService st repo) i (s, r) = (Ok (), s, r2)"
    using i(4) by (simp add: Delete_def NewStorageService_def)
  with * show ?thesis by blast
qed

lemma Delete_last:
  assumes inv: "binv s" "rinv r" "dedup_ok path_ok (storages r) (files r) (blobs s)"
    and i: "id_ok i" "files r i = Some f" "storages r (ref_hash f) = Some x" "ReferenceCount x = 1"
  shows "\<exists>s' r'. Delete (NewStorageService st repo) i (s, r) = (Ok (), s', r') \<and> binv s' \<and> rinv r'
    \<and> files r' = (files r)(i := None) \<and> cached r' = (cached r)(i := None)
    \<and> storages r' = (storages r)(ref_hash f := None)
    \<and> blobs s' = (blobs s)(StStoragePath x := None)"
proof -
  let ?h = "ref_hash f"
  obtain r1 r2 t where *: "r_GetStorageHashByFileID repo i r = (Inr ?h, r)"
      "r_DeleteByID repo i r = (None, r1)"
      "r_DecrementStorageRef repo ?h r1 = ((ReferenceCount x - 1, None), r2)"
      "rinv r2" "files r2 = (files r)(i := None)" "cached r2 = (cached r)(i := None)"
      "storages r2 = (storages r)(?h \<mapsto> x\<lparr>ReferenceCount := ReferenceCount x - 1, UpdatedAt := t\<rparr>)"
    using Delete_start [OF inv(2,3) i(1-3)] by blast
  let ?x = "x\<lparr>ReferenceCount := ReferenceCount x - 1, UpdatedAt := t\<rparr>"
  have x: "storages r2 ?h = Some ?x" using *(7) by simp
  obtain c where c: "path_ok (StStoragePath x)" "blobs s (StStoragePath x) = Some c"
    using dedup_blob [OF inv(3) i(3)] by blast
  obtain s' where s': "st_Delete st (StStoragePath x) s = (None, s')" "binv s'"
      "blobs s' = (blobs s)(StStoragePath x := None)"
    using delete_hit [OF inv(1) c] by blast
  have "ref_hash g \<noteq> ?h" if "files r2 j = Some g" for j g
    using last_reference [OF inv(3) i(3) finite_files [OF inv(2)] i(2,4)] that *(5) by simp
  then obtain r' where r': "r_DeleteStorage repo ?h r2 = (None, r')" "rinv r'" "files r' = files r2"
      "cached r' = cached r2" "storages r' = (storages r2)(?h := None)"
    using delete_storage [OF *(4) x] i(4) by auto
  have "Delete (NewStorageService st repo) i (s, r) = (Ok (), s', r')"
    using *(1-3) i(4) get_storage [OF *(4) x] s'(1) r'(1)
    by (simp add: Delete_def cleanup_storage_def NewStorageService_def)
  with * r' s' show ?thesis by simp
qed

lemma Delete_missing:
  assumes "rinv r" "id_ok i" "files r i = None"
  shows "\<exists>e. Delete (NewStorageService st repo) i (s, r) = (Err e, s, r)"
  using get_hash_miss [OF assms] by (auto simp: Delete_def NewStorageService_def)

lemma Delete_keeps:
  assumes inv: "binv s" "rinv r" "dedup_ok path_ok (storages r) (files r) (blobs s)"
    and i: "id_ok i"
  shows "\<exists>o' s' r'. Delete (NewStorageService st repo) i (s, r) = (o', s', r')
    \<and> binv s' \<and> rinv r' \<and> dedup_ok path_ok (storages r') (files r') (blobs s')
    \<and> files r' = (files r)(i := None) \<and> (files r i \<noteq> None \<longrightarrow> o' = Ok ())"
proof (cases "files r i")
  case None
  obtain e where "Delete (NewStorageService st repo) i (s, r) = (Err e, s, r)"
    using Delete_missing [OF inv(2) i None] by blast
  with inv None show ?thesis by (simp add: fun_upd_idem)
next
  case (Some f)
  obtain x where x: "storages r (ref_hash f) = Some x" using foreign_key [OF inv(2) Some] by auto
  show ?thesis
  proof (cases "ReferenceCount x = 1")
    case True
    have "dedup_ok path_ok ((storages r)(ref_hash f := None)) ((files r)(i := None))
        ((blobs s)(StStoragePath x := None))"
      using dedup_drop_last [OF inv(3) x finite_files [OF inv(2)] Some True] paths_unique [OF inv(2) _ x]
      by blast
    with Delete_last [OF inv i Some x True] show ?thesis by force
  next
    case False
    have "dedup_ok path_ok
        ((storages r)(ref_hash f \<mapsto> x\<lparr>ReferenceCount := ReferenceCount x - 1, UpdatedAt := t\<rparr>))
        ((files r)(i := None)) (blobs s)" for t
      by (rule dedup_drop_reference [OF inv(3) x finite_files [OF inv(2)] Some False]) simp_all
    with Delete_shared [OF inv i Some x False] inv(1) show ?thesis by force
  qed
qed

text \<open>What an upload stored, a download that the cache does not answer returns.\<close>

lemma Upload_Download:
  assumes inv: "binv s" "rinv r" "dedup_ok path_ok (storages r) (files r) (blobs s)"
    and up: "upload_ok id_ok (blobs s) (files r) path fileID rd header"
    and nc: "\<forall>p c. blobs s p = Some c \<and> sha256_hex c = sha256_hex (rd_data rd) \<longrightarrow> c = rd_data rd"
    and fresh: "cached r fileID = None"
  shows "\<exists>f s' r' x r''. Upload (NewStorageService st repo) path fileID now rd header (s, r) = (Inr f, s', r')
    \<and> binv s' \<and> rinv r' \<and> dedup_ok path_ok (storages r') (files r') (blobs s')
    \<and> Download (NewStorageService st repo) fileID (s', r') =
        (Inr (reader_of (rd_data rd), joined fileID (new_ref now (rd_data rd) header) x), s', r'')
    \<and> StSize x = int (length (rd_data rd))
    \<and> storages r' (sha256_hex (rd_data rd)) = Some x \<and> blobs s' (StStoragePath x) = Some (rd_data rd)"
proof -
  let ?c = "rd_data rd"
  have id: "id_ok fileID" using up by (simp add: upload_ok_def)
  obtain f s' r' where u: "Upload (NewStorageService st repo) path fileID now rd header (s, r) = (Inr f, s', r')"
      "binv s'" "rinv r'" "dedup_ok path_ok (storages r') (files r') (blobs s')"
      "files r' = (files r)(fileID \<mapsto> new_ref now ?c header)" "cached r' = cached r"
    using Upload_keeps [OF inv up, of now] by blast
  have b: "c = ?c" if "blobs s' p = Some c" "sha256_hex c = sha256_hex ?c" for p c
  proof (cases "storages r (sha256_hex ?c)")
    case None
    then have "blobs s' = (blobs s)(path \<mapsto> ?c)" using Upload_new [OF inv up, of now] u(1) by auto
    then show ?thesis using nc that by (cases "p = path") auto
  next
    case (Some x)
    then have "blobs s' = blobs s"
      using Upload_duplicate [OF inv(1,2) up Some upload_room [OF inv(2,3) up Some], of now] u(1) by auto
    then show ?thesis using nc that by simp
  qed
  have fi: "files r' fileID = Some (new_ref now ?c header)" using u(5) by simp
  from Download_fresh [OF u(2-4) id fi] u(6) fresh obtain c x r'' where
    d: "Download (NewStorageService st repo) fileID (s', r') =
        (Inr (reader_of c, joined fileID (new_ref now ?c header) x), s', r'')"
      "sha256_hex c = sha256_hex ?c" "storages r' (sha256_hex ?c) = Some x" "StSize x = int (length c)"
      "blobs s' (StStoragePath x) = Some c"
    by auto
  then have "c = ?c" using b by blast
  with u d show ?thesis by blast
qed

text \<open>
  The error path of the upload of new content whose file row the database refuses: the storage
  row that was just written has a count of one, so \<open>DeleteStorage\<close>, which asks for a count of
  zero, leaves it, while the blob it points at is deleted.
\<close>

lemma Upload_refused:
  assumes inv: "binv s" "rinv r" "dedup_ok path_ok (storages r) (files r) (blobs s)"
    and up: "ValidateFile (Some header) = None" "\<not> ValidString (HName header)" "rd_err rd = None"
      "id_ok path" "blobs s path = None"
    and new: "storages r (sha256_hex (rd_data rd)) = None"
  shows "\<exists>e s' r'. Upload (NewStorageService st repo) path fileID now rd header (s, r) = (Inl e, s', r')
    \<and> binv s' \<and> rinv r' \<and> files r' = files r \<and> blobs s' = blobs s \<and> cached r' = cached r
    \<and> storages r' = (storages r)(sha256_hex (rd_data rd) \<mapsto> new_storage path now (rd_data rd) header)"
proof -
  let ?c = "rd_data rd" and ?rec = "new_storage path now (rd_data rd) header"
  obtain s1 where s1: "st_Put st path rd (HSize header) s =
        (\<lparr>pr_n = int (length ?c), pr_err = None, pr_consumed = ?c\<rparr>, s1)"
      "binv s1" "blobs s1 = (blobs s)(path \<mapsto> ?c)"
    using put_step [OF inv(1) up(4,3)] by blast
  have "blobs s1 path = Some ?c" using s1(3) by simp
  from delete_path [OF s1(2) up(4) this] obtain s2 where s2: "st_Delete st path s1 = (None, s2)"
      "binv s2" "blobs s2 = (blobs s1)(path := None)" .
  have s2': "blobs s2 = blobs s" using s1(3) s2(3) up(5) by (auto simp: fun_upd_idem)
  obtain e where miss: "r_GetStorageByHash repo (sha256_hex ?c) r = (Inl e, r)"
    using get_storage_miss [OF inv(2) new] by blast
  have fits: "storage_ok ?rec"
    using ValidateFile_type_ok [OF up(1)] sha256_hex_ok id_path [OF up(4)]
    by (simp add: storage_ok_def count_ok_def)
  have apart: "StStoragePath x \<noteq> path" if "storages r h = Some x" for h x
    using inv(3) up(5) that by (fastforce simp: dedup_ok_def)
  obtain r1 where r1: "r_CreateStorage repo ?rec r = (None, r1)" "rinv r1" "files r1 = files r"
      "cached r1 = cached r" "storages r1 = (storages r)(sha256_hex ?c \<mapsto> ?rec)"
    using create_storage [OF inv(2) fits] new apart by auto
  let ?file = "joined fileID (new_ref now ?c header) ?rec"
  have "\<not> ValidString (Name ?file)" using up(2) by (simp add: joined_def)
  from create_file_refused [OF r1(2) this] obtain e' where
    refused: "r_CreateFileReference repo ?file r1 = (Some e', r1)" by blast
  have kept: "r_DeleteStorage repo (sha256_hex ?c) r1 = (None, r1)"
    using delete_storage_kept [OF r1(2), of "sha256_hex ?c" ?rec] r1(5) by simp
  have "Upload (NewStorageService st repo) path fileID now rd header (s, r) = (Inl e', s2, r1)"
    using up(1) s1(1) miss r1(1) refused kept s2(1)
    by (simp add: Upload_def upload_new_def Let_def NewStorageService_def joined_def new_storage_def
        new_ref_def)
  with s2 s2' r1 show ?thesis by auto
qed

end

end
