(* ===== verification/System.thy ===== *)
theory System
  imports LocalStorage Repository ServiceFacts
begin

text \<open>
  The service as cmd/main.go assembles it with the local storage: \<open>StorageService\<close> over
  \<open>LocalStorage\<close> and \<open>FileRepository\<close>. The locale of the service holds of it, its operations with
  complete uploads make a transition system whose reachable states keep the deduplication
  invariant, and the tables and the disk together are seen as a map from ids to files.
\<close>

section \<open>UUIDs as storage paths\<close>

lemma canonical_uuid_text:
  assumes "canonical_uuid i"
  shows "i \<noteq> []" "length i = 36" "set i \<subseteq> insert (CHR ''-'') (set hex_digits)"
proof -
  obtain ds where i: "i = uuid_text ds" and d: "length ds = 32" "set ds \<subseteq> set hex_digits"
    using assms unfolding canonical_uuid_def
    by (fastforce simp: uuid_in_def Let_def split: option.splits prod.splits if_splits
        dest: uuid_digits_Some)
  show "length i = 36" using i d(1) by (simp add: uuid_text_def)
  then show "i \<noteq> []" by auto
  show "set i \<subseteq> insert (CHR ''-'') (set hex_digits)"
    using i d(2) by (auto simp: uuid_text_def dest!: in_set_takeD in_set_dropD)
qed

lemma canonical_uuid_path: "canonical_uuid i \<Longrightarrow> plain_path i \<and> text_ok 500 i"
proof -
  assume i: "canonical_uuid i"
  note t = canonical_uuid_text [OF i]
  have "c \<noteq> CHR ''.'' \<and> c \<noteq> CHR ''/'' \<and> c \<noteq> CHR 0x00 \<and> (of_char c :: nat) < 128" if "c \<in> set i" for c
  proof -
    have "\<forall>c \<in> insert (CHR ''-'') (set hex_digits).
        c \<noteq> CHR ''.'' \<and> c \<noteq> CHR ''/'' \<and> c \<noteq> CHR 0x00 \<and> (of_char c :: nat) < 128"
      by (simp add: hex_digits_def)
    then show ?thesis using t(3) that by blast
  qed
  then have "CHR ''.'' \<notin> set i" "CHR ''/'' \<notin> set i" "CHR 0x00 \<notin> set i" "ascii i"
    by (auto simp: ascii_def)
  moreover have "\<not> Contains i ''..''" using calculation(1) Contains_set by fastforce
  ultimately show ?thesis using t(1,2)
    by (auto simp: plain_path_def plain_elem_def text_ok_def ValidString_ascii RuneCount_ascii)
qed

section \<open>The service\<close>

interpretation svc: storage_service "local_storage_ops s" "local_blobs s" "local_inv s" plain_path
  file_repository storages files cached_file healthy canonical_uuid
  for s
  by unfold_locales (rule canonical_uuid_path)

definition file_service :: "LocalStorage \<Rightarrow> (localfs, repo_state) StorageService" where
  "file_service ls = NewStorageService (local_storage_ops ls) file_repository"

type_synonym sys = "localfs \<times> repo_state"

text \<open>The invariant of the whole: disk and repository in order, and the deduplication invariant.\<close>

definition sys_inv :: "LocalStorage \<Rightarrow> sys \<Rightarrow> bool" where
  "sys_inv ls w \<longleftrightarrow> (case w of (s, r) \<Rightarrow> local_inv ls s \<and> healthy r \<and>
     dedup_ok plain_path (storages r) (files r) (local_blobs ls s))"

lemma sys_invD:
  assumes "sys_inv ls (s, r)"
  shows "local_inv ls s" "healthy r" "dedup_ok plain_path (storages r) (files r) (local_blobs ls s)"
  using assms by (simp_all add: sys_inv_def)

section \<open>Clean runs\<close>

text \<open>
  The runs in which every upload is refused by validation or keeps \<open>upload_ok\<close>: fresh UUIDs, a name
  in UTF-8, and a reader that delivers the whole body. They keep the full deduplication invariant.
  The transition system with all requests is in theory AllRequests.
\<close>

inductive clean_step :: "LocalStorage \<Rightarrow> sys \<Rightarrow> sys \<Rightarrow> bool" for ls :: LocalStorage where
  upload: "upload_ok canonical_uuid (local_blobs ls s) (files r) path fileID rd header \<Longrightarrow>
    Upload (file_service ls) path fileID now rd header (s, r) = (res, w') \<Longrightarrow> clean_step ls (s, r) w'"
| reject: "ValidateFile (Some header) = Some e \<Longrightarrow>
    Upload (file_service ls) path fileID now rd header (s, r) = (res, w') \<Longrightarrow> clean_step ls (s, r) w'"
| download: "Download (file_service ls) i (s, r) = (res, w') \<Longrightarrow> clean_step ls (s, r) w'"
| delete: "canonical_uuid i \<Longrightarrow> Delete (file_service ls) i (s, r) = (res', w') \<Longrightarrow> clean_step ls (s, r) w'"
| list: "svc_List (file_service ls) (s, r) = (res'', w') \<Longrightarrow> clean_step ls (s, r) w'"
| tick: "0 \<le> d \<Longrightarrow> clean_step ls (s, r) (s, r\<lparr>clock := clock r + d\<rparr>)"

inductive clean_reach :: "LocalStorage \<Rightarrow> sys \<Rightarrow> bool" for ls :: LocalStorage where
  start: "local_inv ls s \<Longrightarrow> (\<forall>p. plain_path p \<longrightarrow> local_blobs ls s p = None) \<Longrightarrow>
    db_events r = [] \<Longrightarrow> cache_events r = [] \<Longrightarrow> db r = empty_db \<Longrightarrow> clean_reach ls (s, r)"
| step: "clean_reach ls w \<Longrightarrow> clean_step ls w w' \<Longrightarrow> clean_reach ls w'"

lemma local_Get_same: "local_inv ls s \<Longrightarrow> snd (st_Get (local_storage_ops ls) p s) = s"
  by (auto simp: local_storage_ops_def local_Get_def os_Open_def local_inv_def next_event_Nil
      split: sum.split option.split node.split)

lemma Download_sys_inv:
  assumes "sys_inv ls (s, r)" "Download (file_service ls) i (s, r) = (res, w')"
  shows "sys_inv ls w'"
proof -
  obtain found r' where g: "GetByID i r = (found, r')" by fastforce
  have r': "healthy r'" "storages r' = storages r" "files r' = files r"
    using GetByID_same_tables [of r i] sys_invD(2) [OF assms(1)] g by (simp_all add: same_tables_def)
  then have "sys_inv ls (s, r')" using assms(1) by (simp add: sys_inv_def)
  moreover have "w' = (s, r')"
    using assms(2) g local_Get_same [OF sys_invD(1) [OF assms(1)]]
    by (auto simp: Download_def file_service_def NewStorageService_def file_repository_def
        split: sum.splits prod.splits) (metis snd_conv)+
  ultimately show ?thesis by simp
qed

lemma clean_step_inv: "clean_step ls w w' \<Longrightarrow> sys_inv ls w \<Longrightarrow> sys_inv ls w'"
proof (induction rule: clean_step.induct)
  case (upload s r path fileID rd header now res w')
  note inv = sys_invD [OF upload.prems]
  obtain f s' r' where "w' = (s', r')" "local_inv ls s'" "healthy r'"
      "dedup_ok plain_path (storages r') (files r') (local_blobs ls s')"
    using svc.Upload_keeps [OF inv upload.hyps(1), of now] upload.hyps(2)
    unfolding file_service_def by auto
  then show ?case by (simp add: sys_inv_def)
next
  case (reject header e path fileID now rd s r res w')
  then have "w' = (s, r)" using svc.Upload_invalid [OF reject.hyps(1)]
    by (simp add: file_service_def)
  then show ?case using reject.prems by simp
next
  case (download i s r res w')
  then show ?case using Download_sys_inv by blast
next
  case (delete i s r res' w')
  note inv = sys_invD [OF delete.prems]
  obtain s' r' where "w' = (s', r')" "local_inv ls s'" "healthy r'"
      "dedup_ok plain_path (storages r') (files r') (local_blobs ls s')"
    using svc.Delete_keeps [OF inv delete.hyps(1)] delete.hyps(2)
    unfolding file_service_def by auto
  then show ?case by (simp add: sys_inv_def)
next
  case (list s r res'' w')
  have "w' = (s, snd (ListFiles r))" using list.hyps
    by (simp add: svc_List_def file_service_def NewStorageService_def file_repository_def case_prod_beta)
  then show ?case using ListFiles_same_tables [of r] list.prems
    by (simp add: sys_inv_def same_tables_def)
next
  case (tick d s r)
  then show ?case by (simp add: sys_inv_def)
qed

lemma sys_start_inv:
  assumes "local_inv ls s" "\<forall>p. plain_path p \<longrightarrow> local_blobs ls s p = None"
    "db_events r = []" "cache_events r = []" "db r = empty_db"
  shows "sys_inv ls (s, r)"
proof -
  have "healthy r" unfolding healthy_def assms using db_wf_empty by blast
  moreover have "storages r = (\<lambda>h. None)"
    unfolding storages_def storages_of_def assms(5) by (simp add: empty_db_def)
  ultimately show ?thesis using assms(1,2) by (simp add: sys_inv_def dedup_ok_def)
qed

lemma clean_reach_inv: "clean_reach ls w \<Longrightarrow> sys_inv ls w"
  by (induction rule: clean_reach.induct) (auto intro: sys_start_inv clean_step_inv)

section \<open>The store the users see\<close>

text \<open>
  Without storage records and reference counts: each file id has a name, a time and a content.
\<close>

definition view :: "LocalStorage \<Rightarrow> sys \<Rightarrow> string \<Rightarrow> (string \<times> time \<times> bytes) option" where
  "view ls w i =
     (case w of (s, r) \<Rightarrow>
        (case files r i of
           None \<Rightarrow> None
         | Some f \<Rightarrow>
             (case storages r (ref_hash f) of
                None \<Rightarrow> None
              | Some x \<Rightarrow> map_option (\<lambda>c. (ref_name f, ref_created f, c))
                            (local_blobs ls s (StStoragePath x)))))"

lemma view_Some:
  assumes "sys_inv ls (s, r)" "files r i = Some f"
  shows "\<exists>x c. storages r (ref_hash f) = Some x \<and> local_blobs ls s (StStoragePath x) = Some c \<and>
    sha256_hex c = ref_hash f \<and> view ls (s, r) i = Some (ref_name f, ref_created f, c)"
proof -
  note inv = sys_invD [OF assms(1)]
  obtain x where x: "storages r (ref_hash f) = Some x"
    using fr.foreign_key [OF inv(2) assms(2)] by auto
  from dedup_blob [OF inv(3) x] assms(2) x show ?thesis by (auto simp: view_def)
qed

lemma view_None: "files r i = None \<Longrightarrow> view ls (s, r) i = None"
  by (simp add: view_def)

lemma view_cong: "files r' = files r \<Longrightarrow> storages r' = storages r \<Longrightarrow> view ls (s, r') = view ls (s, r)"
  by (simp only: view_def [abs_def] prod.case)

lemma view_None_iff: "sys_inv ls (s, r) \<Longrightarrow> view ls (s, r) i = None \<longleftrightarrow> files r i = None"
  using view_Some [of ls s r i] by (cases "files r i") (auto simp: view_def)

text \<open>
  No two different contents among the stored ones and the new one have the same digest.
\<close>

definition no_collision :: "LocalStorage \<Rightarrow> localfs \<Rightarrow> bytes \<Rightarrow> bool" where
  "no_collision ls s c \<longleftrightarrow>
     (\<forall>p c'. local_blobs ls s p = Some c' \<and> sha256_hex c' = sha256_hex c \<longrightarrow> c' = c)"

lemma Upload_view:
  assumes inv: "sys_inv ls (s, r)"
    and up: "upload_ok canonical_uuid (local_blobs ls s) (files r) path fileID rd header"
    and nc: "no_collision ls s (rd_data rd)"
  shows "\<exists>f w'. Upload (file_service ls) path fileID now rd header (s, r) = (Inr f, w') \<and>
    ID f = fileID \<and> Name f = HName header \<and> GetSize f = int (length (rd_data rd)) \<and>
    GetChecksum f = sha256_hex (rd_data rd) \<and>
    view ls w' = (view ls (s, r))(fileID \<mapsto> (HName header, now, rd_data rd))"
proof -
  let ?c = "rd_data rd" and ?h = "sha256_hex (rd_data rd)"
  note i3 = sys_invD [OF inv]
  have v: "local_blobs ls s path = None" "files r fileID = None" using up by (simp_all add: upload_ok_def)
  show ?thesis
  proof (cases "storages r ?h")
    case None
    let ?f = "joined fileID (new_ref now ?c header) (new_storage path now ?c header)"
    obtain s' r' where u: "Upload (file_service ls) path fileID now rd header (s, r) = (Inr ?f, s', r')"
        "storages r' = (storages r)(?h \<mapsto> new_storage path now ?c header)"
        "files r' = (files r)(fileID \<mapsto> new_ref now ?c header)"
        "local_blobs ls s' = (local_blobs ls s)(path \<mapsto> ?c)"
      using svc.Upload_new [OF i3 up None, of now] unfolding file_service_def by blast
    have "view ls (s', r') i = ((view ls (s, r))(fileID \<mapsto> (HName header, now, ?c))) i" for i
    proof (cases "i = fileID")
      case False
      show ?thesis
      proof (cases "files r i")
        case fi: (Some f)
        from view_Some [OF inv fi] obtain x c where
          x: "storages r (ref_hash f) = Some x" "local_blobs ls s (StStoragePath x) = Some c"
            "view ls (s, r) i = Some (ref_name f, ref_created f, c)" by blast
        then have "ref_hash f \<noteq> ?h" "StStoragePath x \<noteq> path" using None v(1) by auto
        then show ?thesis using False u fi x by (simp add: view_def)
      qed (use False u in \<open>simp add: view_def\<close>)
    qed (use u in \<open>simp add: view_def\<close>)
    with u(1) show ?thesis by (auto simp: joined_def GetSize_def GetChecksum_def fun_eq_iff)
  next
    case (Some x)
    let ?f = "joined fileID (new_ref now ?c header) x"
    obtain s' r' t where u: "Upload (file_service ls) path fileID now rd header (s, r) = (Inr ?f, s', r')"
        "storages r' = (storages r)(?h \<mapsto> x\<lparr>ReferenceCount := ReferenceCount x + 1, UpdatedAt := t\<rparr>)"
        "files r' = (files r)(fileID \<mapsto> new_ref now ?c header)"
        "local_blobs ls s' = local_blobs ls s"
      using svc.Upload_duplicate [OF i3(1,2) up Some svc.upload_room [OF i3(2,3) up Some], of now] unfolding file_service_def by blast
    obtain c' where "local_blobs ls s (StStoragePath x) = Some c'" "sha256_hex c' = ?h"
        "StSize x = int (length c')"
      using dedup_blob [OF i3(3) Some] by blast
    then have c': "local_blobs ls s (StStoragePath x) = Some ?c" "StSize x = int (length ?c)"
      using nc unfolding no_collision_def by blast+
    have "view ls (s', r') i = ((view ls (s, r))(fileID \<mapsto> (HName header, now, ?c))) i" for i
      using u c'(1) Some by (auto simp: view_def split: option.split)
    with u(1) c'(2) show ?thesis by (auto simp: joined_def GetSize_def GetChecksum_def fun_eq_iff)
  qed
qed

lemma Delete_view:
  assumes inv: "sys_inv ls (s, r)" and i: "canonical_uuid i" "view ls (s, r) i \<noteq> None"
  shows "\<exists>w'. Delete (file_service ls) i (s, r) = (Ok (), w') \<and>
    view ls w' = (view ls (s, r))(i := None)"
proof -
  note i3 = sys_invD [OF inv]
  obtain f where f: "files r i = Some f" using i(2) view_None [of r i ls s] by fastforce
  from view_Some [OF inv f] obtain x c where x: "storages r (ref_hash f) = Some x" by blast
  show ?thesis
  proof (cases "ReferenceCount x = 1")
    case True
    obtain s' r' where u: "Delete (file_service ls) i (s, r) = (Ok (), s', r')"
        "files r' = (files r)(i := None)" "storages r' = (storages r)(ref_hash f := None)"
        "local_blobs ls s' = (local_blobs ls s)(StStoragePath x := None)"
      using svc.Delete_last [OF i3 i(1) f x True] unfolding file_service_def by blast
    have "view ls (s', r') j = ((view ls (s, r))(i := None)) j" for j
    proof (cases "j \<noteq> i \<and> files r j \<noteq> None")
      case True
      then obtain g where g: "files r j = Some g" "j \<noteq> i" by auto
      from view_Some [OF inv g(1)] obtain y where y: "storages r (ref_hash g) = Some y" by blast
      have "ref_hash g \<noteq> ref_hash f"
        using last_reference [OF i3(3) x fr.finite_files [OF i3(2)] f \<open>ReferenceCount x = 1\<close>, of j g] g
        by simp
      moreover then have "StStoragePath y \<noteq> StStoragePath x" using fr.paths_unique [OF i3(2) y x] by blast
      ultimately show ?thesis using u g y by (simp add: view_def)
    next
      case False
      then show ?thesis using u by (auto simp: view_def)
    qed
    with u(1) show ?thesis by (auto simp: fun_eq_iff)
  next
    case False
    obtain r' t where u: "Delete (file_service ls) i (s, r) = (Ok (), s, r')"
        "files r' = (files r)(i := None)"
        "storages r' = (storages r)(ref_hash f \<mapsto> x\<lparr>ReferenceCount := ReferenceCount x - 1, UpdatedAt := t\<rparr>)"
      using svc.Delete_shared [OF i3 i(1) f x False] unfolding file_service_def by blast
    have "view ls (s, r') j = ((view ls (s, r))(i := None)) j" for j
      using u x by (auto simp: view_def split: option.split)
    with u(1) show ?thesis by (auto simp: fun_eq_iff)
  qed
qed

lemma Download_view:
  assumes inv: "sys_inv ls (s, r)" and i: "canonical_uuid i" "cached_file r i = None"
    and c: "view ls (s, r) i = Some (n, t, c)"
  shows "\<exists>f w'. Download (file_service ls) i (s, r) = (Inr (reader_of c, f), w') \<and>
    ID f = i \<and> Name f = n \<and> CreatedAt f = t \<and> view ls w' = view ls (s, r)"
proof -
  note i3 = sys_invD [OF inv]
  obtain f where f: "files r i = Some f" using c view_None [of r i ls s] by fastforce
  from view_Some [OF inv f] c obtain x where x: "storages r (ref_hash f) = Some x"
      "local_blobs ls s (StStoragePath x) = Some c" "ref_name f = n" "ref_created f = t" by auto
  from svc.Download_fresh [OF i3 i(1) f i(2)] x obtain r' where
    "Download (file_service ls) i (s, r) = (Inr (reader_of c, joined i f x), s, r')"
    "storages r' = storages r" "files r' = files r" unfolding file_service_def by auto
  with x show ?thesis by (auto simp: joined_def view_cong [of r' r])
qed

lemma Download_size:
  assumes inv: "sys_inv ls (s, r)" and i: "canonical_uuid i" "cached_file r i = None"
    and c: "view ls (s, r) i = Some (n, t, c)"
  shows "\<exists>f w'. Download (file_service ls) i (s, r) = (Inr (reader_of c, f), w') \<and>
    Name f = n \<and> GetSize f = int (length c) \<and> view ls w' = view ls (s, r)"
proof -
  note i3 = sys_invD [OF inv]
  obtain f where f: "files r i = Some f" using c view_None [of r i ls s] by fastforce
  from svc.Download_fresh [OF i3 i(1) f i(2)] obtain c' x r' where d:
      "Download (file_service ls) i (s, r) = (Inr (reader_of c', joined i f x), s, r')"
      "storages r (ref_hash f) = Some x" "local_blobs ls s (StStoragePath x) = Some c'"
      "StSize x = int (length c')" "storages r' = storages r" "files r' = files r"
    unfolding file_service_def by auto
  then have "c' = c" "ref_name f = n" using c f by (auto simp: view_def)
  with d show ?thesis by (auto simp: joined_def GetSize_def view_cong [of r' r])
qed

end
