(* ===== verification/RepositoryFacts.thy ===== *)
theory RepositoryFacts
  imports Repository
begin

text \<open>
  What \<open>FileRepository\<close> does beyond its contract: the schema under faults, the list and its cache,
  the cache of files, and the legacy paths.
\<close>

section \<open>The schema under faults\<close>

lemma db_events_simps [simp]: "db (snd (next_db_event w)) = db w" "db (snd (next_cache_event w)) = db w"
  by (auto simp: next_db_event_def next_cache_event_def split: list.split)

lemma db_cache [simp]:
  "db (cache_set k j ttl w) = db w" "db (cache_del k w) = db w" "db (snd (cache_get k w)) = db w"
  "db (cache_file k f w) = db w" "db (cache_list fs w) = db w"
proof -
  obtain ev w' where ev: "next_cache_event w = (ev, w')" by fastforce
  have same: "db w' = db w" using db_events_simps(2) [of w] ev by simp
  show set: "db (cache_set k j ttl w) = db w" for k j ttl using ev same by (simp add: cache_set_def)
  show "db (cache_del k w) = db w" using ev same by (simp add: cache_del_def)
  show "db (snd (cache_get k w)) = db w" using ev same by (simp add: cache_get_def)
  show "db (cache_file k f w) = db w" using set by (simp add: cache_file_def split: option.split)
  show "db (cache_list fs w) = db w" using set by (simp add: cache_list_def split: option.split)
qed

lemma run_sql_db: "db (snd (run_sql stmt w)) \<in> {db w, snd (stmt (db w))}"
proof -
  obtain ev w' where ev: "next_db_event w = (ev, w')" by fastforce
  have "db w' = db w" using db_events_simps(1) [of w] ev by simp
  then show ?thesis using ev by (auto simp: run_sql_def split: db_event.split prod.split)
qed

lemma run_sql_wf:
  "db_wf (db w) \<Longrightarrow> db_wf (snd (stmt (db w))) \<Longrightarrow> run_sql stmt w = (r, w') \<Longrightarrow> db_wf (db w')"
  using run_sql_db [of stmt w] by auto

lemma run_sql_reads: "snd (stmt (db w)) = db w \<Longrightarrow> run_sql stmt w = (r, w') \<Longrightarrow> db w' = db w"
  using run_sql_db [of stmt w] by auto

lemma run_query_db: "run_query stmt w = (r, w') \<Longrightarrow> db w' = db w"
proof -
  obtain ev w1 where ev: "next_db_event w = (ev, w1)" by fastforce
  have "db w1 = db w" using db_events_simps(1) [of w] ev by simp
  then show "run_query stmt w = (r, w') \<Longrightarrow> ?thesis"
    using ev by (auto simp: run_query_def split: db_event.splits prod.splits)
qed

lemma reads_keep_db:
  "db (snd (GetStorageByHash h w)) = db w" "db (snd (GetByStorageHash h w)) = db w"
  "db (snd (GetByChecksum h w)) = db w" "db (snd (GetByID i w)) = db w"
  "db (snd (GetStorageHashByFileID i w)) = db w" "db (snd (ListFiles w)) = db w"
proof -
  have by_hash: "run_sql (select_join_by_hash h) w = (r, w') \<Longrightarrow> db w' = db w" for r w w'
    by (rule run_sql_reads [of "select_join_by_hash h"]) simp_all
  have stor: "run_sql (select_storage h) w = (r, w') \<Longrightarrow> db w' = db w" for r w w'
    by (rule run_sql_reads [of "select_storage h"]) simp_all
  have ck: "run_sql (select_by_checksum h) w = (r, w') \<Longrightarrow> db w' = db w" for r w w'
    by (rule run_sql_reads [of "select_by_checksum h"]) simp_all
  show "db (snd (GetByStorageHash h w)) = db w"
    by (auto simp: GetByStorageHash_def dest!: by_hash split: prod.split sum.split option.split)
  show "db (snd (GetStorageByHash h w)) = db w"
    by (auto simp: GetStorageByHash_def dest!: stor split: prod.split sum.split option.split)
  show "db (snd (GetByChecksum h w)) = db w"
    by (auto simp: GetByChecksum_def GetByStorageHash_def dest!: by_hash ck
        split: prod.splits sum.splits option.splits)
  have sel: "run_sql (select_file i) w = (r, w') \<Longrightarrow> db w' = db w" for r w w'
    by (rule run_sql_reads [of "select_file i"]) simp_all
  show "db (snd (GetStorageHashByFileID i w)) = db w"
    by (auto simp: GetStorageHashByFileID_def Let_def dest!: sel split: prod.split sum.split option.split)
  obtain v w2 where c: "cache_get (file_key i) w = (v, w2)" by fastforce
  have c2: "db w2 = db w" using db_cache(3) [of "file_key i" w] c by simp
  have join: "run_sql (select_join_by_id i) w = (r, w') \<Longrightarrow> db w' = db w" for r w w'
    by (rule run_sql_reads [of "select_join_by_id i"]) simp_all
  show "db (snd (GetByID i w)) = db w"
    using c2 by (auto simp: GetByID_def c Let_def dest!: sel join
        split: prod.split sum.split option.split)
  obtain v w3 where c: "cache_get list_key w = (v, w3)" by fastforce
  have "db w3 = db w" using db_cache(3) [of list_key w] c by simp
  then show "db (snd (ListFiles w)) = db w"
    by (auto simp: ListFiles_def c Let_def dest!: run_query_db split: prod.split sum.split option.split)
qed

text \<open>
  Every operation of the repository keeps the constraints of the schema whatever the database
  and the cache do: with any schedule of failed statements, of statements whose reply is lost,
  of result sets cut off and of failed cache commands.
\<close>

theorem schema_kept_under_faults:
  assumes "db_wf (db w)"
  shows "db_wf (db (snd (CreateStorage st w))) \<and> db_wf (db (snd (IncrementStorageRef h w)))
    \<and> db_wf (db (snd (DecrementStorageRef h w))) \<and> db_wf (db (snd (DeleteStorage h w)))
    \<and> db_wf (db (snd (CreateFileReference f w))) \<and> db_wf (db (snd (Create f w)))
    \<and> db_wf (db (snd (DeleteByID i w)))
    \<and> db (snd (GetStorageByHash h w)) = db w \<and> db (snd (GetByStorageHash h w)) = db w
    \<and> db (snd (GetByChecksum h w)) = db w \<and> db (snd (GetByID i w)) = db w
    \<and> db (snd (GetStorageHashByFileID i w)) = db w \<and> db (snd (ListFiles w)) = db w"
proof (intro conjI reads_keep_db)
  note wf = run_sql_wf [OF assms]
  have ins: "run_sql (insert_file i n h t) w = (r, w') \<Longrightarrow> db_wf (db w')" for i n h t r w'
    by (rule wf [of "insert_file i n h t"]) (simp_all add: insert_file_wf assms)
  have leg: "run_sql (insert_legacy_file f) w = (r, w') \<Longrightarrow> db_wf (db w')" for r w'
    using insert_legacy_file_refused [of f "db w"] assms
    by (intro wf [of "insert_legacy_file f"]) auto
  have upd: "run_sql (update_storage_ref k t h) w = (r, w') \<Longrightarrow> db_wf (db w')" for k t h r w'
    by (rule wf [of "update_storage_ref k t h"]) (simp_all add: update_storage_ref_wf assms)
  show "db_wf (db (snd (CreateStorage st w)))"
    using wf [of "insert_storage st"] insert_storage_wf [OF assms]
    by (auto simp: CreateStorage_def split: prod.split sum.split)
  show "db_wf (db (snd (IncrementStorageRef h w)))" "db_wf (db (snd (DecrementStorageRef h w)))"
    using upd by (auto simp: IncrementStorageRef_def DecrementStorageRef_def Let_def
        split: prod.split sum.split option.split)
  show "db_wf (db (snd (DeleteStorage h w)))"
    using wf [of "delete_storage h"] delete_storage_wf [OF assms]
    by (auto simp: DeleteStorage_def split: prod.split sum.split)
  show create: "db_wf (db (snd (CreateFileReference f w)))"
    using ins by (auto simp: CreateFileReference_def split: prod.split sum.split)
  show "db_wf (db (snd (Create f w)))"
    using create leg by (auto simp: Create_def split: prod.split sum.split)
  show "db_wf (db (snd (DeleteByID i w)))"
    using wf [of "delete_file i"] delete_file_wf [OF assms]
    by (auto simp: DeleteByID_def split: prod.split)
qed

definition empty_repo :: repo_state where
  "empty_repo = \<lparr>db = empty_db, db_events = [], cache = (\<lambda>k. None), cache_events = [], clock = 0\<rparr>"

lemma empty_repo_healthy: "healthy empty_repo"
  unfolding healthy_def by (simp add: empty_repo_def)

theorem schema_kept_under_faults_witness:
  "db_wf (db (snd (CreateFileReference zero_File (empty_repo\<lparr>db_events := [DbLost ErrNoRows]\<rparr>))))"
  using schema_kept_under_faults [of "empty_repo\<lparr>db_events := [DbLost ErrNoRows]\<rparr>" _ _ zero_File]
  by (simp add: empty_repo_def)

section \<open>Listing\<close>

lemma join_rows_concat:
  "join_rows d = concat (map (\<lambda>f. map (Pair f) (filter (\<lambda>s. Hash s = fr_storage_hash f) (storage_tbl d)))
     (files_tbl d))"
proof -
  have one: "concat (map (\<lambda>s. if Hash s = fr_storage_hash f then [(f, s)] else []) ss) =
      map (Pair f) (filter (\<lambda>s. Hash s = fr_storage_hash f) ss)" for f :: file_row and ss :: "Storage list"
    by (induction ss) auto
  show ?thesis by (simp add: join_rows_def one)
qed

lemma map_fst_join_rows:
  assumes "db_wf d"
  shows "map fst (join_rows d) = files_tbl d"
proof -
  have "map fst (concat (map (\<lambda>f. map (Pair f) (filter (\<lambda>s. Hash s = fr_storage_hash f) (storage_tbl d))) fs)) = fs"
    if "set fs \<subseteq> set (files_tbl d)" for fs
    using that
  proof (induction fs)
    case (Cons f fs)
    then obtain s where s: "s \<in> set (storage_tbl d)" "Hash s = fr_storage_hash f"
      using assms by (auto simp: db_wf_def list_pred_iff)
    have "filter (\<lambda>x. Hash x = fr_storage_hash f) (storage_tbl d) = [s]"
      using filter_eq_single [of Hash "storage_tbl d" s] s assms by (simp add: db_wf_def)
    with Cons show ?case by simp
  qed simp
  then show ?thesis unfolding join_rows_concat by blast
qed

lemma ListFiles_uncached:
  assumes "cache_events w = []" "cache w list_key = None"
  shows "ListFiles w =
    (case run_query select_join_all w of
       (Inr rows, w) \<Rightarrow> (Inr (map (\<lambda>(f, s). join_file f s) rows), cache_list (map (\<lambda>(f, s). join_file f s) rows) w)
     | (Inl _, w) \<Rightarrow>
         (case run_query select_files_all w of
            (Inl e, w) \<Rightarrow> (Inl e, w)
          | (Inr rows, w) \<Rightarrow>
              (case legacy_scan_loop rows of
                 Inl e \<Rightarrow> (Inl e, w)
               | Inr fs \<Rightarrow> (Inr fs, cache_list fs w))))"
proof -
  have "cache_get list_key w = (None, w)"
    using assms by (simp add: cache_get_def next_cache_event_def)
  then show ?thesis unfolding ListFiles_def Let_def by simp
qed

text \<open>
  C29: Without a cached list, \<open>List\<close> returns every file exactly once, newest first, each with the
  fields of its storage record, and changes neither table.
\<close>

theorem list_complete:
  assumes "healthy w" and "cache w list_key = None"
  shows "\<exists>fs w'. ListFiles w = (Inr fs, w') \<and> distinct (map ID fs)
    \<and> sorted (map (\<lambda>f. - CreatedAt f) fs)
    \<and> set fs = {joined i f s | i f s. files w i = Some f \<and> storages w (ref_hash f) = Some s}
    \<and> storages w' = storages w \<and> files w' = files w"
proof -
  let ?d = "db w"
  let ?rows = "sort_key (\<lambda>p. - fr_created_at (fst p)) (join_rows ?d)"
  let ?fs = "map (\<lambda>(f, s). join_file f s) ?rows"
  have wf: "db_wf ?d" using assms(1) by simp
  have run: "ListFiles w = (Inr ?fs, cache_list ?fs w)"
    using assms by (simp add: ListFiles_uncached run_query_healthy select_join_all_def)
  have ids: "map ID ?fs = map (fr_id \<circ> fst) ?rows" by (auto simp: join_file_def)
  have "map (fr_id \<circ> fst) (join_rows ?d) = map fr_id (files_tbl ?d)"
    using map_fst_join_rows [OF wf] by (metis map_map)
  then have "distinct (map (fr_id \<circ> fst) (join_rows ?d))" using wf by (simp add: db_wf_def)
  then have "distinct (map ID ?fs)" unfolding ids distinct_map by simp
  moreover have "map (\<lambda>f. - CreatedAt f) ?fs = map (\<lambda>p. - fr_created_at (fst p)) ?rows"
    by (auto simp: join_file_def)
  then have "sorted (map (\<lambda>f. - CreatedAt f) ?fs)" by (simp only: sorted_sort_key)
  moreover have "set ?fs = {joined i f s | i f s. files w i = Some f \<and> storages w (ref_hash f) = Some s}"
  proof -
    have "join_file r s = joined (fr_id r) (row_ref r) s" for r s
      by (simp add: join_file_def joined_def row_ref_def)
    then have "set ?fs = {joined (fr_id r) (row_ref r) s | r s. r \<in> set (files_tbl ?d) \<and>
        s \<in> set (storage_tbl ?d) \<and> Hash s = fr_storage_hash r}"
      by (force simp: join_rows_mem)
    also have "\<dots> = {joined i f s | i f s. files w i = Some f \<and> storages w (ref_hash f) = Some s}"
      unfolding files_def storages_def files_of_Some [OF wf] storages_of_Some [OF wf] by force
    finally show ?thesis .
  qed
  moreover have "storages (cache_list ?fs w) = storages w \<and> files (cache_list ?fs w) = files w"
    using same_tables_cache_list [of w ?fs] assms(1) by (simp add: same_tables_def)
  ultimately show ?thesis using run by blast
qed

text \<open>
  C30: \<open>rows.Err\<close> is never asked: when the database stops sending after \<open>n\<close> rows, \<open>List\<close> returns the
  first \<open>n\<close> files without an error and caches them, so for the next ten minutes every caller is
  given the truncated list, although the database answers again.
\<close>

theorem list_truncated_and_cached:
  assumes "db_wf (db w)" and "cache_events w = []" and "cache w list_key = None"
    and "db_events w = [DbCut n e]" and "0 \<le> dt" and "dt < ten_minutes"
    and "list_all (\<lambda>f. json_time_ok (fr_created_at f)) (files_tbl (db w))"
    and "list_all (\<lambda>s. json_time_ok (StCreatedAt s) \<and> json_time_ok (UpdatedAt s)) (storage_tbl (db w))"
  shows "\<exists>fs w'. ListFiles w = (Inr fs, w') \<and> length fs = min n (length (files_tbl (db w)))
    \<and> db w' = db w \<and> db_events w' = []
    \<and> ListFiles (w'\<lparr>clock := clock w' + dt\<rparr>) = (Inr (map strip_File fs), w'\<lparr>clock := clock w' + dt\<rparr>)"
proof -
  let ?rows = "take n (sort_key (\<lambda>p. - fr_created_at (fst p)) (join_rows (db w)))"
  let ?fs = "map (\<lambda>(f, s). join_file f s) ?rows"
  have "run_query select_join_all w = (Inr ?rows, w\<lparr>db_events := []\<rparr>)"
    using assms(4) by (simp add: run_query_def next_db_event_def select_join_all_def)
  then have run: "ListFiles w = (Inr ?fs, cache_list ?fs (w\<lparr>db_events := []\<rparr>))"
    using assms(2,3) by (simp add: ListFiles_uncached)
  have "length (join_rows (db w)) = length (files_tbl (db w))"
    using map_fst_join_rows [OF assms(1)] by (metis length_map)
  then have len: "length ?fs = min n (length (files_tbl (db w)))" by simp
  have ok: "marshal_all xs \<noteq> None" if "\<forall>x \<in> set xs. marshal_File x \<noteq> None" for xs
    using that by (induction xs) auto
  have "marshal_File x \<noteq> None" if "x \<in> set ?fs" for x
  proof -
    from that obtain r s where "x = join_file r s" "(r, s) \<in> set (join_rows (db w))"
      by (auto dest!: in_set_takeD)
    then show ?thesis using assms(7,8)
      by (auto simp: marshal_File_def marshal_Storage_def join_file_def join_rows_mem list_all_iff)
  qed
  then have "marshal_all ?fs \<noteq> None" using ok by blast
  then obtain j where j: "marshal_Files ?fs = Some j"
    unfolding marshal_Files_def by (cases "?fs = []") (auto simp del: map_is_Nil_conv)
  let ?w = "w\<lparr>db_events := [], cache := (cache w)(list_key \<mapsto> (j, clock w + ten_minutes))\<rparr>"
  have w': "cache_list ?fs (w\<lparr>db_events := []\<rparr>) = ?w"
    using assms(2) by (simp add: cache_list_def j cache_healthy)
  have "cache_get list_key (?w\<lparr>clock := clock ?w + dt\<rparr>) = (Some j, ?w\<lparr>clock := clock ?w + dt\<rparr>)"
    using assms(2,6) by (simp add: cache_get_def next_cache_event_def)
  then have "ListFiles (?w\<lparr>clock := clock ?w + dt\<rparr>) = (Inr (map strip_File ?fs), ?w\<lparr>clock := clock ?w + dt\<rparr>)"
    using unmarshal_marshal_Files [OF j] unfolding ListFiles_def by simp
  then show ?thesis using run len w' by (intro exI [of _ ?fs] exI [of _ ?w]) simp
qed

section \<open>Statements under a schedule\<close>

text \<open>One statement succeeds, or fails, and the schedule moves on.\<close>

lemma run_sql_ok:
  "db_events w = DbOk # evs \<Longrightarrow>
   run_sql stmt w = (fst (stmt (db w)), w\<lparr>db := snd (stmt (db w)), db_events := evs\<rparr>)"
  by (simp add: run_sql_def next_db_event_def split: prod.split)

lemma run_sql_fail: "db_events w = DbFail e # evs \<Longrightarrow> run_sql stmt w = (Inl e, w\<lparr>db_events := evs\<rparr>)"
  by (simp add: run_sql_def next_db_event_def split: prod.split)

lemma cache_del_events: "cache_del k (w\<lparr>db_events := evs\<rparr>) = (cache_del k w)\<lparr>db_events := evs\<rparr>"
  by (simp add: cache_del_def next_cache_event_def split: list.split)

lemma DeleteByID_ok:
  assumes "db_events w = []" "DeleteByID i w = (err, w')"
  shows "DeleteByID i (w\<lparr>db_events := DbOk # evs\<rparr>) = (err, w'\<lparr>db_events := evs\<rparr>)"
  using assms by (auto simp: DeleteByID_def run_sql_ok run_sql_healthy cache_del_events)

lemma GetStorageHashByFileID_ok:
  assumes "healthy w" "canonical_uuid i" "files w i = Some f" "ref_hash f \<noteq> []"
  shows "GetStorageHashByFileID i (w\<lparr>db_events := DbOk # evs\<rparr>) = (Inr (ref_hash f), w\<lparr>db_events := evs\<rparr>)"
proof -
  obtain r where r: "select_file i (db w) = (Inr (Some r), db w)" "row_ref r = f"
    using select_file_hit [of "db w" i f] assms by (auto simp: files_def)
  then have "fr_storage_hash r = ref_hash f" by auto
  with r(1) assms(4) show ?thesis
    by (simp add: GetStorageHashByFileID_def run_sql_ok Let_def)
qed

lemma DecrementStorageRef_fail:
  "db_events w = DbFail e # evs \<Longrightarrow> DecrementStorageRef h w = ((0, Some e), w\<lparr>db_events := evs\<rparr>)"
  by (simp add: DecrementStorageRef_def Let_def scanned_row_def next_db_event_def run_sql_fail)

section \<open>The cache of files\<close>

text \<open>A file read, cached, and read again within the hour.\<close>

lemma cached_read_gone:
  assumes "healthy w" "canonical_uuid i" "cached_file w i = None" "files w i = Some f"
    "storages w (ref_hash f) = Some s"
    "json_time_ok (ref_created f) \<and> json_time_ok (StCreatedAt s) \<and> json_time_ok (UpdatedAt s)"
    "0 \<le> dt" "dt < one_hour"
  obtains w' where "GetByID i w = (Inr (joined i f s), w')"
    "GetByID i (w'\<lparr>clock := clock w + dt\<rparr>) = (Inr (strip_File (joined i f s)), w'\<lparr>clock := clock w + dt\<rparr>)"
    "clock w' = clock w" "files w' = files w" "storages w' = storages w"
proof -
  let ?f = "joined i f s"
  have "marshal_File ?f \<noteq> None"
    using assms(6) by (simp add: marshal_File_def marshal_Storage_def joined_def)
  then obtain j where j: "marshal_File ?f = Some j" by auto
  let ?w = "w\<lparr>cache := (cache w)(file_key i \<mapsto> (j, clock w + one_hour))\<rparr>"
  have w': "cache_file (file_key i) ?f w = ?w" using assms(1) j by (simp add: cache_file_healthy)
  have first: "GetByID i w = (Inr ?f, ?w)" using GetByID_hit [OF assms(1-5)] w' by simp
  have "cached_file (?w\<lparr>clock := clock w + dt\<rparr>) i = Some (strip_File ?f)"
    using assms(8) unmarshal_marshal_File [OF j] by (simp add: cached_file_def)
  then have "GetByID i (?w\<lparr>clock := clock w + dt\<rparr>) = (Inr (strip_File ?f), ?w\<lparr>clock := clock w + dt\<rparr>)"
    using assms(1) by (intro GetByID_cached) simp_all
  with first show ?thesis by (intro that [of ?w]) simp_all
qed

text \<open>
  \<open>StoragePath\<close> is not part of the JSON form, so the file \<open>GetByID\<close> returns depends on the
  cache: the first read has the storage path, and every read within the following hour gives
  the same file with an empty one.
\<close>

theorem cached_read_loses_path:
  assumes "healthy w" and "canonical_uuid i" and "cached_file w i = None"
    and "files w i = Some f" and "storages w (ref_hash f) = Some s"
    and "json_time_ok (ref_created f) \<and> json_time_ok (StCreatedAt s) \<and> json_time_ok (UpdatedAt s)"
    and "0 \<le> dt" and "dt < one_hour"
  shows "\<exists>w'. GetByID i w = (Inr (joined i f s), w') \<and> GetStoragePath (joined i f s) = StStoragePath s
    \<and> GetByID i (w'\<lparr>clock := clock w + dt\<rparr>) = (Inr (strip_File (joined i f s)), w'\<lparr>clock := clock w + dt\<rparr>)
    \<and> GetStoragePath (strip_File (joined i f s)) = []"
proof -
  from cached_read_gone [OF assms] obtain w' where "GetByID i w = (Inr (joined i f s), w')"
    "GetByID i (w'\<lparr>clock := clock w + dt\<rparr>) = (Inr (strip_File (joined i f s)), w'\<lparr>clock := clock w + dt\<rparr>)"
    by blast
  then show ?thesis by (intro exI [of _ w']) (simp, simp add: GetStoragePath_def joined_def)
qed

definition example_storage :: Storage where
  "example_storage = \<lparr>Hash = ''h'', StSize = 3, StContentType = ''text/plain'', StStoragePath = ''p'',
     ReferenceCount = 1, StCreatedAt = 0, UpdatedAt = 0\<rparr>"

definition example_id :: string where
  "example_id = ''0a1b2c3d-0000-4000-8000-0123456789ab''"

definition example_repo :: repo_state where
  "example_repo = empty_repo\<lparr>db := \<lparr>storage_tbl = [example_storage],
     files_tbl = [\<lparr>fr_id = example_id, fr_name = ''a.txt'', fr_storage_hash = ''h'', fr_created_at = 0,
       fr_size = None, fr_content_type = None, fr_storage_path = None, fr_checksum = None\<rparr>]\<rparr>\<rparr>"

lemma example_id_ok: "canonical_uuid example_id"
  by code_simp

lemma example_repo_healthy: "healthy example_repo"
proof -
  have "db_wf (db example_repo)" by code_simp
  then show ?thesis unfolding healthy_def by (simp add: example_repo_def empty_repo_def)
qed

lemma example_repo_maps:
  "files example_repo example_id = Some \<lparr>ref_name = ''a.txt'', ref_hash = ''h'', ref_created = 0\<rparr>"
  "storages example_repo ''h'' = Some example_storage"
  "cached_file example_repo i = None"
  by (simp_all add: files_def storages_def example_repo_def empty_repo_def files_of_def storages_of_def
      row_ref_def example_storage_def cached_file_def)

theorem cached_read_loses_path_witness:
  "\<exists>w' x. GetByID example_id w' = (Inr x, w') \<and> GetStoragePath x = []"
proof -
  let ?f = "\<lparr>ref_name = ''a.txt'', ref_hash = ''h'', ref_created = 0\<rparr>"
  have "storages example_repo (ref_hash ?f) = Some example_storage" by (simp add: example_repo_maps)
  moreover have "json_time_ok (ref_created ?f) \<and> json_time_ok (StCreatedAt example_storage) \<and>
      json_time_ok (UpdatedAt example_storage)" by code_simp
  ultimately obtain w' where "GetByID example_id (w'\<lparr>clock := clock example_repo + 5\<rparr>) =
      (Inr (strip_File (joined example_id ?f example_storage)), w'\<lparr>clock := clock example_repo + 5\<rparr>)"
    using cached_read_loses_path [OF example_repo_healthy example_id_ok example_repo_maps(3,1),
        of example_storage 5] by (auto simp: one_hour_def)
  then show ?thesis using GetStoragePath_strip by blast
qed

text \<open>
  C31: The key of a cached file is the id as the client spells it, while the database reads a UUID
  in any spelling: deleting a file under another spelling of its id removes its row but not its
  cached entry, and reading it under the usual spelling still succeeds.
\<close>

theorem deleted_file_still_cached:
  assumes "healthy w" and "uuid_in j = Inr i" and "j \<noteq> i" and "cached_file w i = Some x"
  shows "\<exists>w'. DeleteByID j w = (None, w') \<and> files w' i = None \<and> GetByID i w' = (Inr x, w')"
proof -
  have i: "canonical_uuid i" using assms(2) by (rule uuid_in_canonical)
  obtain d where d: "delete_file i (db w) = (Inr (), d)" "files_of d = (files_of (db w))(i := None)"
    using delete_file_maps [OF i, of "db w"] by (auto simp: files_def)
  have "delete_file j (db w) = (Inr (), d)"
    using d(1) assms(2) i by (simp add: delete_file_def canonical_uuid_def)
  then have run: "run_sql (delete_file j) w = (Inr (), w\<lparr>db := d\<rparr>)"
    using assms(1) by (simp add: run_sql_healthy)
  let ?w = "w\<lparr>db := d, cache := ((cache w)(file_key j := None))(list_key := None)\<rparr>"
  have del: "DeleteByID j w = (None, ?w)"
    using run assms(1) by (simp add: DeleteByID_def cache_healthy)
  moreover have "cached_file ?w i = Some x" using assms(3,4) by (auto simp: cached_file_def split: option.splits)
  then have "GetByID i ?w = (Inr x, ?w)" using assms(1) by (intro GetByID_cached) simp_all
  moreover have "files ?w i = None" using d(2) by simp
  ultimately show ?thesis by blast
qed

theorem deleted_file_still_cached_witness:
  "\<exists>w w' x. DeleteByID ''0A1B2C3D-0000-4000-8000-0123456789AB'' w = (None, w') \<and>
     files w' example_id = None \<and> GetByID example_id w' = (Inr x, w')"
proof -
  obtain w' where w': "GetByID example_id example_repo = (Inr (joined example_id
        \<lparr>ref_name = ''a.txt'', ref_hash = ''h'', ref_created = 0\<rparr> example_storage), w')"
      "w' = cache_file (file_key example_id) (joined example_id
        \<lparr>ref_name = ''a.txt'', ref_hash = ''h'', ref_created = 0\<rparr> example_storage) example_repo"
    using GetByID_hit [OF example_repo_healthy example_id_ok example_repo_maps(3,1)]
      example_repo_maps(2) by simp
  have "marshal_File (joined example_id \<lparr>ref_name = ''a.txt'', ref_hash = ''h'', ref_created = 0\<rparr>
      example_storage) \<noteq> None"
    by (simp add: marshal_File_def marshal_Storage_def joined_def json_time_ok_def example_storage_def)
  from cached_after [OF example_repo_healthy this] obtain x where "cached_file w' example_id = Some x"
    using w'(2) by auto
  moreover have "healthy w'" using w'(2) example_repo_healthy by simp
  moreover have "uuid_in ''0A1B2C3D-0000-4000-8000-0123456789AB'' = Inr example_id" by code_simp
  moreover have "''0A1B2C3D-0000-4000-8000-0123456789AB'' \<noteq> example_id" by code_simp
  ultimately show ?thesis using deleted_file_still_cached by blast
qed

section \<open>The legacy paths\<close>

text \<open>
  \<open>Create\<close> on a file without a storage hash always fails and writes nothing, whatever the
  database answers: its insertion leaves out a column that is \<open>NOT NULL\<close>.
\<close>

theorem legacy_create_refused:
  assumes "StorageHash x = []"
  shows "\<exists>e w'. Create x w = (Some e, w') \<and> db w' = db w"
proof -
  obtain e where e: "insert_legacy_file x (db w) = (Inl e, db w)"
    using insert_legacy_file_refused by blast
  obtain ev w1 where ev: "next_db_event w = (ev, w1)" by fastforce
  have "db w1 = db w" using db_events_simps(1) [of w] ev by simp
  then show ?thesis using assms e ev
    by (auto simp: Create_def run_sql_def split: db_event.split)
qed

theorem legacy_create_refused_witness: "\<exists>e w'. Create zero_File empty_repo = (Some e, w')"
  using legacy_create_refused [of zero_File empty_repo] by (auto simp: zero_File_def)

text \<open>
  The fallback of \<open>GetByChecksum\<close> to the legacy columns never finds a file: with the
  constraints of the schema in force, what \<open>GetByChecksum\<close> finds, \<open>GetByStorageHash\<close> found.
\<close>

theorem legacy_lookup_dead:
  assumes "db_wf (db w)" and "GetByChecksum c w = (Inr f, w')"
  shows "GetByStorageHash c w = (Inr f, w')"
proof (cases "GetByStorageHash c w")
  case (Pair r w1)
  show ?thesis
  proof (cases r)
    case (Inr g)
    then show ?thesis using Pair assms(2) by (simp add: GetByChecksum_def)
  next
    case (Inl e)
    have "db_wf (db w1)" using reads_keep_db(2) [of c w] assms(1) Pair by simp
    moreover have "find (\<lambda>f. fr_checksum f = Some k) (files_tbl d) = None" if "db_wf d" for d k
      using that by (auto simp: db_wf_def list_pred_iff find_None_iff row_ok_def)
    ultimately have "\<forall>g d. select_by_checksum c (db w1) \<noteq> (Inr (Some g), d)"
      by (auto simp: select_by_checksum_def split: sum.split)
    moreover obtain ev w2 where ev: "next_db_event w1 = (ev, w2)" by fastforce
    then have "db w2 = db w1" using db_events_simps(1) [of w1] by simp
    ultimately have "\<nexists>g w3. run_sql (select_by_checksum c) w1 = (Inr (Some g), w3)"
      using ev by (auto simp: run_sql_def split: db_event.splits prod.splits)
    then show ?thesis using Pair Inl assms(2)
      by (auto simp: GetByChecksum_def split: prod.splits sum.splits option.splits)
  qed
qed

theorem legacy_lookup_dead_witness:
  "\<exists>w'. GetByStorageHash ''h'' example_repo = (Inr (joined example_id
     \<lparr>ref_name = ''a.txt'', ref_hash = ''h'', ref_created = 0\<rparr> example_storage), w')"
proof -
  have "GetByChecksum ''h'' example_repo = (Inr (joined example_id
      \<lparr>ref_name = ''a.txt'', ref_hash = ''h'', ref_created = 0\<rparr> example_storage), example_repo)"
  proof -
    have "select_join_by_hash ''h'' (db example_repo) = (Inr (Some (
        \<lparr>fr_id = example_id, fr_name = ''a.txt'', fr_storage_hash = ''h'', fr_created_at = 0,
         fr_size = None, fr_content_type = None, fr_storage_path = None, fr_checksum = None\<rparr>,
        example_storage)), db example_repo)" by code_simp
    then show ?thesis using example_repo_healthy
      by (simp add: GetByChecksum_def GetByStorageHash_def run_sql_query join_file_def joined_def)
  qed
  from legacy_lookup_dead [OF _ this] show ?thesis using example_repo_healthy by simp
qed

theorem list_complete_witness:
  "\<exists>fs w'. ListFiles example_repo = (Inr fs, w')
     \<and> joined example_id \<lparr>ref_name = ''a.txt'', ref_hash = ''h'', ref_created = 0\<rparr> example_storage \<in> set fs"
proof -
  have "cache example_repo list_key = None" by (simp add: example_repo_def empty_repo_def)
  from list_complete [OF example_repo_healthy this] obtain fs w' where "ListFiles example_repo = (Inr fs, w')"
      "set fs = {joined i f s | i f s. files example_repo i = Some f \<and> storages example_repo (ref_hash f) = Some s}"
    by blast
  then show ?thesis using example_repo_maps(1,2) by fastforce
qed

theorem list_truncated_and_cached_witness:
  "\<exists>w'. ListFiles (example_repo\<lparr>db_events := [DbCut 0 ErrNoRows]\<rparr>) = (Inr [], w') \<and> length (files_tbl (db w')) = 1
     \<and> ListFiles (w'\<lparr>clock := clock w' + 60\<rparr>) = (Inr [], w'\<lparr>clock := clock w' + 60\<rparr>)"
proof -
  let ?w = "example_repo\<lparr>db_events := [DbCut 0 ErrNoRows]\<rparr>"
  have wf: "db_wf (db ?w)" using example_repo_healthy by simp
  have t: "cache_events ?w = []" "cache ?w list_key = None" "db_events ?w = [DbCut 0 ErrNoRows]"
    "length (files_tbl (db ?w)) = 1" "list_all (\<lambda>f. json_time_ok (fr_created_at f)) (files_tbl (db ?w))"
    "list_all (\<lambda>s. json_time_ok (StCreatedAt s) \<and> json_time_ok (UpdatedAt s)) (storage_tbl (db ?w))"
    by (simp_all add: example_repo_def empty_repo_def example_storage_def json_time_ok_def)
  have "(0::int) \<le> 60" "60 < ten_minutes" by (simp_all add: ten_minutes_def)
  from list_truncated_and_cached [OF wf t(1-3) this t(5,6)] show ?thesis using t(4) by fastforce
qed

end
