(* ===== verification/Demo.thy ===== *)
theory Demo
  imports System RepositoryFacts
begin

text \<open>
  A concrete run on which the properties of the whole are evaluated: a disk with an empty data
  directory, an empty database, and one upload of three bytes.
\<close>

definition demo_store :: LocalStorage where
  "demo_store = \<lparr>basePath = ''data''\<rparr>"

definition demo_header :: FileHeader where
  "demo_header = \<lparr>HName = ''a.txt'', HSize = 3, HContentType = ''text/plain; charset=utf-8''\<rparr>"

definition demo_path :: string where
  "demo_path = ''11111111-2222-4333-8444-555555555555''"

definition demo_id :: string where
  "demo_id = ''99999999-8888-4777-8666-555555555555''"

definition demo_bytes :: bytes where
  "demo_bytes = [0x61, 0x62, 0x63]"

lemma demo_uuids: "canonical_uuid demo_path" "canonical_uuid demo_id"
  by code_simp+

lemma demo_name_ok: "ValidateFilename ''a.txt'' = None"
proof -
  have r: "runes ''a.txt'' = [97, 46, 116, 120, 116]" by code_simp
  have u: "ToUpper (TrimSuffix ''a.txt'' (Ext ''a.txt'')) = ''A''" by code_simp
  have c: "Contains ''a.txt'' ''..'' = False" "HasPrefix ''a.txt'' ''.'' = False" by code_simp+
  have x: "''A'' \<notin> set reservedNames" by (simp add: reservedNames_def)
  have y: "\<forall>r \<in> set [97, 46, 116, 120, 116]. r \<notin> set dangerousChars \<and> \<not> IsControl r"
    by (simp add: dangerousChars_def IsControl_def)
  show ?thesis unfolding ValidateFilename_None_iff r u c using x y by simp
qed

lemma demo_header_ok: "ValidateFile (Some demo_header) = None" "ValidString (HName demo_header)"
proof -
  have "ToLower (Ext ''a.txt'') = ''.txt''" by code_simp
  moreover have "map_of AllowedTypes ''.txt'' = Some [''text/plain'', ''text/plain; charset=utf-8'']"
    by (simp add: AllowedTypes_def)
  ultimately have "ValidateFileExtension ''a.txt'' = None"
      "ValidateContentType ''a.txt'' ''text/plain; charset=utf-8'' = None"
    unfolding ValidateFileExtension_None_iff ValidateContentType_None_iff by (simp_all only: option.distinct option.inject simp_thms) simp_all
  then show "ValidateFile (Some demo_header) = None"
    by (simp add: ValidateFile_def demo_name_ok demo_header_def ValidateFileSize_def MaxFileSize_def)
  show "ValidString (HName demo_header)" by code_simp
qed

lemma demo_blobs: "local_blobs demo_store example_fs p = None"
proof -
  have root: "root_of demo_store example_fs = [''srv'', ''data'']" by code_simp
  show ?thesis unfolding local_blobs_def root by (simp add: example_fs_def lookup_node_def)
qed

lemma demo_files: "files empty_repo = (\<lambda>i. None)" "storages empty_repo = (\<lambda>h. None)"
  by (simp_all add: files_def storages_def empty_repo_def files_of_def [abs_def]
      storages_of_def [abs_def] empty_db_def)

lemma demo_start: "clean_reach demo_store (example_fs, empty_repo)"
  using example_inv by (intro clean_reach.start) (simp_all add: demo_store_def [symmetric] demo_blobs empty_repo_def)

lemma demo_inv: "sys_inv demo_store (example_fs, empty_repo)"
  using demo_start by (rule clean_reach_inv)

lemma demo_upload_ok:
  "upload_ok canonical_uuid (local_blobs demo_store example_fs) (files empty_repo)
     demo_path demo_id (reader_of demo_bytes) demo_header"
  by (simp add: upload_ok_def demo_uuids demo_header_ok demo_blobs demo_files)

lemma demo_no_collision: "no_collision demo_store example_fs c"
  by (simp add: no_collision_def demo_blobs)

text \<open>The state after the upload.\<close>

lemma demo_uploaded:
  obtains s r where
    "Upload (file_service demo_store) demo_path demo_id 0 (reader_of demo_bytes) demo_header
       (example_fs, empty_repo)
     = (Inr (joined demo_id (new_ref 0 demo_bytes demo_header)
               (new_storage demo_path 0 demo_bytes demo_header)), s, r)"
    "clean_reach demo_store (s, r)" "sys_inv demo_store (s, r)" "cached_file r = (\<lambda>i. None)"
    "files r = [demo_id \<mapsto> new_ref 0 demo_bytes demo_header]"
    "storages r = [sha256_hex demo_bytes \<mapsto> new_storage demo_path 0 demo_bytes demo_header]"
    "local_blobs demo_store s = [demo_path \<mapsto> demo_bytes]"
proof -
  note inv = sys_invD [OF demo_inv]
  have "storages empty_repo (sha256_hex (rd_data (reader_of demo_bytes))) = None" by (simp add: demo_files)
  from svc.Upload_new [OF inv demo_upload_ok this, of 0]
  obtain s r where u: "Upload (file_service demo_store) demo_path demo_id 0 (reader_of demo_bytes) demo_header
       (example_fs, empty_repo)
     = (Inr (joined demo_id (new_ref 0 demo_bytes demo_header)
               (new_storage demo_path 0 demo_bytes demo_header)), s, r)"
      "cached_file r = cached_file empty_repo"
      "files r = (files empty_repo)(demo_id \<mapsto> new_ref 0 demo_bytes demo_header)"
      "storages r = (storages empty_repo)(sha256_hex demo_bytes \<mapsto> new_storage demo_path 0 demo_bytes demo_header)"
      "local_blobs demo_store s = (local_blobs demo_store example_fs)(demo_path \<mapsto> demo_bytes)"
    by (auto simp: file_service_def)
  have step: "clean_reach demo_store (s, r)"
    using demo_start by (rule clean_reach.step) (rule clean_step.upload [OF demo_upload_ok u(1)])
  have "cached_file empty_repo = (\<lambda>i. None)" by (simp add: cached_file_def empty_repo_def fun_eq_iff)
  then show ?thesis
    using that [OF u(1) step clean_reach_inv [OF step]] u(2-) by (simp add: demo_files demo_blobs [abs_def] fun_eq_iff)
qed

text \<open>The state after a second upload of the same bytes under another name.\<close>

definition demo_path2 :: string where
  "demo_path2 = ''22222222-3333-4444-8555-666666666666''"

definition demo_id2 :: string where
  "demo_id2 = ''aaaaaaaa-bbbb-4ccc-8ddd-eeeeeeeeeeee''"

lemma demo_uuids2: "canonical_uuid demo_path2" "canonical_uuid demo_id2"
  by code_simp+

lemma demo_distinct: "demo_path2 \<noteq> demo_path" "demo_id2 \<noteq> demo_id"
  by (simp_all add: demo_path_def demo_path2_def demo_id_def demo_id2_def)

lemma demo_shared:
  obtains s r where "sys_inv demo_store (s, r)" "cached_file r = (\<lambda>i. None)"
    "files r = [demo_id \<mapsto> new_ref 0 demo_bytes demo_header, demo_id2 \<mapsto> new_ref 0 demo_bytes demo_header]"
    "local_blobs demo_store s = [demo_path \<mapsto> demo_bytes]"
proof (rule demo_uploaded)
  fix s r
  assume reach: "clean_reach demo_store (s, r)" and inv: "sys_inv demo_store (s, r)"
    and c: "cached_file r = (\<lambda>i. None)"
    and f: "files r = [demo_id \<mapsto> new_ref 0 demo_bytes demo_header]"
    and st: "storages r = [sha256_hex demo_bytes \<mapsto> new_storage demo_path 0 demo_bytes demo_header]"
    and bl: "local_blobs demo_store s = [demo_path \<mapsto> demo_bytes]"
  have up: "upload_ok canonical_uuid (local_blobs demo_store s) (files r)
      demo_path2 demo_id2 (reader_of demo_bytes) demo_header"
    using demo_distinct by (simp add: upload_ok_def demo_uuids2 demo_header_ok bl f)
  have old: "storages r (sha256_hex (rd_data (reader_of demo_bytes))) =
      Some (new_storage demo_path 0 demo_bytes demo_header)" by (simp add: st)
  note i3 = sys_invD [OF inv]
  from svc.Upload_duplicate [OF i3(1,2) up old svc.upload_room [OF i3(2,3) up old], of 0]
  obtain s' r' where u: "Upload (file_service demo_store) demo_path2 demo_id2 0 (reader_of demo_bytes)
        demo_header (s, r) = (Inr (joined demo_id2 (new_ref 0 demo_bytes demo_header)
          (new_storage demo_path 0 demo_bytes demo_header)), s', r')"
      "cached_file r' = cached_file r"
      "files r' = (files r)(demo_id2 \<mapsto> new_ref 0 demo_bytes demo_header)"
      "local_blobs demo_store s' = local_blobs demo_store s"
    by (auto simp: file_service_def)
  have "sys_inv demo_store (s', r')" by (rule clean_step_inv [OF clean_step.upload [OF up u(1)] inv])
  then show ?thesis using that u c f bl by simp
qed

text \<open>A name that validation accepts although it is not valid UTF-8.\<close>

definition bad_header :: FileHeader where
  "bad_header = demo_header\<lparr>HName := CHR 0xFF # ''.txt''\<rparr>"

lemma bad_header_ok: "ValidateFile (Some bad_header) = None" "\<not> ValidString (HName bad_header)"
proof -
  let ?n = "CHR 0xFF # ''.txt''"
  have r: "runes ?n = [65533, 46, 116, 120, 116]"
    by (simp add: runes_def codes_def multi_byte_def is_cont_def RuneError_def)
  have s: "TrimSuffix ?n (Ext ?n) = [CHR 0xFF]" by code_simp
  have "runes [CHR 0xFF] = [65533]"
    by (simp add: runes_def codes_def multi_byte_def is_cont_def RuneError_def)
  then have "ToUpper [CHR 0xFF] = map char_of [239, 191, 189 :: nat]"
    by (simp add: ToUpper_def upper_rune_def string_of_runes_def encode_rune_def)
  also have "\<dots> = [CHR 0xEF, CHR 0xBF, CHR 0xBD]" by code_simp
  finally have u: "ToUpper (TrimSuffix ?n (Ext ?n)) = [CHR 0xEF, CHR 0xBF, CHR 0xBD]" unfolding s .
  have c: "Contains ?n ''..'' = False" "HasPrefix ?n ''.'' = False" by code_simp+
  have x: "[CHR 0xEF, CHR 0xBF, CHR 0xBD] \<notin> set reservedNames" by (simp add: reservedNames_def)
  have y: "\<forall>r \<in> set [65533, 46, 116, 120, 116]. r \<notin> set dangerousChars \<and> \<not> IsControl r"
    by (simp add: dangerousChars_def IsControl_def)
  have n: "ValidateFilename ?n = None" unfolding ValidateFilename_None_iff r u c using x y by simp
  have "ToLower (Ext ?n) = ''.txt''" by code_simp
  moreover have "map_of AllowedTypes ''.txt'' = Some [''text/plain'', ''text/plain; charset=utf-8'']"
    by (simp add: AllowedTypes_def)
  ultimately have "ValidateFileExtension ?n = None"
      "ValidateContentType ?n ''text/plain; charset=utf-8'' = None"
    unfolding ValidateFileExtension_None_iff ValidateContentType_None_iff
    by (simp_all only: option.distinct option.inject simp_thms) simp_all
  then show "ValidateFile (Some bad_header) = None"
    by (simp add: ValidateFile_def n bad_header_def demo_header_def ValidateFileSize_def MaxFileSize_def)
  show "\<not> ValidString (HName bad_header)" by code_simp
qed

end
