(* ===== verification/AllRequests.thy ===== *)
theory AllRequests
  imports Demo
begin

text \<open>
  The transition system of all requests while no call of the disk, the database or the cache
  fails: uploads with any header and any reader, the ones whose name is no UTF-8 text and the ones
  whose body is interrupted included; deletes and downloads of any id, in any spelling; listings and
  the time. Its reachable states keep less than the deduplication invariant: a record whose blob is
  lost stays behind when the database refuses a name, and a blob without a record when a body breaks
  off.
\<close>

section \<open>The transition system\<close>

text \<open>
  The UUIDs an upload draws are new: nothing is stored under the first, no record names it, and no
  file has the second.
\<close>

definition new_ids :: "LocalStorage \<Rightarrow> sys \<Rightarrow> string \<Rightarrow> string \<Rightarrow> bool" where
  "new_ids ls w path fileID \<longleftrightarrow> canonical_uuid path \<and> canonical_uuid fileID \<and>
     local_blobs ls (fst w) path = None \<and> files (snd w) fileID = None \<and>
     (\<forall>h x. storages (snd w) h = Some x \<longrightarrow> StStoragePath x \<noteq> path)"

inductive sys_step :: "LocalStorage \<Rightarrow> sys \<Rightarrow> sys \<Rightarrow> bool" for ls :: LocalStorage where
  upload: "new_ids ls w path fileID \<Longrightarrow>
    Upload (file_service ls) path fileID now rd header w = (res, w') \<Longrightarrow> sys_step ls w w'"
| download: "Download (file_service ls) i w = (res, w') \<Longrightarrow> sys_step ls w w'"
| delete: "Delete (file_service ls) i w = (res, w') \<Longrightarrow> sys_step ls w w'"
| list: "svc_List (file_service ls) w = (res, w') \<Longrightarrow> sys_step ls w w'"
| tick: "0 \<le> d \<Longrightarrow> sys_step ls (s, r) (s, r\<lparr>clock := clock r + d\<rparr>)"

inductive sys_reach :: "LocalStorage \<Rightarrow> sys \<Rightarrow> bool" for ls :: LocalStorage where
  start: "local_inv ls s \<Longrightarrow> (\<forall>p. plain_path p \<longrightarrow> local_blobs ls s p = None) \<Longrightarrow>
    db_events r = [] \<Longrightarrow> cache_events r = [] \<Longrightarrow> db r = empty_db \<Longrightarrow> sys_reach ls (s, r)"
| step: "sys_reach ls w \<Longrightarrow> sys_step ls w w' \<Longrightarrow> sys_reach ls w'"

text \<open>The clean runs of System are among its runs.\<close>

lemma upload_ok_new_ids:
  assumes "sys_inv ls (s, r)" "upload_ok canonical_uuid (local_blobs ls s) (files r) path fileID rd header"
  shows "new_ids ls (s, r) path fileID"
proof -
  have "StStoragePath x \<noteq> path" if "storages r h = Some x" for h x
    using dedup_blob [OF sys_invD(3) [OF assms(1)] that] assms(2) by (auto simp: upload_ok_def)
  then show ?thesis using assms(2) by (simp add: new_ids_def upload_ok_def)
qed

lemma clean_step_sys:
  assumes "clean_step ls w w'" "sys_inv ls w" shows "sys_step ls w w' \<or> w' = w"
  using assms
proof (induction rule: clean_step.induct)
  case (upload s r path fileID rd header now res w')
  from sys_step.upload [OF upload_ok_new_ids [OF upload.prems upload.hyps(1)] upload.hyps(2)] show ?case by blast
next
  case (reject header e path fileID now rd s r res w')
  then show ?case using svc.Upload_invalid [OF reject.hyps(1)] by (simp add: file_service_def)
qed (auto intro: sys_step.download sys_step.delete sys_step.list sys_step.tick)

lemma clean_reach_sys: "clean_reach ls w \<Longrightarrow> sys_reach ls w"
proof (induction rule: clean_reach.induct)
  case (start s r)
  then show ?case by (intro sys_reach.start)
next
  case (step w w')
  from clean_step_sys [OF step.hyps(2) clean_reach_inv [OF step.hyps(1)]] show ?case
    using sys_reach.step [OF step.IH] step.IH by blast
qed

section \<open>What every state keeps\<close>

text \<open>
  A record is sound (its count is the number of its files, at least one, and its blob is there), or
  its blob is lost, and then it counts one file more than there are.
\<close>

definition record_ok ::
  "(string \<Rightarrow> file_ref option) \<Rightarrow> (string \<Rightarrow> bytes option) \<Rightarrow> string \<Rightarrow> Storage \<Rightarrow> bool" where
  "record_ok F B h x \<longleftrightarrow> h \<noteq> [] \<and> plain_path (StStoragePath x) \<and>
     (ReferenceCount x = int (card (referrers F h)) \<and> referrers F h \<noteq> {} \<and>
        (\<exists>c. B (StStoragePath x) = Some c \<and> sha256_hex c = h \<and> StSize x = int (length c))
      \<or> ReferenceCount x = int (card (referrers F h)) + 1 \<and> B (StStoragePath x) = None)"

definition store_inv :: "LocalStorage \<Rightarrow> sys \<Rightarrow> bool" where
  "store_inv ls w \<longleftrightarrow> (case w of (s, r) \<Rightarrow> local_inv ls s \<and> healthy r \<and>
     (\<forall>h x. storages r h = Some x \<longrightarrow> record_ok (files r) (local_blobs ls s) h x))"

lemma store_invD:
  assumes "store_inv ls (s, r)"
  shows "local_inv ls s" "healthy r" "storages r h = Some x \<Longrightarrow> record_ok (files r) (local_blobs ls s) h x"
  using assms by (simp_all add: store_inv_def)

lemma store_invI:
  "local_inv ls s \<Longrightarrow> healthy r \<Longrightarrow>
   (\<And>h x. storages r h = Some x \<Longrightarrow> record_ok (files r) (local_blobs ls s) h x) \<Longrightarrow> store_inv ls (s, r)"
  by (simp add: store_inv_def)

text \<open>The changes of the maps, one record at a time.\<close>

lemma record_ok_cong:
  assumes "record_ok F B h x" "B' (StStoragePath x) = B (StStoragePath x)" "StStoragePath x' = StStoragePath x"
    "StSize x' = StSize x" "ReferenceCount x' = ReferenceCount x"
  shows "record_ok F B' h x'"
  using assms by (simp add: record_ok_def)

lemma record_ok_add:
  assumes "record_ok F B h x" "F i = None" "finite (dom F)" "ref_hash f = h"
    "StStoragePath x' = StStoragePath x" "StSize x' = StSize x" "ReferenceCount x' = ReferenceCount x + 1"
  shows "record_ok (F(i \<mapsto> f)) B h x'"
proof -
  have "i \<notin> referrers F h" using assms(2) by (auto simp: referrers_def)
  then have "card (referrers (F(i \<mapsto> f)) h) = card (referrers F h) + 1" "referrers (F(i \<mapsto> f)) h \<noteq> {}"
    using referrers_upd_same [of F i f] finite_referrers [OF assms(3), of h] assms(4) by auto
  then show ?thesis using assms(1,5-7) by (auto simp: record_ok_def)
qed

lemma record_ok_other:
  assumes "record_ok F B h x" "F i = None" "ref_hash f \<noteq> h"
  shows "record_ok (F(i \<mapsto> f)) B h x"
  using assms by (simp add: record_ok_def referrers_upd_other)

lemma record_ok_drop:
  assumes "record_ok F B h x" "F i = Some f" "finite (dom F)" "ref_hash f = h" "ReferenceCount x \<noteq> 1"
    "StStoragePath x' = StStoragePath x" "StSize x' = StSize x" "ReferenceCount x' = ReferenceCount x - 1"
  shows "record_ok (F(i := None)) B h x'"
proof -
  have c: "int (card (referrers (F(i := None)) h)) = int (card (referrers F h)) - 1"
    using card_referrers_del [OF assms(3,2)] assms(4) by simp
  have "referrers (F(i := None)) h \<noteq> {}" if "ReferenceCount x = int (card (referrers F h))"
    using c that assms(5) by force
  then show ?thesis using assms(1,6-8) c by (auto simp: record_ok_def)
qed

lemma record_ok_drop_other:
  assumes "record_ok F B h x" "F i = Some f" "ref_hash f \<noteq> h"
  shows "record_ok (F(i := None)) B h x"
  using assms referrers_other [of f h F i] by (simp add: record_ok_def)

section \<open>Uploads\<close>

text \<open>An increment that the column cannot hold is an error without effect.\<close>

lemma IncrementStorageRef_overflow:
  assumes "healthy r" "storages r h = Some x" "\<not> count_ok (ReferenceCount x + 1)"
  shows "\<exists>e. IncrementStorageRef h r = (Some e, r)"
proof -
  have "text_param h = Inr h"
    using storages_of_ok [of "db r" h x] assms by (auto simp: storages_def text_param_ok [of 64])
  moreover have "find (\<lambda>s. Hash s = h) (storage_tbl (db r)) = Some x"
    using assms(2) by (simp add: storages_def storages_of_def)
  ultimately obtain e where "update_storage_ref 1 (clock r) h (db r) = (Inl e, db r)"
    using assms(3) by (auto simp: update_storage_ref_def int4_def count_ok_def)
  then show ?thesis using run_sql_query [OF healthy_simps(1) [OF assms(1)], of "update_storage_ref 1 (clock r) h"]
    by (simp add: IncrementStorageRef_def)
qed

text \<open>The branch for new content, after the blob was written.\<close>

lemma upload_new_keeps:
  assumes inv: "local_inv ls s" "healthy r" and up: "canonical_uuid path" "canonical_uuid fileID" "files r fileID = None"
    and recs: "\<And>h x. storages r h = Some x \<Longrightarrow> record_ok (files r) (local_blobs ls s) h x \<and> StStoragePath x \<noteq> path"
    and h: "ValidateFile (Some header) = None" "storages r (sha256_hex c) = None" "local_blobs ls s path = Some c"
    and run: "upload_new (file_service ls) path fileID now header (sha256_hex c) (int (length c)) (s, r) = (res, w')"
  shows "store_inv ls w'"
proof -
  let ?h = "sha256_hex c" and ?rec = "new_storage path now c header"
  have path: "plain_path path" "text_ok 500 path" using canonical_uuid_path [OF up(1)] by simp_all
  have fits: "storage_ok ?rec" using ValidateFile_type_ok [OF h(1)] sha256_hex_ok path(2)
    by (simp add: storage_ok_def count_ok_def)
  obtain r1 where r1: "CreateStorage ?rec r = (None, r1)" "healthy r1" "files r1 = files r"
      "storages r1 = (storages r)(?h \<mapsto> ?rec)"
    using CreateStorage_new [OF inv(2) fits] h(2) recs by auto
  obtain s2 where s2: "st_Delete (local_storage_ops ls) path s = (None, s2)" "local_inv ls s2"
      "local_blobs ls s2 = (local_blobs ls s)(path := None)"
    using lfs.delete_hit [OF inv(1) path(1) h(3)] by blast
  let ?file = "joined fileID (new_ref now c header) ?rec"
  have ne: "?h \<noteq> []" using length_sha256_hex [of c] by auto
  have none: "referrers (files r) ?h = {}"
    using fr.foreign_key [OF inv(2)] h(2) by (fastforce simp: referrers_def)
  have old: "record_ok (files r) (local_blobs ls s2) g x" if "storages r g = Some x" for g x
    using recs [OF that] s2(3) by (elim conjE) (rule record_ok_cong, auto)
  show ?thesis
  proof (cases "ValidString (HName header)")
    case True
    have fid: "canonical_uuid (ID ?file)" "text_ok 255 (Name ?file)" "storages r1 (StorageHash ?file) \<noteq> None"
        "files r1 (ID ?file) = None"
      using up ValidateFile_name_ok [OF h(1) True] r1(3,4) by (simp_all add: joined_def)
    from CreateFileReference_new [OF r1(2) fid] obtain r2 where r2: "CreateFileReference ?file r1 = (None, r2)" "healthy r2"
        "storages r2 = storages r1" "files r2 = (files r1)(fileID \<mapsto> new_ref now c header)"
      by (auto simp: joined_def new_ref_def)
    have "w' = (s, r2)"
      using run r1(1) r2(1) by (auto simp: upload_new_def file_service_def NewStorageService_def file_repository_def
          new_storage_def joined_def new_ref_def)
    moreover have "record_ok (files r2) (local_blobs ls s) g x" if "storages r2 g = Some x" for g x
    proof (cases "g = ?h")
      case True
      have "referrers (files r2) ?h = {fileID}"
        using referrers_upd_same [of "files r" fileID "new_ref now c header"] none r2(4) r1(3) by simp
      moreover have "x = ?rec" using True that r2(3) r1(4) by simp
      ultimately show ?thesis using True ne path(1) h(3) by (simp add: record_ok_def)
    next
      case False
      then have "storages r g = Some x" using that r2(3) r1(4) by simp
      then show ?thesis using record_ok_other [OF conjunct1 [OF recs]] up(3) r2(4) r1(3) False by simp
    qed
    ultimately show ?thesis using store_invI [OF inv(1) r2(2)] by simp
  next
    case False
    then have "\<not> ValidString (Name ?file)" by (simp add: joined_def)
    from CreateFileReference_invalid [OF r1(2) this] obtain e where
      refused: "CreateFileReference ?file r1 = (Some e, r1)" by blast
    have kept: "DeleteStorage ?h r1 = (None, r1)" using DeleteStorage_kept [OF r1(2), of ?h ?rec] r1(4) by simp
    have "w' = (s2, r1)"
      using run r1(1) refused kept s2(1) by (auto simp: upload_new_def file_service_def NewStorageService_def
          file_repository_def new_storage_def joined_def new_ref_def)
    moreover have "record_ok (files r1) (local_blobs ls s2) g x" if "storages r1 g = Some x" for g x
    proof (cases "g = ?h")
      case True
      then have "x = ?rec" using that r1(4) by simp
      then show ?thesis using True r1(3) ne path(1) none s2(3) by (simp add: record_ok_def)
    next
      case False
      then show ?thesis using old that r1(3,4) by simp
    qed
    ultimately show ?thesis using store_invI [OF s2(2) r1(2)] by simp
  qed
qed

text \<open>The branch for content that has a record.\<close>

lemma upload_duplicate_keeps:
  assumes inv: "local_inv ls s" "healthy r" and up: "canonical_uuid path" "canonical_uuid fileID" "files r fileID = None"
    and recs: "\<And>h x. storages r h = Some x \<Longrightarrow> record_ok (files r) (local_blobs ls s) h x \<and> StStoragePath x \<noteq> path"
    and h: "ValidateFile (Some header) = None" "storages r h = Some x" "local_blobs ls s path = Some c"
    and run: "upload_duplicate (file_service ls) path fileID now header h x (s, r) = (res, w')"
  shows "store_inv ls w'"
proof -
  have path: "plain_path path" using canonical_uuid_path [OF up(1)] by simp
  obtain s2 where s2: "st_Delete (local_storage_ops ls) path s = (None, s2)" "local_inv ls s2"
      "local_blobs ls s2 = (local_blobs ls s)(path := None)"
    using lfs.delete_hit [OF inv(1) path h(3)] by blast
  have old: "record_ok (files r) (local_blobs ls s2) g y" if "storages r g = Some y" for g y
    using recs [OF that] s2(3) by (elim conjE) (rule record_ok_cong, auto)
  note defs = upload_duplicate_def file_service_def NewStorageService_def file_repository_def
  show ?thesis
  proof (cases "count_ok (ReferenceCount x + 1)")
    case False
    from IncrementStorageRef_overflow [OF inv(2) h(2) this] obtain e where "IncrementStorageRef h r = (Some e, r)" by blast
    then have "w' = (s2, r)" using run s2(1) by (auto simp: defs)
    then show ?thesis using store_invI [OF s2(2) inv(2) old] by simp
  next
    case True
    from fr.increment [OF inv(2) h(2) True] obtain r1 t1 where r1: "IncrementStorageRef h r = (None, r1)" "healthy r1"
        "files r1 = files r" "storages r1 = (storages r)(h \<mapsto> x\<lparr>ReferenceCount := ReferenceCount x + 1, UpdatedAt := t1\<rparr>)"
      by (auto simp: file_repository_def)
    let ?x1 = "x\<lparr>ReferenceCount := ReferenceCount x + 1, UpdatedAt := t1\<rparr>"
    let ?f = "\<lparr>ref_name = HName header, ref_hash = h, ref_created = now\<rparr>"
    let ?file = "\<lparr>ID = fileID, Name = HName header, StorageHash = h, CreatedAt = now, FStorage = Some x, Size = StSize x,
      ContentType = StContentType x, StoragePath = StStoragePath x, Checksum = Hash x\<rparr>"
    show ?thesis
    proof (cases "ValidString (HName header)")
      case valid: True
      have fid: "canonical_uuid (ID ?file)" "text_ok 255 (Name ?file)" "storages r1 (StorageHash ?file) \<noteq> None"
          "files r1 (ID ?file) = None"
        using up ValidateFile_name_ok [OF h(1) valid] r1(3,4) by simp_all
      from CreateFileReference_new [OF r1(2) fid] obtain r2 where r2: "CreateFileReference ?file r1 = (None, r2)" "healthy r2"
          "storages r2 = storages r1" "files r2 = (files r)(fileID \<mapsto> ?f)" using r1(3) by auto
      have "w' = (s2, r2)" using run s2(1) r1(1) r2(1) by (auto simp: defs)
      moreover have "record_ok (files r2) (local_blobs ls s2) g y" if "storages r2 g = Some y" for g y
      proof (cases "g = h")
        case True
        then have "y = ?x1" using that r2(3) r1(4) by simp
        then show ?thesis unfolding True r2(4)
          by (intro record_ok_add [OF old [OF h(2)] up(3) fr.finite_files [OF inv(2)]]) simp_all
      next
        case False
        then have "storages r g = Some y" using that r2(3) r1(4) by simp
        then show ?thesis unfolding r2(4) using False by (intro record_ok_other [OF old up(3)]) auto
      qed
      ultimately show ?thesis using store_invI [OF s2(2) r2(2)] by simp
    next
      case False
      then have "\<not> ValidString (Name ?file)" by simp
      from CreateFileReference_invalid [OF r1(2) this] obtain e where
        refused: "CreateFileReference ?file r1 = (Some e, r1)" by blast
      have x1: "storages r1 h = Some ?x1" using r1(4) by simp
      have "count_ok (ReferenceCount ?x1 - 1)"
        using repo_contract_maps(1) [OF inv(2) h(2)] by (simp add: storage_ok_def)
      from fr.decrement [OF r1(2) x1 this] obtain r2 t2 where
        r2: "DecrementStorageRef h r1 = ((ReferenceCount x, None), r2)" "healthy r2" "files r2 = files r"
          "storages r2 = (storages r)(h \<mapsto> x\<lparr>UpdatedAt := t2\<rparr>)" using r1(3,4) by (auto simp: file_repository_def)
      have "w' = (s2, r2)" using run s2(1) r1(1) refused r2(1) by (auto simp: defs)
      moreover have "record_ok (files r2) (local_blobs ls s2) g y" if "storages r2 g = Some y" for g y
      proof (cases "g = h")
        case True
        then have y: "y = x\<lparr>UpdatedAt := t2\<rparr>" using that r2(4) by simp
        show ?thesis unfolding True r2(3) y by (rule record_ok_cong [OF old [OF h(2)]]) simp_all
      next
        case False
        then show ?thesis using that r2(3,4) old by simp
      qed
      ultimately show ?thesis using store_invI [OF s2(2) r2(2)] by simp
    qed
  qed
qed

lemma Upload_keeps_store:
  assumes inv: "store_inv ls (s, r)" and new: "new_ids ls (s, r) path fileID"
    and run: "Upload (file_service ls) path fileID now rd header (s, r) = (res, w')"
  shows "store_inv ls w'"
proof (cases "ValidateFile (Some header)")
  case (Some e)
  then have "w' = (s, r)" using run svc.Upload_invalid [OF Some] by (simp add: file_service_def)
  then show ?thesis using inv by simp
next
  case None
  let ?c = "rd_data rd" and ?h = "sha256_hex (rd_data rd)"
  note i = store_invD [OF inv]
  have n: "canonical_uuid path" "canonical_uuid fileID" "local_blobs ls s path = None" "files r fileID = None"
    and apart: "\<And>h x. storages r h = Some x \<Longrightarrow> StStoragePath x \<noteq> path" using new by (auto simp: new_ids_def)
  have path: "plain_path path" using canonical_uuid_path [OF n(1)] by simp
  obtain s1 where s1: "st_Put (local_storage_ops ls) path rd (HSize header) s =
        (\<lparr>pr_n = int (length ?c), pr_err = rd_err rd, pr_consumed = ?c\<rparr>, s1)"
      "local_inv ls s1" "local_blobs ls s1 = (local_blobs ls s)(path \<mapsto> ?c)"
    using local_put_any [OF i(1) path] by blast
  have recs: "record_ok (files r) (local_blobs ls s1) h x \<and> StStoragePath x \<noteq> path" if "storages r h = Some x" for h x
    using record_ok_cong [OF i(3) [OF that] _ refl refl refl] apart [OF that] s1(3) by simp
  have blob: "local_blobs ls s1 path = Some ?c" using s1(3) by simp
  note defs = Upload_def file_service_def NewStorageService_def file_repository_def
  show ?thesis
  proof (cases "rd_err rd")
    case (Some e)
    then have "w' = (s1, r)" using run None s1(1) by (auto simp: defs)
    then show ?thesis using store_invI [OF s1(2) i(2)] recs by simp
  next
    case whole: None
    show ?thesis
    proof (cases "storages r ?h")
      case miss: None
      from GetStorageByHash_none [OF i(2) miss] obtain e where "GetStorageByHash ?h r = (Inl e, r)" by blast
      then have "upload_new (file_service ls) path fileID now header ?h (int (length ?c)) (s1, r) = (res, w')"
        using run None whole s1(1) by (simp add: defs)
      from upload_new_keeps [OF s1(2) i(2) n(1,2,4) recs None miss blob this] show ?thesis .
    next
      case (Some x)
      from GetStorageByHash_hit [OF i(2) Some]
      have "upload_duplicate (file_service ls) path fileID now header ?h x (s1, r) = (res, w')"
        using run None whole s1(1) by (simp add: defs)
      from upload_duplicate_keeps [OF s1(2) i(2) n(1,2,4) recs None Some blob this] show ?thesis .
    qed
  qed
qed

section \<open>Deletes, reads and the time\<close>

text \<open>The statements read an id as a UUID; only the key of the cached entry is the id as it is spelt.\<close>

lemma GetStorageHashByFileID_spelling:
  "uuid_in i = uuid_in j \<Longrightarrow> GetStorageHashByFileID i r = GetStorageHashByFileID j r"
proof -
  assume "uuid_in i = uuid_in j"
  then have "select_file i = select_file j" by (simp add: select_file_def fun_eq_iff)
  then show ?thesis unfolding GetStorageHashByFileID_def by metis
qed

lemma GetStorageHashByFileID_bad:
  "healthy r \<Longrightarrow> uuid_in i = Inl e \<Longrightarrow> \<exists>e. GetStorageHashByFileID i r = (Inl e, r)"
  by (simp add: GetStorageHashByFileID_def run_sql_query select_file_def)

lemma DeleteByID_spelling:
  assumes "healthy r" "uuid_in i = Inr j"
  shows "\<exists>r'. DeleteByID i r = (None, r') \<and> healthy r' \<and> storages r' = storages r \<and> files r' = (files r)(j := None)"
proof -
  have j: "canonical_uuid j" using uuid_in_canonical [OF assms(2)] .
  then have "delete_file i = delete_file j" using assms(2) by (simp add: delete_file_def canonical_uuid_def fun_eq_iff)
  moreover obtain w where w: "DeleteByID j r = (None, w)" "healthy w" "storages w = storages r"
      "files w = (files r)(j := None)" using DeleteByID_done [OF assms(1) j] by blast
  moreover obtain res r1 where run: "run_sql (delete_file i) r = (res, r1)" by fastforce
  moreover have r1: "cache_events r1 = []"
    using run healthy_simps(1,2) [OF assms(1)] by (auto simp: run_sql_healthy)
  ultimately have res: "\<exists>u. res = Inr u" and w': "w = r1\<lparr>cache := (cache r1)(file_key j := None, list_key := None)\<rparr>"
    by (auto simp: DeleteByID_def cache_healthy split: sum.splits)
  have "DeleteByID i r = (None, r1\<lparr>cache := (cache r1)(file_key i := None, list_key := None)\<rparr>)"
    using run res r1 by (auto simp: DeleteByID_def cache_healthy)
  moreover have "healthy (r1\<lparr>cache := c\<rparr>)" "storages (r1\<lparr>cache := c\<rparr>) = storages r"
      "files (r1\<lparr>cache := c\<rparr>) = (files r)(j := None)" for c
    using w(2-4) unfolding w' by (simp_all add: healthy_def del: healthy_simps)
  ultimately show ?thesis by blast
qed

lemma Delete_keeps_store:
  assumes inv: "store_inv ls (s, r)" and run: "Delete (file_service ls) i (s, r) = (res, w')"
  shows "store_inv ls w'"
proof -
  note v = store_invD [OF inv]
  note defs = Delete_def cleanup_storage_def file_service_def NewStorageService_def file_repository_def
  have unknown: "w' = (s, r)" if "GetStorageHashByFileID i r = (Inl e, r)" for e
    using run that by (simp add: defs)
  show ?thesis
  proof (cases "uuid_in i")
    case (Inl e)
    from GetStorageHashByFileID_bad [OF v(2) Inl] unknown inv show ?thesis by auto
  next
    case (Inr j)
    have j: "canonical_uuid j" "uuid_in i = uuid_in j" using uuid_in_canonical [OF Inr] Inr by (simp_all add: canonical_uuid_def)
    show ?thesis
    proof (cases "files r j")
      case None
      from GetStorageHashByFileID_miss [OF v(2) j(1) None] unknown inv
      show ?thesis unfolding GetStorageHashByFileID_spelling [OF j(2), symmetric] by auto
    next
      case (Some f)
      let ?h = "ref_hash f"
      obtain x where x: "storages r ?h = Some x" using fr.foreign_key [OF v(2) Some] by auto
      note rec = v(3) [OF x]
      have hash: "GetStorageHashByFileID i r = (Inr ?h, r)"
        using GetStorageHashByFileID_hit [OF v(2) j(1) Some] rec GetStorageHashByFileID_spelling [OF j(2)]
        by (simp add: record_ok_def)
      obtain r1 where r1: "DeleteByID i r = (None, r1)" "healthy r1" "storages r1 = storages r"
          "files r1 = (files r)(j := None)" using DeleteByID_spelling [OF v(2) Inr] by blast
      have fin: "finite (dom (files r))" by (rule fr.finite_files [OF v(2)])
      have "j \<in> referrers (files r) ?h" using Some by (simp add: referrers_def)
      then have pos: "0 < card (referrers (files r) ?h)" using finite_referrers [OF fin] by (auto simp: card_gt_0_iff)
      have "storage_ok x" using repo_contract_maps(1) [OF v(2) x] by simp
      then have "count_ok (ReferenceCount x - 1)" using rec pos by (auto simp: record_ok_def storage_ok_def count_ok_def)
      then obtain r2 t where r2: "DecrementStorageRef ?h r1 = ((ReferenceCount x - 1, None), r2)" "healthy r2"
          "files r2 = (files r)(j := None)"
          "storages r2 = (storages r)(?h \<mapsto> x\<lparr>ReferenceCount := ReferenceCount x - 1, UpdatedAt := t\<rparr>)"
        using fr.decrement [OF r1(2), of ?h x] x r1(3,4) by (auto simp: file_repository_def)
      have other: "record_ok (files r2) (local_blobs ls s) g y" if "storages r g = Some y" "g \<noteq> ?h" for g y
        using record_ok_drop_other [OF v(3) [OF that(1)] Some] that(2) r2(3) by simp
      show ?thesis
      proof (cases "ReferenceCount x = 1")
        case False
        then have "w' = (s, r2)" using run hash r1(1) r2(1) by (simp add: defs)
        moreover have "record_ok (files r2) (local_blobs ls s) g y" if "storages r2 g = Some y" for g y
        proof (cases "g = ?h")
          case True
          then have y: "y = x\<lparr>ReferenceCount := ReferenceCount x - 1, UpdatedAt := t\<rparr>" using that r2(4) by simp
          show ?thesis unfolding True r2(3) y by (rule record_ok_drop [OF rec Some fin refl False]) simp_all
        next
          case ne: False
          then show ?thesis using other that r2(4) by simp
        qed
        ultimately show ?thesis using store_invI [OF v(1) r2(2)] by simp
      next
        case True
        let ?x = "x\<lparr>ReferenceCount := ReferenceCount x - 1, UpdatedAt := t\<rparr>"
        have x2: "storages r2 ?h = Some ?x" "ReferenceCount ?x = 0" using r2(4) True by simp_all
        obtain c where c: "plain_path (StStoragePath x)" "local_blobs ls s (StStoragePath x) = Some c"
          and one: "card (referrers (files r) ?h) = 1" using rec True pos by (auto simp: record_ok_def)
        obtain s2 where s2: "st_Delete (local_storage_ops ls) (StStoragePath x) s = (None, s2)" "local_inv ls s2"
            "local_blobs ls s2 = (local_blobs ls s)(StStoragePath x := None)"
          using lfs.delete_hit [OF v(1) c] by blast
        have "card (referrers (files r2) ?h) = 0" using card_referrers_del [OF fin Some] one r2(3) by simp
        moreover have "finite (referrers (files r2) ?h)" using fr.finite_files [OF r2(2)] by (rule finite_referrers)
        ultimately have "referrers (files r2) ?h = {}" by simp
        then have gone: "ref_hash g \<noteq> ?h" if "files r2 k = Some g" for k g using that by (auto simp: referrers_def)
        obtain r3 where r3: "DeleteStorage ?h r2 = (None, r3)" "healthy r3" "files r3 = files r2"
            "storages r3 = (storages r2)(?h := None)"
          using DeleteStorage_zero [OF r2(2) x2] gone by blast
        have "w' = (s2, r3)"
          using run hash r1(1) r2(1) True GetStorageByHash_hit [OF r2(2) x2(1)] s2(1) r3(1) by (simp add: defs)
        moreover have "record_ok (files r3) (local_blobs ls s2) g y" if g: "storages r3 g = Some y" for g y
        proof -
          have y: "storages r g = Some y" "g \<noteq> ?h" using g r3(4) r2(4) by (auto split: if_splits)
          then have "StStoragePath y \<noteq> StStoragePath x" using repo_contract_maps(3) [OF v(2) y(1) x] by blast
          then have "local_blobs ls s2 (StStoragePath y) = local_blobs ls s (StStoragePath y)" using s2(3) by simp
          from record_ok_cong [where B' = "local_blobs ls s2", OF other [OF y] this refl refl refl]
          show ?thesis using r3(3) by simp
        qed
        ultimately show ?thesis using store_invI [OF s2(2) r3(2)] by simp
      qed
    qed
  qed
qed

lemma store_inv_tables: "store_inv ls (s, r) \<Longrightarrow> same_tables r r' \<Longrightarrow> store_inv ls (s, r')"
  by (simp add: store_inv_def same_tables_def)

lemma Download_keeps_store:
  assumes "store_inv ls (s, r)" "Download (file_service ls) i (s, r) = (res, w')"
  shows "store_inv ls w'"
proof -
  obtain found r' where g: "GetByID i r = (found, r')" by fastforce
  note inv = store_invD [OF assms(1)]
  have "store_inv ls (s, r')" using store_inv_tables [OF assms(1)] GetByID_same_tables [OF inv(2), of i] g by simp
  moreover have "w' = (s, r')"
    using assms(2) g local_Get_same [OF inv(1)]
    by (auto simp: Download_def file_service_def NewStorageService_def file_repository_def
        split: sum.splits prod.splits) (metis snd_conv)+
  ultimately show ?thesis by simp
qed

lemma sys_step_inv: "sys_step ls w w' \<Longrightarrow> store_inv ls w \<Longrightarrow> store_inv ls w'"
proof (induction rule: sys_step.induct)
  case (upload w path fileID now rd header res w')
  then show ?case using Upload_keeps_store by (metis surj_pair)
next
  case (download i w res w')
  then show ?case using Download_keeps_store by (metis surj_pair)
next
  case (delete i w res w')
  then show ?case using Delete_keeps_store by (metis surj_pair)
next
  case (list w res w')
  obtain s r where w: "w = (s, r)" by (metis surj_pair)
  have "w' = (s, snd (ListFiles r))" using list.hyps w
    by (simp add: svc_List_def file_service_def NewStorageService_def file_repository_def case_prod_beta)
  then show ?case
    using store_inv_tables ListFiles_same_tables [OF store_invD(2), of ls s r] list.prems w by blast
next
  case (tick d s r)
  then show ?case by (simp add: store_inv_def)
qed

lemma sys_reach_inv: "sys_reach ls w \<Longrightarrow> store_inv ls w"
proof (induction rule: sys_reach.induct)
  case (start s r)
  have "sys_inv ls (s, r)" using sys_start_inv start by blast
  moreover have "storages r h = None" for h
    using start(5) by (simp add: storages_def storages_of_def empty_db_def)
  ultimately show ?case by (simp add: sys_inv_def store_inv_def)
qed (rule sys_step_inv)

end
