(* ===== verification/GoURL.thy ===== *)
theory GoURL
  imports GoStrings
begin

text \<open>
  What the program uses of Go's \<open>net/url\<close> and \<open>net/http\<close> on the client side: parsing of the
  URLs it builds by concatenation, and requests and responses. Like GoStrings, this is
  vocabulary: it models no line of the repository.

  Every URL of the program starts with a scheme and \<open>://\<close>, so other forms are not translated.
  Left out as well are zone identifiers in IPv6 literals. The texts of the errors do not quote
  the URL.
\<close>

section \<open>Unescaping\<close>

definition is_digit :: "char \<Rightarrow> bool" where
  "is_digit c \<longleftrightarrow> c \<in> set ''0123456789''"

definition is_alnum :: "char \<Rightarrow> bool" where
  "is_alnum c \<longleftrightarrow> (let n = of_char c :: nat in
     48 \<le> n \<and> n \<le> 57 \<or> 65 \<le> n \<and> n \<le> 90 \<or> 97 \<le> n \<and> n \<le> 122)"

definition unhex :: "char \<Rightarrow> nat option" where
  "unhex c = (let n = of_char c :: nat in
     if 48 \<le> n \<and> n \<le> 57 then Some (n - 48)
     else if 65 \<le> n \<and> n \<le> 70 then Some (n - 55)
     else if 97 \<le> n \<and> n \<le> 102 then Some (n - 87)
     else None)"

text \<open>
  \<open>unescape(s, mode)\<close> for two modes: in a host, only some bytes may stand for themselves and no
  ASCII byte but the percent sign may be escaped; elsewhere every byte is allowed.
\<close>

definition host_byte :: "char \<Rightarrow> bool" where
  "host_byte c \<longleftrightarrow> is_alnum c \<or> c \<in> set ''-_.~!$&()*+,;=:[]<>'' \<or> c = CHR 0x27 \<or> c = CHR 0x22
     \<or> 128 \<le> (of_char c :: nat)"

definition escape_error :: goerr where
  "escape_error = ErrorString ''invalid URL escape''"

fun unescape :: "bool \<Rightarrow> string \<Rightarrow> string result" where
  "unescape host [] = Inr []"
| "unescape host (c # cs) =
     (if c = CHR ''%'' then
        (case cs of
           a # b # ds \<Rightarrow>
             (case (unhex a, unhex b) of
                (Some x, Some y) \<Rightarrow>
                  if host \<and> x < 8 \<and> \<not> (x = 2 \<and> y = 5) then Inl escape_error
                  else map_sum id ((#) (char_of (16 * x + y))) (unescape host ds)
              | _ \<Rightarrow> Inl escape_error)
         | _ \<Rightarrow> Inl escape_error)
      else if host \<and> \<not> host_byte c then Inl (ErrorString ''invalid character in host name'')
      else map_sum id ((#) c) (unescape host cs))"

section \<open>Parsing\<close>

record url =
  u_scheme :: string
  u_user :: "(string \<times> string) option"
  u_host :: string
  u_path :: string
  u_query :: string

text \<open>\<open>strings.Cut\<close> at the first occurrence of a byte.\<close>

definition Cut :: "char \<Rightarrow> string \<Rightarrow> string \<times> string" where
  "Cut c s = (takeWhile (\<lambda>d. d \<noteq> c) s, drop 1 (dropWhile (\<lambda>d. d \<noteq> c) s))"

text \<open>A split at the last occurrence of a byte: what is before it, if there is one, and after it.\<close>

definition cut_last :: "char \<Rightarrow> string \<Rightarrow> string option \<times> string" where
  "cut_last c s =
     (if c \<in> set s then (Some (take (nat (LastIndexByte s c)) s), drop (nat (LastIndexByte s c) + 1) s)
      else (None, s))"

definition validOptionalPort :: "string \<Rightarrow> bool" where
  "validOptionalPort p \<longleftrightarrow> p = [] \<or> hd p = CHR '':'' \<and> list_all is_digit (tl p)"

definition parseHost :: "string \<Rightarrow> string result" where
  "parseHost h =
     (if HasPrefix h ''['' then
        (case cut_last CHR '']'' h of
           (None, _) \<Rightarrow> Inl (ErrorString ''missing ']' in host'')
         | (Some _, p) \<Rightarrow>
             if validOptionalPort p then unescape True h else Inl (ErrorString ''invalid port after host''))
      else
        (case cut_last CHR '':'' h of
           (None, _) \<Rightarrow> unescape True h
         | (Some _, p) \<Rightarrow>
             if list_all is_digit p then unescape True h
             else Inl (ErrorString ''invalid port after host'')))"

definition validUserinfo :: "string \<Rightarrow> bool" where
  "validUserinfo s \<longleftrightarrow> list_all (\<lambda>c. is_alnum c \<or> c \<in> set ''-._:~!$&()*+,;=%@'' \<or> c = CHR 0x27) s"

definition parseAuthority :: "string \<Rightarrow> ((string \<times> string) option \<times> string) result" where
  "parseAuthority a =
     (case cut_last CHR ''@'' a of
        (None, h) \<Rightarrow> map_sum id (\<lambda>h. (None, h)) (parseHost h)
      | (Some ui, h) \<Rightarrow>
          (case parseHost h of
             Inl e \<Rightarrow> Inl e
           | Inr host \<Rightarrow>
               if \<not> validUserinfo ui then Inl (ErrorString ''net/url: invalid userinfo'')
               else (case (unescape False (fst (Cut CHR '':'' ui)), unescape False (snd (Cut CHR '':'' ui))) of
                       (Inr user, Inr pw) \<Rightarrow> Inr (Some (user, pw), host)
                     | _ \<Rightarrow> Inl escape_error)))"

definition ctl_byte :: "char \<Rightarrow> bool" where
  "ctl_byte c \<longleftrightarrow> (of_char c :: nat) < 32 \<or> (of_char c :: nat) = 127"

definition ParseURL :: "string \<Rightarrow> url result" where
  "ParseURL raw =
     (let (u, frag) = Cut CHR ''#'' raw in
      if list_ex ctl_byte u then Inl (ErrorString ''net/url: invalid control character in URL'')
      else
        (let (scheme, rest) = Cut CHR '':'' u;
             (rest, query) = Cut CHR ''?'' rest
         in if \<not> HasPrefix rest ''//'' then Inl (ErrorString ''no authority'')
            else
              (let auth = takeWhile (\<lambda>c. c \<noteq> CHR ''/'') (drop 2 rest);
                   path = dropWhile (\<lambda>c. c \<noteq> CHR ''/'') (drop 2 rest)
               in case parseAuthority auth of
                    Inl e \<Rightarrow> Inl e
                  | Inr (user, host) \<Rightarrow>
                      (case (unescape False path, unescape False frag) of
                         (Inr p, Inr f) \<Rightarrow>
                           Inr \<lparr>u_scheme = scheme, u_user = user, u_host = host, u_path = p, u_query = query\<rparr>
                       | _ \<Rightarrow> Inl escape_error))))"

section \<open>Requests and responses\<close>

text \<open>
  A body is kept as what was written into it: a multipart form with one file part (the only kind
  of form the program sends), or bytes.
\<close>

datatype body =
    NoBody
  | FormFile (form_field: string) (form_filename: string) (form_content: bytes)
  | RawBody bytes

record http_request =
  rq_method :: string
  rq_url :: url
  rq_headers :: "(string \<times> string) list"
  rq_body :: body

record http_response =
  rsp_status :: int
  rsp_body :: reader

text \<open>
  \<open>http.NewRequestWithContext\<close>: the URL is parsed, and an empty port removed. A context that is
  cancelled shows as an error of \<open>client.Do\<close>.
\<close>

definition NewRequest :: "string \<Rightarrow> string \<Rightarrow> body \<Rightarrow> http_request result" where
  "NewRequest m raw b =
     (case ParseURL raw of
        Inl e \<Rightarrow> Inl e
      | Inr u \<Rightarrow> Inr \<lparr>rq_method = m, rq_url = u\<lparr>u_host := TrimSuffix (u_host u) '':''\<rparr>, rq_headers = [], rq_body = b\<rparr>)"

text \<open>
  \<open>client.Do\<close>: the network and the servers behind it are a parameter, a function of the request
  and of their state.
\<close>

type_synonym 'n client = "http_request \<Rightarrow> 'n \<Rightarrow> http_response result \<times> 'n"

text \<open>\<open>string(body)\<close> for a slice of bytes.\<close>

definition string_of_bytes :: "bytes \<Rightarrow> string" where
  "string_of_bytes bs = map (\<lambda>b. char_of (unat b)) bs"

definition bytes_of_string :: "string \<Rightarrow> bytes" where
  "bytes_of_string s = map (\<lambda>c. of_nat (of_char c)) s"

section \<open>Facts\<close>

lemma unescape_plain: "CHR ''%'' \<notin> set s \<Longrightarrow> unescape False s = Inr s"
  by (induction s) auto

lemma Cut_absent: "c \<notin> set s \<Longrightarrow> Cut c s = (s, [])"
  by (induction s) (auto simp: Cut_def)

lemma Cut_append: "c \<notin> set s \<Longrightarrow> Cut c (s @ c # t) = (s, t)"
proof -
  assume "c \<notin> set s"
  then have "takeWhile (\<lambda>d. d \<noteq> c) (s @ c # t) = s" "dropWhile (\<lambda>d. d \<noteq> c) (s @ c # t) = c # t"
    by (auto simp: takeWhile_append dropWhile_append)
  then show ?thesis by (simp add: Cut_def)
qed

end
