(* ===== verification/Config.thy ===== *)
theory Config
  imports GoURL Complex_Main
begin

text \<open>
  internal/config/config.go: the connection pool of the database and the client of the cache, built
  from the untyped maps of the configuration. The packages pgxpool and go-redis are parameters.
\<close>

section \<open>Untyped values\<close>

text \<open>
  The values of a \<open>map[string]interface{}\<close>, by their dynamic type: the types the code asks for, and
  any other type by its name. An absent key gives nil.
\<close>

datatype goval = GoString string | GoInt int | GoInt64 int | GoFloat64 rat | GoOther string

type_synonym settings = "string \<Rightarrow> goval option"

text \<open>The verb \<open>%T\<close>.\<close>

fun type_name :: "goval option \<Rightarrow> string" where
  "type_name None = ''<nil>''"
| "type_name (Some (GoString s)) = ''string''"
| "type_name (Some (GoInt i)) = ''int''"
| "type_name (Some (GoInt64 i)) = ''int64''"
| "type_name (Some (GoFloat64 q)) = ''float64''"
| "type_name (Some (GoOther t)) = t"

text \<open>The type assertion \<open>v.(string)\<close>, which panics on any other type.\<close>

fun assert_string :: "goval option \<Rightarrow> string res" where
  "assert_string (Some (GoString s)) = Ok s"
| "assert_string v = Panic (''interface conversion: interface {} is ''
     @ (if v = None then ''nil'' else type_name v) @ '', not string'')"

text \<open>
  The conversion \<open>int(v)\<close> of a float truncates towards zero; a value that does not fit gives the
  smallest integer on amd64 (the language leaves it open).
\<close>

definition int_of_float :: "rat \<Rightarrow> int" where
  "int_of_float q =
     (let t = (if 0 \<le> q then \<lfloor>q\<rfloor> else \<lceil>q\<rceil>)
      in if - (2 ^ 63) \<le> t \<and> t < 2 ^ 63 then t else - (2 ^ 63))"

fun int_setting :: "goval option \<Rightarrow> int option" where
  "int_setting (Some (GoFloat64 q)) = Some (int_of_float q)"
| "int_setting (Some (GoInt i)) = Some i"
| "int_setting (Some (GoInt64 i)) = Some i"
| "int_setting _ = None"

section \<open>The database pool\<close>

definition dsn :: "string \<Rightarrow> string \<Rightarrow> string \<Rightarrow> int \<Rightarrow> string \<Rightarrow> string \<Rightarrow> string" where
  "dsn user password host port name sslMode =
     ''postgres://'' @ user @ '':'' @ password @ ''@'' @ host @ '':'' @ Itoa port @ ''/'' @ name
       @ ''?sslmode='' @ sslMode"

record 'c pool_config =
  ConnConfig :: 'c
  MaxConns :: int
  MaxConnLifetime :: int  \<comment> \<open>in minutes\<close>

definition bind_res :: "'a res \<Rightarrow> ('a \<Rightarrow> 'b res) \<Rightarrow> 'b res" where
  "bind_res r f = (case r of Ok x \<Rightarrow> f x | Err e \<Rightarrow> Err e | Panic m \<Rightarrow> Panic m)"

definition NewDBPool ::
  "(string \<Rightarrow> 'c pool_config result) \<Rightarrow> ('c pool_config \<Rightarrow> 'p result) \<Rightarrow> settings \<Rightarrow> 'p res" where
  "NewDBPool ParseConfig NewWithConfig cfg =
     bind_res (assert_string (cfg ''host'')) (\<lambda>host.
     bind_res (assert_string (cfg ''user'')) (\<lambda>user.
     bind_res (assert_string (cfg ''password'')) (\<lambda>password.
     bind_res (assert_string (cfg ''name'')) (\<lambda>name.
     bind_res (assert_string (cfg ''ssl_mode'')) (\<lambda>sslMode.
       (case int_setting (cfg ''port'') of
          None \<Rightarrow> Err (ErrorString (''invalid port type: '' @ type_name (cfg ''port'')))
        | Some port \<Rightarrow>
            (case ParseConfig (dsn user password host port name sslMode) of
               Inl e \<Rightarrow> Err e
             | Inr poolCfg \<Rightarrow>
                 (case NewWithConfig (poolCfg\<lparr>MaxConns := 10, MaxConnLifetime := 30\<rparr>) of
                    Inl e \<Rightarrow> Err e
                  | Inr pool \<Rightarrow> Ok pool))))))))"

section \<open>The cache client\<close>

record redis_options =
  Addr :: string
  Password :: string
  DB :: int

definition NewRedis :: "settings \<Rightarrow> redis_options res" where
  "NewRedis cfg =
     bind_res (assert_string (cfg ''host'')) (\<lambda>host.
       (let port = (case int_setting (cfg ''port'') of Some p \<Rightarrow> p | None \<Rightarrow> 6379);
            db = (case int_setting (cfg ''db'') of Some d \<Rightarrow> d | None \<Rightarrow> 0)
        in Ok \<lparr>Addr = host @ '':'' @ Itoa port, Password = [], DB = db\<rparr>))"

section \<open>Properties\<close>

lemma is_digit_alnum: "is_digit c \<Longrightarrow> is_alnum c"
  by (auto simp: is_digit_def is_alnum_def)

lemma nat_digits_digits: "list_all is_digit (nat_digits n)"
proof (induction n rule: nat_digits.induct)
  case (1 n)
  have "is_digit (digit_char d)" if "d < 10" for d
  proof -
    have "\<forall>d \<in> {0..<10}. is_digit (digit_char d)" by code_simp
    with that show ?thesis by simp
  qed
  then show ?case using 1 by (subst nat_digits.simps) simp
qed

lemma Itoa_digits: "0 \<le> i \<Longrightarrow> list_all is_digit (Itoa i)"
  using nat_digits_digits by (simp add: Itoa_def)

lemma cut_last_append: "c \<notin> set t \<Longrightarrow> cut_last c (s @ c # t) = (Some s, t)"
proof -
  assume c: "c \<notin> set t"
  then have "takeWhile (\<lambda>d. d \<noteq> c) (rev (s @ c # t)) = rev t"
    by (auto simp: takeWhile_append)
  then show ?thesis by (simp add: cut_last_def LastIndexByte_def)
qed

lemma cut_last_absent: "c \<notin> set s \<Longrightarrow> cut_last c s = (None, s)"
  by (simp add: cut_last_def)

lemma unescape_host: "list_all (\<lambda>c. host_byte c \<and> c \<noteq> CHR ''%'') s \<Longrightarrow> unescape True s = Inr s"
  by (induction s) auto

text \<open>Text that stands for itself everywhere in a URL.\<close>

definition word_like :: "string \<Rightarrow> bool" where
  "word_like s \<longleftrightarrow> list_all (\<lambda>c. is_alnum c \<or> c \<in> set ''-_.'') s"

lemma word_like_not: "word_like s \<Longrightarrow> c \<in> set s \<Longrightarrow> c \<noteq> CHR '':'' \<and> c \<noteq> CHR ''/'' \<and> c \<noteq> CHR ''?''
   \<and> c \<noteq> CHR ''#'' \<and> c \<noteq> CHR ''@'' \<and> c \<noteq> CHR ''%'' \<and> c \<noteq> CHR ''['' \<and> \<not> ctl_byte c \<and> host_byte c"
  by (auto simp: word_like_def list_all_iff is_alnum_def ctl_byte_def host_byte_def Let_def)

fun is_text :: "goval option \<Rightarrow> bool" where
  "is_text (Some (GoString s)) = True"
| "is_text v = False"

lemma is_text_iff: "is_text v \<longleftrightarrow> (\<exists>s. v = Some (GoString s))"
  by (cases v rule: is_text.cases) auto

lemma bind_assert:
  "is_panic (bind_res (assert_string v) f) \<longleftrightarrow> (\<forall>s. v = Some (GoString s) \<longrightarrow> is_panic (f s))"
  "is_ok (bind_res (assert_string v) f) \<longleftrightarrow> (\<exists>s. v = Some (GoString s) \<and> is_ok (f s))"
  by (cases v rule: is_text.cases; simp add: bind_res_def)+

lemma tail_no_panic:
  "\<not> is_panic (case v of None \<Rightarrow> Err e | Some port \<Rightarrow>
     (case P port of Inl e \<Rightarrow> Err e | Inr c \<Rightarrow> (case N c of Inl e \<Rightarrow> Err e | Inr p \<Rightarrow> Ok p)))"
  by (simp split: option.split sum.split)

text \<open>
  Starting the database pool panics exactly when one of the five settings is absent or not a
  string; the port alone is checked, and of the wrong type it is an error. The cache needs its host
  only.
\<close>

lemma NewDBPool_panics_iff:
  "is_panic (NewDBPool ParseConfig NewWithConfig cfg) \<longleftrightarrow>
      \<not> (is_text (cfg ''host'') \<and> is_text (cfg ''user'') \<and> is_text (cfg ''password'')
         \<and> is_text (cfg ''name'') \<and> is_text (cfg ''ssl_mode''))"
  by (auto simp: NewDBPool_def bind_assert is_text_iff tail_no_panic)

lemma NewRedis_ok_iff: "is_ok (NewRedis cfg) \<longleftrightarrow> is_text (cfg ''host'')"
  by (auto simp: NewRedis_def bind_assert is_text_iff Let_def)

text \<open>The parts of a connection URL.\<close>

definition user_text :: "string \<Rightarrow> bool" where
  "user_text s \<longleftrightarrow> validUserinfo s \<and> CHR ''%'' \<notin> set s"

lemma userinfo_bytes:
  "validUserinfo s \<Longrightarrow> c \<in> set s \<Longrightarrow> c \<noteq> CHR ''#'' \<and> c \<noteq> CHR ''?'' \<and> c \<noteq> CHR ''/'' \<and> c \<noteq> CHR ''['' \<and> \<not> ctl_byte c"
  by (auto simp: validUserinfo_def list_all_iff is_alnum_def ctl_byte_def Let_def)

lemma alnum_userinfo: "list_all is_alnum s \<Longrightarrow> validUserinfo s"
  by (auto simp: validUserinfo_def list_all_iff)

lemma word_like_plain:
  assumes "word_like s"
  shows "CHR ''#'' \<notin> set s" "CHR ''?'' \<notin> set s" "CHR ''/'' \<notin> set s" "CHR '':'' \<notin> set s" "CHR ''@'' \<notin> set s"
    "CHR ''%'' \<notin> set s" "\<not> list_ex ctl_byte s" "\<not> HasPrefix (s @ t) ''['' \<or> s = []" "validUserinfo s"
proof -
  note w = word_like_not [OF assms]
  show "CHR ''#'' \<notin> set s" "CHR ''?'' \<notin> set s" "CHR ''/'' \<notin> set s" "CHR '':'' \<notin> set s" "CHR ''@'' \<notin> set s"
    "CHR ''%'' \<notin> set s" using w by blast+
  show "\<not> list_ex ctl_byte s" using w unfolding list_ex_iff by blast
  show "\<not> HasPrefix (s @ t) ''['' \<or> s = []" using w [of "CHR ''[''"] by (cases s) (auto simp: HasPrefix_def)
  show "validUserinfo s" using assms by (auto simp: validUserinfo_def word_like_def list_all_iff)
qed

lemma digits_plain:
  assumes "list_all is_digit s"
  shows "CHR ''#'' \<notin> set s" "CHR ''?'' \<notin> set s" "CHR ''/'' \<notin> set s" "CHR '':'' \<notin> set s" "CHR ''@'' \<notin> set s"
    "CHR ''%'' \<notin> set s" "\<not> list_ex ctl_byte s"
proof -
  have "c \<noteq> CHR ''#'' \<and> c \<noteq> CHR ''?'' \<and> c \<noteq> CHR ''/'' \<and> c \<noteq> CHR '':'' \<and> c \<noteq> CHR ''@'' \<and> c \<noteq> CHR ''%'' \<and> \<not> ctl_byte c"
    if "is_digit c" for c using that by (auto simp: is_digit_def ctl_byte_def)
  then have *: "c \<noteq> CHR ''#'' \<and> c \<noteq> CHR ''?'' \<and> c \<noteq> CHR ''/'' \<and> c \<noteq> CHR '':'' \<and> c \<noteq> CHR ''@'' \<and> c \<noteq> CHR ''%'' \<and> \<not> ctl_byte c"
    if "c \<in> set s" for c using assms that unfolding list_all_iff by blast
  show "CHR ''#'' \<notin> set s" "CHR ''?'' \<notin> set s" "CHR ''/'' \<notin> set s" "CHR '':'' \<notin> set s" "CHR ''@'' \<notin> set s"
    "CHR ''%'' \<notin> set s" using * by blast+
  show "\<not> list_ex ctl_byte s" using * unfolding list_ex_iff by blast
qed

lemma parseHost_port:
  assumes "word_like h" "list_all is_digit p"
  shows "parseHost (h @ CHR '':'' # p) = Inr (h @ CHR '':'' # p)"
proof -
  have "host_byte c \<and> c \<noteq> CHR ''%''" if mem: "c \<in> set (h @ CHR '':'' # p)" for c
  proof -
    consider "c \<in> set h" | "c = CHR '':''" | "c \<in> set p" using mem by auto
    then show ?thesis
    proof cases
      case 1
      then show ?thesis using word_like_not [OF assms(1)] by blast
    next
      case 2
      then show ?thesis by (simp add: host_byte_def)
    next
      case 3
      then have "is_digit c" "c \<noteq> CHR ''%''" using assms(2) digits_plain(6) [OF assms(2)] by (auto simp: list_all_iff)
      then show ?thesis using is_digit_alnum by (simp add: host_byte_def)
    qed
  qed
  then have "list_all (\<lambda>c. host_byte c \<and> c \<noteq> CHR ''%'') (h @ CHR '':'' # p)" by (simp only: list_all_iff) blast
  then have "unescape True (h @ CHR '':'' # p) = Inr (h @ CHR '':'' # p)" by (rule unescape_host)
  moreover have "\<not> HasPrefix (h @ CHR '':'' # p) ''[''" using word_like_plain(8) [OF assms(1)] by (cases h) (auto simp: HasPrefix_def)
  moreover have "cut_last CHR '':'' (h @ CHR '':'' # p) = (Some h, p)"
    by (rule cut_last_append [OF digits_plain(4) [OF assms(2)]])
  ultimately show ?thesis using assms(2) by (simp add: parseHost_def)
qed

text \<open>
  C35: When the user, the host, the name and the mode consist of letters, digits, hyphens, underscores
  and dots, the port is not negative, and the password of characters that are allowed in that place
  (at signs and colons among them) without a percent sign, the connection URL parses back into the
  settings it was built from. The settings are not escaped, and with other characters this fails.
\<close>

theorem dsn_roundtrip:
  assumes "word_like user" and "user_text password" and "word_like host" and "0 \<le> port"
    and "word_like name" and "word_like sslMode"
  shows "ParseURL (dsn user password host port name sslMode) =
    Inr \<lparr>u_scheme = ''postgres'', u_user = Some (user, password), u_host = host @ '':'' @ Itoa port,
         u_path = ''/'' @ name, u_query = ''sslmode='' @ sslMode\<rparr>"
proof -
  note d = digits_plain [OF Itoa_digits [OF assms(4)]]
  note w = word_like_plain
  have pv: "validUserinfo password" "CHR ''%'' \<notin> set password" using assms(2) by (simp_all add: user_text_def)
  note pb = userinfo_bytes [OF pv(1)]
  let ?auth = "(user @ CHR '':'' # password) @ CHR ''@'' # (host @ CHR '':'' # Itoa port)"
  let ?raw = "''postgres'' @ CHR '':'' # (''//'' @ ?auth @ CHR ''/'' # name @ CHR ''?'' # ''sslmode='' @ sslMode)"
  have raw: "dsn user password host port name sslMode = ?raw" by (simp add: dsn_def)
  have "CHR ''#'' \<notin> set ?raw" using w(1) [OF assms(1)] w(1) [OF assms(3)] w(1) [OF assms(5)] w(1) [OF assms(6)] d(1) pb
    by auto
  note c1 = Cut_absent [OF this]
  have "\<not> list_ex ctl_byte password" using pb by (auto simp: list_ex_iff)
  moreover have "\<not> list_ex ctl_byte ''postgres''" "\<not> list_ex ctl_byte ''sslmode=''" "\<not> ctl_byte CHR '':''"
    "\<not> ctl_byte CHR ''/''" "\<not> ctl_byte CHR ''@''" "\<not> ctl_byte CHR ''?''" by (simp_all add: ctl_byte_def)
  ultimately have ctl: "\<not> list_ex ctl_byte ?raw"
    using w(7) [OF assms(1)] w(7) [OF assms(3)] w(7) [OF assms(5)] w(7) [OF assms(6)] d(7) by simp
  have "CHR '':'' \<notin> set ''postgres''" by simp
  note c2 = Cut_append [OF this, of "''//'' @ ?auth @ CHR ''/'' # name @ CHR ''?'' # ''sslmode='' @ sslMode"]
  have nq: "CHR ''?'' \<notin> set (''//'' @ ?auth @ CHR ''/'' # name)"
    using w(2) [OF assms(1)] w(2) [OF assms(3)] w(2) [OF assms(5)] d(2) pb by auto
  have c3: "Cut CHR ''?'' (''//'' @ ?auth @ CHR ''/'' # name @ CHR ''?'' # ''sslmode='' @ sslMode) =
      (''//'' @ ?auth @ CHR ''/'' # name, ''sslmode='' @ sslMode)"
    using Cut_append [OF nq, of "''sslmode='' @ sslMode"] by simp
  have ns: "CHR ''/'' \<notin> set ?auth" using w(3) [OF assms(1)] w(3) [OF assms(3)] d(3) pb by auto
  have t: "takeWhile (\<lambda>c. c \<noteq> CHR ''/'') (?auth @ CHR ''/'' # name) = ?auth"
    "dropWhile (\<lambda>c. c \<noteq> CHR ''/'') (?auth @ CHR ''/'' # name) = CHR ''/'' # name"
    using ns by (simp_all add: takeWhile_append dropWhile_append takeWhile_eq_all_conv)
  have "CHR ''@'' \<notin> set (host @ CHR '':'' # Itoa port)" using w(5) [OF assms(3)] d(5) by simp
  note c4 = cut_last_append [OF this, of "user @ CHR '':'' # password"]
  have ui: "validUserinfo (user @ CHR '':'' # password)"
    using w(9) [OF assms(1)] pv(1) by (auto simp: validUserinfo_def)
  have c5: "Cut CHR '':'' (user @ CHR '':'' # password) = (user, password)" by (rule Cut_append [OF w(4) [OF assms(1)]])
  have pa: "parseAuthority ?auth = Inr (Some (user, password), host @ CHR '':'' # Itoa port)"
    unfolding parseAuthority_def c4 using parseHost_port [OF assms(3) Itoa_digits [OF assms(4)]] ui c5
      unescape_plain [OF w(6) [OF assms(1)]] unescape_plain [OF pv(2)] by simp
  have up: "unescape False (CHR ''/'' # name) = Inr (CHR ''/'' # name)"
    using w(6) [OF assms(5)] by (intro unescape_plain) simp
  show ?thesis unfolding raw ParseURL_def c1 prod.case Let_def
    using ctl c2 c3 t pa up by (simp add: HasPrefix_def)
qed

theorem dsn_roundtrip_witness:
  "\<exists>u. ParseURL (dsn ''app'' ''p@ss:word'' ''db'' 5432 ''files'' ''disable'') = Inr u \<and> u_host u = ''db:5432''"
proof -
  have "word_like ''app''" "user_text ''p@ss:word''" "word_like ''db''" "word_like ''files''" "word_like ''disable''"
    by code_simp+
  moreover have "Itoa 5432 = ''5432''" by (simp add: Itoa_def nat_digits.simps digit_char_def)
  ultimately show ?thesis using dsn_roundtrip [of "''app''" "''p@ss:word''" "''db''" 5432 "''files''" "''disable''"] by simp
qed

lemma Cut_prefix: "c \<notin> set s \<Longrightarrow> Cut c (s @ t) = (s @ fst (Cut c t), snd (Cut c t))"
  by (induction s) (auto simp: Cut_def)

text \<open>
  The settings go into the connection URL as they are. With a slash in the password the URL no
  longer parses (what is before the slash is read as host and port), so a driver that refuses such
  URLs makes the start fail for a password that the database accepts.
\<close>

theorem dsn_slash_in_password:
  assumes "word_like user" and "word_like pre" and "\<not> list_all is_digit pre"
    and "cfg ''host'' = Some (GoString host)" and "cfg ''user'' = Some (GoString user)"
    and "cfg ''password'' = Some (GoString (pre @ ''/'' @ post))" and "cfg ''name'' = Some (GoString name)"
    and "cfg ''ssl_mode'' = Some (GoString sslMode)" and "cfg ''port'' = Some (GoInt port)"
    and "\<And>s e. ParseURL s = Inl e \<Longrightarrow> \<exists>e'. ParseConfig s = Inl e'"
  shows "\<exists>e. NewDBPool ParseConfig NewWithConfig cfg = Err e"
proof -
  note w = word_like_plain
  let ?auth = "user @ CHR '':'' # pre"
  let ?rest = "post @ ''@'' @ host @ '':'' @ Itoa port @ ''/'' @ name @ ''?sslmode='' @ sslMode"
  let ?raw = "''postgres'' @ CHR '':'' # ''//'' @ ?auth @ CHR ''/'' # ?rest"
  have raw: "dsn user (pre @ ''/'' @ post) host port name sslMode = ?raw" by (simp add: dsn_def)
  define r1 where "r1 = fst (Cut CHR ''#'' (CHR ''/'' # ?rest))"
  obtain f where c1: "Cut CHR ''#'' ?raw = (''postgres'' @ CHR '':'' # ''//'' @ ?auth @ r1, f)"
    using Cut_prefix [of "CHR ''#''" "''postgres'' @ CHR '':'' # ''//'' @ ?auth" "CHR ''/'' # ?rest"]
      w(1) [OF assms(1)] w(1) [OF assms(2)] by (auto simp: r1_def)
  have "CHR '':'' \<notin> set ''postgres''" by simp
  note c2 = Cut_append [OF this, of "''//'' @ ?auth @ r1"]
  define r2 where "r2 = fst (Cut CHR ''?'' r1)"
  have nq: "CHR ''?'' \<notin> set (''//'' @ ?auth)" using w(2) [OF assms(1)] w(2) [OF assms(2)] by simp
  obtain q where c3: "Cut CHR ''?'' (''//'' @ ?auth @ r1) = (''//'' @ ?auth @ r2, q)"
    using Cut_prefix [OF nq, of r1] by (auto simp: r2_def)
  have "\<exists>r3. r1 = CHR ''/'' # r3" by (simp add: r1_def Cut_def)
  then obtain r3 where r2: "r2 = CHR ''/'' # r3" by (auto simp: r2_def Cut_def)
  have ns: "CHR ''/'' \<notin> set ?auth" using w(3) [OF assms(1)] w(3) [OF assms(2)] by simp
  then have t: "takeWhile (\<lambda>c. c \<noteq> CHR ''/'') (?auth @ r2) = ?auth"
    unfolding r2 by (simp add: takeWhile_append takeWhile_eq_all_conv)
  have "CHR ''@'' \<notin> set ?auth" using w(5) [OF assms(1)] w(5) [OF assms(2)] by simp
  note c4 = cut_last_absent [OF this]
  have "\<not> HasPrefix ?auth ''[''" using w(8) [OF assms(1)] by (cases user) (auto simp: HasPrefix_def)
  then have "parseHost ?auth = Inl (ErrorString ''invalid port after host'')"
    using cut_last_append [OF w(4) [OF assms(2)], of user] assms(3) by (simp add: parseHost_def)
  then have "\<exists>e. parseAuthority ?auth = Inl e" unfolding parseAuthority_def c4 by simp
  then have "\<exists>e. ParseURL ?raw = Inl e" unfolding ParseURL_def c1 prod.case Let_def
    using c2 c3 t by (auto simp: HasPrefix_def)
  then obtain e' where "ParseConfig (dsn user (pre @ ''/'' @ post) host port name sslMode) = Inl e'"
    using assms(10) unfolding raw by blast
  then show ?thesis using assms(4-9) by (simp add: NewDBPool_def bind_res_def)
qed

definition demo_settings :: settings where
  "demo_settings = [''host'' \<mapsto> GoString ''db'', ''user'' \<mapsto> GoString ''app'', ''password'' \<mapsto> GoString ''pass/word'',
     ''name'' \<mapsto> GoString ''files'', ''ssl_mode'' \<mapsto> GoString ''disable'', ''port'' \<mapsto> GoInt 5432]"

theorem dsn_slash_in_password_witness:
  "\<exists>e. NewDBPool (\<lambda>s. map_sum id (\<lambda>u. \<lparr>ConnConfig = u, MaxConns = 0, MaxConnLifetime = 0\<rparr>) (ParseURL s)) Inr
     demo_settings = Err e"
proof -
  have "word_like ''app''" "word_like ''pass''" "\<not> list_all is_digit ''pass''" by code_simp+
  then show ?thesis
    using dsn_slash_in_password [of "''app''" "''pass''" demo_settings "''db''" "''word''" "''files''" "''disable''" 5432
        "\<lambda>s. map_sum id (\<lambda>u. \<lparr>ConnConfig = u, MaxConns = 0, MaxConnLifetime = 0\<rparr>) (ParseURL s)" Inr]
    by (simp add: demo_settings_def)
qed

end
