(* ===== verification/SeaweedSimple.thy ===== *)
theory SeaweedSimple
  imports BlobStore GoURL Model "HOL-Library.Monad_Syntax"
begin

unbundle bit_operations_syntax

text \<open>
  pkg/storage/seaweedfs_simple.go: \<open>SeaweedFSSimpleStorage\<close>, the \<open>Storage\<close> that cmd/main.go
  builds for the storage type seaweedfs. Each operation is one HTTP request to the filer; the
  network, the filer and its state are the parameter \<open>client\<close>, so the state of the storage is
  the state of the network.
\<close>

section \<open>Construction\<close>

record SeaweedSimple =
  masterURL :: string
  filerURL :: string

text \<open>A type of the file that no operation uses.\<close>

record SimpleAssignResponse =
  sa_FileID :: string
  sa_URL :: string
  sa_PublicURL :: string
  sa_Error :: string

definition http_get :: "'n client \<Rightarrow> string \<Rightarrow> 'n \<Rightarrow> http_response result \<times> 'n" where
  \<comment> \<open>\<open>client.Get(url)\<close>\<close>
  "http_get client raw n = (case NewRequest ''GET'' raw NoBody of Inl e \<Rightarrow> (Inl e, n) | Inr rq \<Rightarrow> client rq n)"

definition healthCheck :: "'n client \<Rightarrow> string \<Rightarrow> 'n \<Rightarrow> goerr option \<times> 'n" where
  "healthCheck client master n =
     (case http_get client (master @ ''/cluster/status'') n of
        (Inl e, n) \<Rightarrow> (Some e, n)
      | (Inr resp, n) \<Rightarrow>
          if rsp_status resp \<noteq> 200
          then (Some (ErrorString (''master server returned status '' @ Itoa (rsp_status resp))), n)
          else (None, n))"

definition with_scheme :: "string \<Rightarrow> string" where
  "with_scheme u = (if \<not> HasPrefix u ''http://'' \<and> \<not> HasPrefix u ''https://'' then ''http://'' @ u else u)"

definition derive_filer :: "string \<Rightarrow> string" where
  "derive_filer master =
     (let u = ReplaceFirst master '':9333'' '':8888''
      in ReplaceFirst u ''seaweedfs-master'' ''seaweedfs-filer'')"

definition NewSeaweedFSSimpleStorage :: "'n client \<Rightarrow> string \<Rightarrow> 'n \<Rightarrow> SeaweedSimple result \<times> 'n" where
  "NewSeaweedFSSimpleStorage client master n =
     (let master = with_scheme master;
          filer = derive_filer master;
          storage = \<lparr>masterURL = TrimSuffix master ''/'', filerURL = TrimSuffix filer ''/''\<rparr>
      in case healthCheck client (masterURL storage) n of
           (Some e, n) \<Rightarrow> (Inl (wrapf ''seaweedfs connection failed: '' e), n)
         | (None, n) \<Rightarrow> (Inr storage, n))"

section \<open>The operations\<close>

definition set_content_type :: "string \<Rightarrow> http_request \<Rightarrow> http_request" where
  \<comment> \<open>\<open>req.Header.Set("Content-Type", v)\<close> on a fresh request\<close>
  "set_content_type v rq = rq\<lparr>rq_headers := [(''Content-Type'', v)]\<rparr>"

definition failed_put :: "goerr \<Rightarrow> bytes \<Rightarrow> put_result" where
  "failed_put e consumed = \<lparr>pr_n = 0, pr_err = Some e, pr_consumed = consumed\<rparr>"

text \<open>
  The reader is read to its end before anything is sent. Writing the form into a buffer cannot
  fail; the type of the form holds a boundary drawn at random, which is left out.
\<close>

definition simple_Put ::
  "'n client \<Rightarrow> SeaweedSimple \<Rightarrow> string \<Rightarrow> reader \<Rightarrow> int \<Rightarrow> 'n \<Rightarrow> put_result \<times> 'n" where
  "simple_Put client s path rd sz n =
     (case rd_err rd of
        Some e \<Rightarrow> (failed_put e (rd_data rd), n)
      | None \<Rightarrow>
          (case NewRequest ''POST'' (filerURL s @ ''/'' @ path) (FormFile ''file'' path (rd_data rd)) of
             Inl e \<Rightarrow> (failed_put e (rd_data rd), n)
           | Inr rq \<Rightarrow>
               (case client (set_content_type ''multipart/form-data'' rq) n of
                  (Inl e, n) \<Rightarrow> (failed_put e (rd_data rd), n)
                | (Inr resp, n) \<Rightarrow>
                    if rsp_status resp \<noteq> 201 \<and> rsp_status resp \<noteq> 200
                    then (failed_put (ErrorString (''upload failed with status '' @ Itoa (rsp_status resp)
                            @ '': '' @ string_of_bytes (rd_data (rsp_body resp)))) (rd_data rd), n)
                    else (\<lparr>pr_n = int (length (rd_data rd)), pr_err = None, pr_consumed = rd_data rd\<rparr>, n))))"

definition simple_Get ::
  "'n client \<Rightarrow> SeaweedSimple \<Rightarrow> string \<Rightarrow> 'n \<Rightarrow> reader result \<times> 'n" where
  "simple_Get client s path n =
     (case NewRequest ''GET'' (filerURL s @ ''/'' @ path) NoBody of
        Inl e \<Rightarrow> (Inl e, n)
      | Inr rq \<Rightarrow>
          (case client rq n of
             (Inl e, n) \<Rightarrow> (Inl e, n)
           | (Inr resp, n) \<Rightarrow>
               if rsp_status resp = 404 then (Inl (ErrorString (''file not found: '' @ path)), n)
               else if rsp_status resp \<noteq> 200
               then (Inl (ErrorString (''failed to get file: status '' @ Itoa (rsp_status resp))), n)
               else (Inr (rsp_body resp), n)))"

definition simple_Delete ::
  "'n client \<Rightarrow> SeaweedSimple \<Rightarrow> string \<Rightarrow> 'n \<Rightarrow> goerr option \<times> 'n" where
  "simple_Delete client s path n =
     (case NewRequest ''DELETE'' (filerURL s @ ''/'' @ path) NoBody of
        Inl e \<Rightarrow> (Some e, n)
      | Inr rq \<Rightarrow>
          (case client rq n of
             (Inl e, n) \<Rightarrow> (Some e, n)
           | (Inr resp, n) \<Rightarrow>
               if rsp_status resp = 404 then (None, n)
               else if rsp_status resp \<noteq> 204 \<and> rsp_status resp \<noteq> 200
               then (Some (ErrorString (''failed to delete file: status '' @ Itoa (rsp_status resp))), n)
               else (None, n)))"

section \<open>Listing\<close>

text \<open>
  The answer of the filer, decoded from JSON. The step from the text of the body to the JSON value
  is the parameter \<open>json_of\<close>; from the value to the struct it is \<open>unmarshal_Listing\<close>.
\<close>

record DirectoryEntry =
  de_FullPath :: string
  de_Mtime :: time
  de_Crtime :: time
  de_Mode :: int
  de_Uid :: int
  de_Gid :: int
  de_Mime :: string
  de_Size :: int
  de_Name :: string

record DirectoryListResponse =
  dl_Path :: string
  dl_Entries :: "DirectoryEntry list"
  dl_Limit :: int
  dl_LastFileName :: string
  dl_ShouldDisplayLoadMore :: bool

text \<open>
  Into each field go the values of all keys that match its name without regard to case, in their
  order; \<open>null\<close> leaves the field as it is, and a value of the wrong kind is an error.
\<close>

definition values_of :: "string \<Rightarrow> (string \<times> json) list \<Rightarrow> json list" where
  "values_of k kvs = map snd (filter (\<lambda>kv. ToLower (fst kv) = ToLower k) kvs)"

fun decode_field :: "(json \<Rightarrow> 'a option) \<Rightarrow> json list \<Rightarrow> 'a \<Rightarrow> 'a option" where
  "decode_field f [] x = Some x"
| "decode_field f (j # js) x =
     (if j = JNull then decode_field f js x
      else (case f j of None \<Rightarrow> None | Some y \<Rightarrow> decode_field f js y))"

fun as_string :: "json \<Rightarrow> string option" where
  "as_string (JStr s) = Some s" | "as_string _ = None"

fun as_int :: "json \<Rightarrow> int option" where
  "as_int (JNum i) = (if - (2 ^ 63) \<le> i \<and> i < 2 ^ 63 then Some i else None)" | "as_int _ = None"

fun as_time :: "json \<Rightarrow> time option" where
  "as_time (JTime t) = Some t" | "as_time _ = None"

fun as_bool :: "json \<Rightarrow> bool option" where
  "as_bool (JBool b) = Some b" | "as_bool _ = None"

fun unmarshal_Entry :: "json \<Rightarrow> DirectoryEntry option" where
  "unmarshal_Entry JNull = Some \<lparr>de_FullPath = [], de_Mtime = zero_time, de_Crtime = zero_time,
     de_Mode = 0, de_Uid = 0, de_Gid = 0, de_Mime = [], de_Size = 0, de_Name = []\<rparr>"
| "unmarshal_Entry (JObj kvs) =
     do {
       fp \<leftarrow> decode_field as_string (values_of ''FullPath'' kvs) [];
       mt \<leftarrow> decode_field as_time (values_of ''Mtime'' kvs) zero_time;
       ct \<leftarrow> decode_field as_time (values_of ''Crtime'' kvs) zero_time;
       mo \<leftarrow> decode_field as_int (values_of ''Mode'' kvs) 0;
       ui \<leftarrow> decode_field as_int (values_of ''Uid'' kvs) 0;
       gi \<leftarrow> decode_field as_int (values_of ''Gid'' kvs) 0;
       mi \<leftarrow> decode_field as_string (values_of ''Mime'' kvs) [];
       sz \<leftarrow> decode_field as_int (values_of ''Size'' kvs) 0;
       nm \<leftarrow> decode_field as_string (values_of ''name'' kvs) [];
       Some \<lparr>de_FullPath = fp, de_Mtime = mt, de_Crtime = ct, de_Mode = mo, de_Uid = ui, de_Gid = gi,
         de_Mime = mi, de_Size = sz, de_Name = nm\<rparr>
     }"
| "unmarshal_Entry _ = None"

fun unmarshal_entries :: "json list \<Rightarrow> DirectoryEntry list option" where
  "unmarshal_entries [] = Some []"
| "unmarshal_entries (j # js) = do { e \<leftarrow> unmarshal_Entry j; es \<leftarrow> unmarshal_entries js; Some (e # es) }"

fun as_entries :: "json \<Rightarrow> DirectoryEntry list option" where
  "as_entries (JArr js) = unmarshal_entries js" | "as_entries _ = None"

fun unmarshal_Listing :: "json \<Rightarrow> DirectoryListResponse option" where
  "unmarshal_Listing JNull = Some \<lparr>dl_Path = [], dl_Entries = [], dl_Limit = 0, dl_LastFileName = [],
     dl_ShouldDisplayLoadMore = False\<rparr>"
| "unmarshal_Listing (JObj kvs) =
     do {
       p \<leftarrow> decode_field as_string (values_of ''Path'' kvs) [];
       es \<leftarrow> decode_field as_entries (values_of ''Entries'' kvs) [];
       li \<leftarrow> decode_field as_int (values_of ''Limit'' kvs) 0;
       la \<leftarrow> decode_field as_string (values_of ''LastFileName'' kvs) [];
       mo \<leftarrow> decode_field as_bool (values_of ''ShouldDisplayLoadMore'' kvs) False;
       Some \<lparr>dl_Path = p, dl_Entries = es, dl_Limit = li, dl_LastFileName = la, dl_ShouldDisplayLoadMore = mo\<rparr>
     }"
| "unmarshal_Listing _ = None"

definition decode_error :: goerr where
  "decode_error = ErrorString ''json: cannot unmarshal value into Go struct''"

definition is_directory :: "DirectoryEntry \<Rightarrow> bool" where
  \<comment> \<open>\<open>entry.Mode&0x4000 != 0\<close>\<close>
  "is_directory e \<longleftrightarrow> de_Mode e AND 0x4000 \<noteq> 0"

fun entry_loop :: "string \<Rightarrow> DirectoryEntry list \<Rightarrow> string list" where
  "entry_loop prefix [] = []"
| "entry_loop prefix (e # es) =
     (if \<not> is_directory e then
        (let fullPath = TrimPrefix (de_FullPath e) ''/'' in
         if prefix = [] \<or> HasPrefix fullPath prefix then fullPath # entry_loop prefix es
         else entry_loop prefix es)
      else entry_loop prefix es)"

definition list_url :: "SeaweedSimple \<Rightarrow> string \<Rightarrow> string" where
  "list_url s prefix =
     (if prefix \<noteq> [] \<and> Contains prefix ''/'' then
        (let dir = take (nat (LastIndexByte prefix CHR ''/'')) prefix
         in filerURL s @ ''/'' @ dir @ ''/?pretty=y'')
      else filerURL s @ ''/?pretty=y'')"

definition simple_List ::
  "'n client \<Rightarrow> (reader \<Rightarrow> json result) \<Rightarrow> SeaweedSimple \<Rightarrow> string \<Rightarrow> 'n \<Rightarrow> string list result \<times> 'n" where
  "simple_List client json_of s prefix n =
     (case NewRequest ''GET'' (list_url s prefix) NoBody of
        Inl e \<Rightarrow> (Inl e, n)
      | Inr rq \<Rightarrow>
          (case client rq n of
             (Inl e, n) \<Rightarrow> (Inl e, n)
           | (Inr resp, n) \<Rightarrow>
               if rsp_status resp = 404 then (Inr [], n)
               else if rsp_status resp \<noteq> 200
               then (Inl (ErrorString (''failed to list files: status '' @ Itoa (rsp_status resp))), n)
               else (case json_of (rsp_body resp) of
                       Inl e \<Rightarrow> (Inl e, n)
                     | Inr j \<Rightarrow>
                         (case unmarshal_Listing j of
                            None \<Rightarrow> (Inl decode_error, n)
                          | Some listResp \<Rightarrow> (Inr (entry_loop prefix (dl_Entries listResp)), n)))))"

definition seaweed_simple_ops ::
  "'n client \<Rightarrow> (reader \<Rightarrow> json result) \<Rightarrow> SeaweedSimple \<Rightarrow> 'n storage_ops" where
  "seaweed_simple_ops client json_of s =
     \<lparr>st_Put = simple_Put client s, st_Get = simple_Get client s, st_Delete = simple_Delete client s,
      st_List = simple_List client json_of s\<rparr>"

section \<open>What a listing returns\<close>

lemma is_directory_bit: "is_directory e \<longleftrightarrow> bit (de_Mode e) 14"
  using and_exp_eq_0_iff_not_bit [of "de_Mode e" 14] by (simp add: is_directory_def)

lemma HasPrefix_Nil [simp]: "HasPrefix s []"
  by (simp add: HasPrefix_def)

lemma entry_loop_filter:
  "entry_loop prefix es = filter (\<lambda>p. HasPrefix p prefix)
     (map (\<lambda>e. TrimPrefix (de_FullPath e) ''/'') (filter (\<lambda>e. \<not> bit (de_Mode e) 14) es))"
  by (induction es) (auto simp: Let_def is_directory_bit)

text \<open>The keys of the listing, in lower case.\<close>

lemma ToLower_keys:
  "ToLower ''Path'' = ''path''"
  "ToLower ''Entries'' = ''entries''"
  "ToLower ''Limit'' = ''limit''"
  "ToLower ''LastFileName'' = ''lastfilename''"
  "ToLower ''ShouldDisplayLoadMore'' = ''shoulddisplayloadmore''"
  "ToLower ''FullPath'' = ''fullpath''"
  "ToLower ''Mtime'' = ''mtime''"
  "ToLower ''Crtime'' = ''crtime''"
  "ToLower ''Mode'' = ''mode''"
  "ToLower ''Uid'' = ''uid''"
  "ToLower ''Gid'' = ''gid''"
  "ToLower ''Mime'' = ''mime''"
  "ToLower ''Size'' = ''size''"
  "ToLower ''name'' = ''name''"
  by (simp_all add: ToLower_ascii ascii_def lower_rune_def char_of_eq_iff)

text \<open>
  C37: A listing that the filer answers returns, in its order, the paths below the prefix of the
  entries whose mode has bit 14 clear, and nothing of what the answer says about further entries. A
  directory in Go's encoding of file modes has bit 31 set and bit 14 clear, so it is listed as a
  file.
\<close>

theorem seaweed_list_result:
  assumes "NewRequest ''GET'' (list_url s prefix) NoBody = Inr rq"
    and "client rq n = (Inr \<lparr>rsp_status = 200, rsp_body = rd\<rparr>, n')"
    and "json_of rd = Inr j" and "unmarshal_Listing j = Some l"
  shows "\<exists>fs. simple_List client json_of s prefix n = (Inr fs, n')
    \<and> fs = filter (\<lambda>p. HasPrefix p prefix)
        (map (\<lambda>e. TrimPrefix (de_FullPath e) ''/'') (filter (\<lambda>e. \<not> bit (de_Mode e) 14) (dl_Entries l)))
    \<and> (\<forall>e \<in> set (dl_Entries l). 2 ^ 31 \<le> de_Mode e \<and> de_Mode e < 2 ^ 31 + 2 ^ 14
         \<and> HasPrefix (TrimPrefix (de_FullPath e) ''/'') prefix \<longrightarrow> TrimPrefix (de_FullPath e) ''/'' \<in> set fs)"
proof -
  have "\<not> bit m 14" if "2 ^ 31 \<le> m" "m < 2 ^ 31 + 2 ^ 14" for m :: int
  proof -
    have "m div 2 ^ 14 = 2 ^ 17" using that by simp
    then show ?thesis by (simp add: bit_iff_odd)
  qed
  then show ?thesis using assms by (auto simp: simple_List_def entry_loop_filter)
qed

theorem seaweed_list_result_witness:
  "\<exists>s j fs. simple_List (\<lambda>rq n. (Inr \<lparr>rsp_status = 200, rsp_body = reader_of []\<rparr>, n)) (\<lambda>rd. Inr j) s [] ()
     = (Inr fs, ()) \<and> ''dir'' \<in> set fs"
proof -
  let ?j = "JObj [(''Entries'', JArr [JObj [(''FullPath'', JStr ''/dir''), (''Mode'', JNum 2147484141)]])]"
  let ?e = "\<lparr>de_FullPath = ''/dir'', de_Mtime = zero_time, de_Crtime = zero_time, de_Mode = 2147484141,
      de_Uid = 0, de_Gid = 0, de_Mime = [], de_Size = 0, de_Name = []\<rparr>"
  let ?s = "\<lparr>masterURL = ''http://m:9333'', filerURL = ''http://m:8888''\<rparr>"
  obtain rq where rq: "NewRequest ''GET'' (list_url ?s []) NoBody = Inr rq"
  proof -
    have "case NewRequest ''GET'' (list_url ?s []) NoBody of Inr rq \<Rightarrow> True | Inl e \<Rightarrow> False" by code_simp
    then show ?thesis using that by (auto split: sum.splits)
  qed
  have l: "unmarshal_Listing ?j = Some \<lparr>dl_Path = [], dl_Entries = [?e], dl_Limit = 0, dl_LastFileName = [],
      dl_ShouldDisplayLoadMore = False\<rparr>"
    by (simp add: values_of_def ToLower_keys)
  have "TrimPrefix ''/dir'' ''/'' = ''dir''" by code_simp
  with seaweed_list_result [OF rq, where client = "\<lambda>rq n. (Inr \<lparr>rsp_status = 200, rsp_body = reader_of []\<rparr>, n)"
      and n = "()" and json_of = "\<lambda>rd. Inr ?j", OF refl refl l]
  show ?thesis by fastforce
qed

end
