(* ===== verification/Filer.thy ===== *)
theory Filer
  imports SeaweedSimple
begin

text \<open>
  The contract of the SeaweedFS filer, which is not code of this repository: the locale \<open>filer\<close>
  states the documented behaviour of its HTTP interface for the three requests the program makes,
  on an abstraction of its state to a map from paths to contents. Under it the storage of
  SeaweedSimple meets the contract \<open>blob_store\<close> of the service. The interpretation at the end
  shows that the contract can hold.
\<close>

section \<open>Requests for a path\<close>

text \<open>Paths that stand for themselves in a URL: unreserved characters only.\<close>

definition url_plain :: "string \<Rightarrow> bool" where
  "url_plain p \<longleftrightarrow> p \<noteq> [] \<and> list_all (\<lambda>c. is_alnum c \<or> c = CHR ''-'' \<or> c = CHR ''_'') p"

text \<open>A base URL is a scheme and an authority that parse, and nothing after them.\<close>

definition base_url :: "string \<Rightarrow> url \<Rightarrow> bool" where
  "base_url base u \<longleftrightarrow>
     base = u_scheme u @ ''://'' @ drop (length (u_scheme u) + 3) base
   \<and> list_all is_alnum (u_scheme u)
   \<and> list_all (\<lambda>c. c \<notin> set ''#?/'' \<and> \<not> ctl_byte c) (drop (length (u_scheme u) + 3) base)
   \<and> parseAuthority (drop (length (u_scheme u) + 3) base) = Inr (u_user u, u_host u)
   \<and> u_path u = ''/'' \<and> u_query u = []"

text \<open>The request \<open>m\<close> for the path \<open>p\<close> under a base URL.\<close>

definition request_for :: "url \<Rightarrow> string \<Rightarrow> string \<Rightarrow> http_request \<Rightarrow> bool" where
  "request_for u m p rq \<longleftrightarrow> rq_method rq = m \<and>
     rq_url rq = u\<lparr>u_host := TrimSuffix (u_host u) '':'', u_path := CHR ''/'' # p\<rparr>"

lemma url_plain_set:
  "url_plain p \<Longrightarrow> c \<in> set p \<Longrightarrow> c \<noteq> CHR ''#'' \<and> c \<noteq> CHR ''?'' \<and> c \<noteq> CHR ''%'' \<and> c \<noteq> CHR ''/'' \<and> \<not> ctl_byte c"
  by (auto simp: url_plain_def list_all_iff is_alnum_def ctl_byte_def Let_def)

lemma alnum_colon: "list_all is_alnum s \<Longrightarrow> CHR '':'' \<notin> set s \<and> CHR ''#'' \<notin> set s \<and> CHR ''?'' \<notin> set s"
  by (auto simp: list_all_iff is_alnum_def Let_def)

lemma alnum_ctl: "list_all is_alnum s \<Longrightarrow> c \<in> set s \<Longrightarrow> \<not> ctl_byte c"
  by (auto simp: list_all_iff is_alnum_def ctl_byte_def Let_def)

definition path_bytes :: "string \<Rightarrow> bool" where
  "path_bytes p \<longleftrightarrow> list_all (\<lambda>c. c \<noteq> CHR ''#'' \<and> c \<noteq> CHR ''?'' \<and> c \<noteq> CHR ''%'' \<and> \<not> ctl_byte c) p"

lemma ParseURL_cut:
  assumes "base_url base u" "path_bytes p" "path_bytes q"
    and "qs = [] \<and> q = [] \<or> qs = CHR ''?'' # q"
  shows "ParseURL (base @ CHR ''/'' # p @ qs) = Inr (u\<lparr>u_path := CHR ''/'' # p, u_query := q\<rparr>)"
proof -
  define sch where "sch = u_scheme u"
  define auth where "auth = drop (length sch + 3) base"
  have b: "base = sch @ ''://'' @ auth" and s: "list_all is_alnum sch"
    and a: "list_all (\<lambda>c. c \<notin> set ''#?/'' \<and> \<not> ctl_byte c) auth"
    and pa: "parseAuthority auth = Inr (u_user u, u_host u)"
    using assms(1) unfolding base_url_def sch_def auth_def by blast+
  let ?raw = "base @ CHR ''/'' # p @ qs"
  have raw: "?raw = sch @ CHR '':'' # (''//'' @ auth @ CHR ''/'' # p @ qs)" using b by simp
  have "CHR ''#'' \<notin> set auth" "CHR ''#'' \<notin> set p" "CHR ''#'' \<notin> set q"
    using a assms(2,3) by (auto simp: list_all_iff path_bytes_def)
  then have noh: "CHR ''#'' \<notin> set ?raw" using alnum_colon [OF s] assms(4) unfolding raw by fastforce
  have "\<not> list_ex ctl_byte sch" using alnum_ctl [OF s] by (auto simp: list_ex_iff)
  moreover have "\<not> list_ex ctl_byte auth" using a by (auto simp: list_all_iff list_ex_iff)
  moreover have "\<not> list_ex ctl_byte p" "\<not> list_ex ctl_byte q"
    using assms(2,3) by (auto simp: list_all_iff list_ex_iff path_bytes_def)
  moreover have "\<not> ctl_byte CHR '':''" "\<not> ctl_byte CHR ''/''" "\<not> ctl_byte CHR ''?''"
    by (simp_all add: ctl_byte_def)
  ultimately have noctl: "\<not> list_ex ctl_byte ?raw" using assms(4) unfolding raw by auto
  have c1: "Cut CHR ''#'' ?raw = (?raw, [])" by (rule Cut_absent [OF noh])
  have c2: "Cut CHR '':'' ?raw = (sch, ''//'' @ auth @ CHR ''/'' # p @ qs)"
    unfolding raw using Cut_append alnum_colon [OF s] by blast
  have noq: "CHR ''?'' \<notin> set (''//'' @ auth @ CHR ''/'' # p)"
    using a assms(2) by (auto simp: list_all_iff path_bytes_def)
  have c3: "Cut CHR ''?'' (''//'' @ auth @ CHR ''/'' # p @ qs) = (''//'' @ auth @ CHR ''/'' # p, q)"
    using assms(4) Cut_absent [OF noq] Cut_append [OF noq, of q] by auto
  have "CHR ''/'' \<notin> set auth" using a by (auto simp: list_all_iff)
  then have t: "takeWhile (\<lambda>c. c \<noteq> CHR ''/'') (auth @ CHR ''/'' # p) = auth"
    "dropWhile (\<lambda>c. c \<noteq> CHR ''/'') (auth @ CHR ''/'' # p) = CHR ''/'' # p"
    by (auto simp: takeWhile_append dropWhile_append)
  have up: "unescape False (CHR ''/'' # p) = Inr (CHR ''/'' # p)"
    using assms(2) by (intro unescape_plain) (auto simp: list_all_iff path_bytes_def)
  show ?thesis unfolding ParseURL_def c1 prod.case Let_def
    using noctl c2 c3 t up pa
    by (simp add: HasPrefix_def sch_def)
qed

lemma ParseURL_base:
  assumes "base_url base u" "path_bytes p"
  shows "ParseURL (base @ CHR ''/'' # p) = Inr (u\<lparr>u_path := CHR ''/'' # p\<rparr>)"
proof -
  have "u\<lparr>u_path := CHR ''/'' # p, u_query := []\<rparr> = u\<lparr>u_path := CHR ''/'' # p\<rparr>"
    using assms(1) by (simp add: base_url_def)
  then show ?thesis using ParseURL_cut [OF assms, of "[]" "[]"] by (simp add: path_bytes_def)
qed

lemma NewRequest_base:
  assumes "base_url base u" "url_plain p"
  shows "NewRequest m (base @ ''/'' @ p) b =
    Inr \<lparr>rq_method = m, rq_url = u\<lparr>u_host := TrimSuffix (u_host u) '':'', u_path := CHR ''/'' # p\<rparr>,
         rq_headers = [], rq_body = b\<rparr>"
proof -
  have "path_bytes p" using url_plain_set [OF assms(2)] by (auto simp: list_all_iff path_bytes_def)
  from ParseURL_base [OF assms(1) this] show ?thesis by (simp add: NewRequest_def)
qed

section \<open>The contract\<close>

locale filer =
  fixes client :: "'n client"
    and u :: url
    and tree :: "'n \<Rightarrow> string \<Rightarrow> bytes option"
    and up :: "'n \<Rightarrow> bool"
  assumes post: "up n \<Longrightarrow> url_plain p \<Longrightarrow> request_for u ''POST'' p rq \<Longrightarrow> rq_body rq = FormFile fld fnm c \<Longrightarrow>
      \<exists>resp n'. client rq n = (Inr resp, n') \<and> rsp_status resp = 201 \<and> up n' \<and> tree n' = (tree n)(p \<mapsto> c)"
    and get_hit: "up n \<Longrightarrow> url_plain p \<Longrightarrow> request_for u ''GET'' p rq \<Longrightarrow> tree n p = Some c \<Longrightarrow>
      client rq n = (Inr \<lparr>rsp_status = 200, rsp_body = reader_of c\<rparr>, n)"
    and get_miss: "up n \<Longrightarrow> url_plain p \<Longrightarrow> request_for u ''GET'' p rq \<Longrightarrow> tree n p = None \<Longrightarrow>
      \<exists>resp. client rq n = (Inr resp, n) \<and> rsp_status resp = 404"
    and delete_hit: "up n \<Longrightarrow> url_plain p \<Longrightarrow> request_for u ''DELETE'' p rq \<Longrightarrow> tree n p = Some c \<Longrightarrow>
      \<exists>resp n'. client rq n = (Inr resp, n') \<and> rsp_status resp = 204 \<and> up n' \<and> tree n' = (tree n)(p := None)"
    and delete_miss: "up n \<Longrightarrow> url_plain p \<Longrightarrow> request_for u ''DELETE'' p rq \<Longrightarrow> tree n p = None \<Longrightarrow>
      \<exists>resp. client rq n = (Inr resp, n) \<and> rsp_status resp = 404"
begin

lemma simple_Put_stores:
  assumes "base_url (filerURL s) u" "up n" "url_plain p" "rd_err rd = None"
  shows "\<exists>n'. simple_Put client s p rd sz n =
      (\<lparr>pr_n = int (length (rd_data rd)), pr_err = None, pr_consumed = rd_data rd\<rparr>, n')
    \<and> up n' \<and> tree n' = (tree n)(p \<mapsto> rd_data rd)"
proof -
  let ?rq = "set_content_type ''multipart/form-data'' \<lparr>rq_method = ''POST'',
      rq_url = u\<lparr>u_host := TrimSuffix (u_host u) '':'', u_path := CHR ''/'' # p\<rparr>, rq_headers = [],
      rq_body = FormFile ''file'' p (rd_data rd)\<rparr>"
  have "request_for u ''POST'' p ?rq" "rq_body ?rq = FormFile ''file'' p (rd_data rd)"
    by (simp_all add: request_for_def set_content_type_def)
  from post [OF assms(2,3) this] show ?thesis
    using NewRequest_base [OF assms(1,3)] assms(4) by (auto simp: simple_Put_def)
qed

lemma simple_Get_reads:
  assumes "base_url (filerURL s) u" "up n" "url_plain p"
  shows "simple_Get client s p n =
    (case tree n p of Some c \<Rightarrow> Inr (reader_of c) | None \<Rightarrow> Inl (ErrorString (''file not found: '' @ p)), n)"
proof -
  let ?rq = "\<lparr>rq_method = ''GET'', rq_url = u\<lparr>u_host := TrimSuffix (u_host u) '':'', u_path := CHR ''/'' # p\<rparr>,
      rq_headers = [], rq_body = NoBody\<rparr>"
  have rq: "request_for u ''GET'' p ?rq" by (simp add: request_for_def)
  show ?thesis
    using NewRequest_base [OF assms(1,3)] get_hit [OF assms(2,3) rq] get_miss [OF assms(2,3) rq]
    by (cases "tree n p") (auto simp: simple_Get_def)
qed

lemma simple_Delete_removes:
  assumes "base_url (filerURL s) u" "up n" "url_plain p"
  shows "\<exists>n'. simple_Delete client s p n = (None, n') \<and> up n' \<and> tree n' = (tree n)(p := None)"
proof -
  let ?rq = "\<lparr>rq_method = ''DELETE'', rq_url = u\<lparr>u_host := TrimSuffix (u_host u) '':'', u_path := CHR ''/'' # p\<rparr>,
      rq_headers = [], rq_body = NoBody\<rparr>"
  have rq: "request_for u ''DELETE'' p ?rq" by (simp add: request_for_def)
  show ?thesis
    using NewRequest_base [OF assms(1,3)] delete_hit [OF assms(2,3) rq] delete_miss [OF assms(2,3) rq] assms(2)
    by (cases "tree n p") (auto simp: simple_Delete_def fun_upd_idem)
qed

lemma simple_blob_store:
  assumes "base_url (filerURL s) u"
  shows "blob_store (seaweed_simple_ops client json_of s) tree up url_plain"
proof
  show "\<exists>n'. st_Put (seaweed_simple_ops client json_of s) p r sz n =
      (\<lparr>pr_n = int (length (rd_data r)), pr_err = None, pr_consumed = rd_data r\<rparr>, n')
      \<and> up n' \<and> tree n' = (tree n)(p \<mapsto> rd_data r)"
    if "up n" "url_plain p" "rd_err r = None" for n p r sz
    using simple_Put_stores [OF assms that] by (simp add: seaweed_simple_ops_def)
  show "\<exists>e. st_Get (seaweed_simple_ops client json_of s) p n = (Inl e, n)"
    if "up n" "url_plain p" "tree n p = None" for n p
    using simple_Get_reads [OF assms that(1,2)] that(3) by (simp add: seaweed_simple_ops_def)
  show "st_Get (seaweed_simple_ops client json_of s) p n = (Inr (reader_of c), n)"
    if "up n" "url_plain p" "tree n p = Some c" for n p c
    using simple_Get_reads [OF assms that(1,2)] that(3) by (simp add: seaweed_simple_ops_def)
  show "\<exists>n'. st_Delete (seaweed_simple_ops client json_of s) p n = (None, n') \<and> up n' \<and> tree n' = (tree n)(p := None)"
    if "up n" "url_plain p" "tree n p = Some c" for n p c
    using simple_Delete_removes [OF assms that(1,2)] by (simp add: seaweed_simple_ops_def)
qed

end

section \<open>The contract can hold\<close>

text \<open>
  A filer in memory that answers the three requests as documented, and a master that answers the
  request for its status.
\<close>

type_synonym memory = "string \<Rightarrow> bytes option"

definition answer :: "int \<Rightarrow> bytes \<Rightarrow> http_response" where
  "answer code bs = \<lparr>rsp_status = code, rsp_body = reader_of bs\<rparr>"

definition mem_client :: "memory client" where
  "mem_client rq m =
     (let p = drop 1 (u_path (rq_url rq)) in
      if u_path (rq_url rq) = ''/cluster/status'' then (Inr (answer 200 []), m)
      else if rq_method rq = ''GET'' then
        (case m p of Some c \<Rightarrow> (Inr (answer 200 c), m) | None \<Rightarrow> (Inr (answer 404 []), m))
      else if rq_method rq = ''DELETE'' then
        (case m p of Some c \<Rightarrow> (Inr (answer 204 []), m(p := None)) | None \<Rightarrow> (Inr (answer 404 []), m))
      else (case rq_body rq of
              FormFile fld fnm c \<Rightarrow> (Inr (answer 201 []), m(p \<mapsto> c))
            | RawBody c \<Rightarrow> (Inr (answer 201 []), m(p \<mapsto> c))
            | NoBody \<Rightarrow> (Inr (answer 201 []), m)))"

lemma plain_not_status: "url_plain p \<Longrightarrow> p \<noteq> ''cluster/status''"
  using url_plain_set [of p "CHR ''/''"] by auto

interpretation mem: filer mem_client u "\<lambda>m. m" "\<lambda>m. True" for u
  by unfold_locales (auto simp: mem_client_def request_for_def answer_def dest: plain_not_status)

end
