(* ===== verification/SeaweedService.thy ===== *)
theory SeaweedService
  imports Filer Demo
begin

text \<open>
  The service as cmd/main.go assembles it for the storage type seaweedfs: \<open>StorageService\<close> over
  SeaweedSimple and \<open>FileRepository\<close>. Under the contract of the filer the locale of the service
  holds of it, so every lemma of that locale does.
\<close>

definition seaweed_service ::
  "'n client \<Rightarrow> (reader \<Rightarrow> json result) \<Rightarrow> SeaweedSimple \<Rightarrow> ('n, repo_state) StorageService" where
  "seaweed_service client json_of s = NewStorageService (seaweed_simple_ops client json_of s) file_repository"

lemma canonical_uuid_url: "canonical_uuid i \<Longrightarrow> url_plain i"
proof -
  assume i: "canonical_uuid i"
  have "\<forall>c \<in> insert (CHR ''-'') (set hex_digits). is_alnum c \<or> c = CHR ''-''"
    by (simp add: hex_digits_def is_alnum_def)
  then show ?thesis using canonical_uuid_text [OF i] by (auto simp: url_plain_def list_all_iff)
qed

lemma seaweed_storage_service:
  assumes "filer client u tree up" and "base_url (filerURL s) u"
  shows "storage_service (seaweed_simple_ops client json_of s) tree up url_plain
    file_repository storages files cached_file healthy canonical_uuid"
proof (rule storage_service.intro)
  show "blob_store (seaweed_simple_ops client json_of s) tree up url_plain"
    using filer.simple_blob_store [OF assms] .
  show "repository file_repository storages files cached_file healthy canonical_uuid"
    by (rule fr.repository_axioms)
  show "storage_service_axioms url_plain canonical_uuid"
    by unfold_locales (use canonical_uuid_url canonical_uuid_path in blast)
qed

section \<open>Properties\<close>

text \<open>
  C20: Over a filer that keeps its contract the service stores and finds: what is uploaded is what is
  downloaded, whether or not the same content was stored before, and the deduplication invariant is
  kept.
\<close>

theorem seaweed_roundtrip:
  assumes "filer client u tree up" and "base_url (filerURL s) u"
    and "up n" and "healthy r" and "dedup_ok url_plain (storages r) (files r) (tree n)"
    and "upload_ok canonical_uuid (tree n) (files r) path fileID rd header"
    and "\<forall>p c. tree n p = Some c \<and> sha256_hex c = sha256_hex (rd_data rd) \<longrightarrow> c = rd_data rd"
    and "cached_file r fileID = None"
  shows "\<exists>f n' r' g w''.
      Upload (seaweed_service client json_of s) path fileID now rd header (n, r) = (Inr f, n', r')
    \<and> up n' \<and> healthy r' \<and> dedup_ok url_plain (storages r') (files r') (tree n')
    \<and> Download (seaweed_service client json_of s) fileID (n', r') = (Inr (reader_of (rd_data rd), g), w'')
    \<and> Name g = HName header \<and> GetSize g = int (length (rd_data rd))"
proof -
  note sv = seaweed_storage_service [OF assms(1,2), of json_of]
  from storage_service.Upload_Download [OF sv assms(3-8), where now = now] show ?thesis
    unfolding seaweed_service_def by (fastforce simp: joined_def GetSize_def)
qed

definition demo_seaweed :: SeaweedSimple where
  "demo_seaweed = \<lparr>masterURL = ''http://seaweedfs-master:9333'', filerURL = ''http://seaweedfs-filer:8888''\<rparr>"

definition demo_json :: "reader \<Rightarrow> json result" where
  "demo_json rd = Inl ErrNoRows"

definition demo_filer_url :: url where
  "demo_filer_url = \<lparr>u_scheme = ''http'', u_user = None, u_host = ''seaweedfs-filer:8888'', u_path = ''/'', u_query = []\<rparr>"

lemma demo_seaweed_base: "base_url (filerURL demo_seaweed) demo_filer_url"
  by code_simp

theorem seaweed_roundtrip_witness:
  "\<exists>f w g w'. Upload (seaweed_service mem_client demo_json demo_seaweed) demo_path demo_id 0
       (reader_of demo_bytes) demo_header (\<lambda>p. None, empty_repo) = (Inr f, w)
     \<and> Download (seaweed_service mem_client demo_json demo_seaweed) demo_id w = (Inr (reader_of demo_bytes, g), w')"
proof -
  have "upload_ok canonical_uuid (\<lambda>p. None) (files empty_repo) demo_path demo_id (reader_of demo_bytes) demo_header"
    by (simp add: upload_ok_def demo_uuids demo_header_ok demo_files)
  moreover have "dedup_ok url_plain (storages empty_repo) (files empty_repo) (\<lambda>p. None)"
    by (simp add: dedup_ok_def demo_files)
  moreover have "cached_file empty_repo demo_id = None" by (simp add: cached_file_def empty_repo_def)
  ultimately show ?thesis
    using seaweed_roundtrip [OF mem.filer_axioms demo_seaweed_base TrueI empty_repo_healthy,
        where n = "\<lambda>p. None" and path = demo_path and fileID = demo_id and rd = "reader_of demo_bytes"
          and header = demo_header and json_of = demo_json and now = 0] by fastforce
qed

text \<open>
  A download that the cache answers asks the filer for the empty path. Whatever the filer answers
  for its root directory is then delivered as the content of the file.
\<close>

theorem seaweed_cached_download_serves_root:
  assumes "healthy r" and "canonical_uuid i" and "cached_file r i = None"
    and "files r i = Some f" and "storages r (ref_hash f) = Some x"
    and "json_time_ok (ref_created f) \<and> json_time_ok (StCreatedAt x) \<and> json_time_ok (UpdatedAt x)"
    and "0 \<le> dt" and "dt < one_hour"
    and "base_url (filerURL s) u"
    and "client \<lparr>rq_method = ''GET'', rq_url = u\<lparr>u_host := TrimSuffix (u_host u) '':''\<rparr>, rq_headers = [],
           rq_body = NoBody\<rparr> n = (Inr \<lparr>rsp_status = 200, rsp_body = listing\<rparr>, n')"
  shows "\<exists>r' g. GetByID i r = (Inr (joined i f x), r')
    \<and> Download (seaweed_service client json_of s) i (n, r'\<lparr>clock := clock r + dt\<rparr>) =
        (Inr (listing, g), n', r'\<lparr>clock := clock r + dt\<rparr>)
    \<and> Name g = ToValidUTF8 (ref_name f)"
proof -
  from cached_read_gone [OF assms(1-8)] obtain r' where r': "GetByID i r = (Inr (joined i f x), r')"
      "GetByID i (r'\<lparr>clock := clock r + dt\<rparr>) = (Inr (strip_File (joined i f x)), r'\<lparr>clock := clock r + dt\<rparr>)"
    by blast
  have "u\<lparr>u_path := ''/''\<rparr> = u" using assms(9) by (simp add: base_url_def)
  then have "NewRequest ''GET'' (filerURL s @ ''/'') NoBody = Inr \<lparr>rq_method = ''GET'',
      rq_url = u\<lparr>u_host := TrimSuffix (u_host u) '':''\<rparr>, rq_headers = [], rq_body = NoBody\<rparr>"
    using ParseURL_base [OF assms(9), of "[]"] by (simp add: NewRequest_def path_bytes_def)
  then have "simple_Get client s [] n = (Inr listing, n')" using assms(10) by (simp add: simple_Get_def)
  then have "Download (seaweed_service client json_of s) i (n, r'\<lparr>clock := clock r + dt\<rparr>) =
      (Inr (listing, strip_File (joined i f x)), n', r'\<lparr>clock := clock r + dt\<rparr>)"
    using r'(2) by (simp add: Download_def seaweed_service_def NewStorageService_def file_repository_def
        seaweed_simple_ops_def)
  with r'(1) show ?thesis
    by (intro exI [of _ r'] exI [of _ "strip_File (joined i f x)"]) (simp add: strip_File_def joined_def)
qed

theorem seaweed_cached_download_serves_root_witness:
  "\<exists>r g w. Download (seaweed_service mem_client demo_json demo_seaweed) example_id ([[] \<mapsto> [0x7B]], r) =
     (Inr (reader_of [0x7B], g), w)"
proof -
  let ?f = "\<lparr>ref_name = ''a.txt'', ref_hash = ''h'', ref_created = 0\<rparr>"
  have st: "storages example_repo (ref_hash ?f) = Some example_storage" by (simp add: example_repo_maps)
  have t: "json_time_ok (ref_created ?f) \<and> json_time_ok (StCreatedAt example_storage) \<and>
      json_time_ok (UpdatedAt example_storage)" by code_simp
  have dt: "0 \<le> (5::time)" "5 < one_hour" by (simp_all add: one_hour_def)
  have c: "mem_client \<lparr>rq_method = ''GET'', rq_url = demo_filer_url\<lparr>u_host := TrimSuffix (u_host demo_filer_url) '':''\<rparr>,
      rq_headers = [], rq_body = NoBody\<rparr> [[] \<mapsto> [0x7B]] =
      (Inr \<lparr>rsp_status = 200, rsp_body = reader_of [0x7B]\<rparr>, [[] \<mapsto> [0x7B]])"
    by (simp add: mem_client_def demo_filer_url_def answer_def)
  from seaweed_cached_download_serves_root [OF example_repo_healthy example_id_ok example_repo_maps(3,1)
      st t dt, where s = demo_seaweed and u = demo_filer_url and client = mem_client and json_of = demo_json,
      OF demo_seaweed_base c] show ?thesis by blast
qed

end
