(* ===== verification/Server.thy ===== *)
theory Server
  imports Handler AllRequests Config SeaweedService
begin

text \<open>
  cmd/main.go: the start of the program, its routes, and the answer to a request. The configuration
  library viper, the router of gin and the connection libraries are parameters or are represented by
  their documented behaviour: a pattern segment \<open>:id\<close> matches one segment that is not empty, and a
  panic of a handler is answered with 500 by the recovery middleware of \<open>gin.Default\<close>. What gin
  answers to a request without a route is left open. Listening and the shutdown on a signal are in
  theory Lifecycle.
\<close>

section \<open>Start\<close>

record viper =
  v_ReadInConfig :: "string \<Rightarrow> goerr option"  \<comment> \<open>for the file that was set\<close>
  v_GetStringMap :: "string \<Rightarrow> settings"
  v_GetString :: "string \<Rightarrow> string"
  v_GetInt :: "string \<Rightarrow> int"

datatype backend = LocalBackend LocalStorage | SeaweedBackend SeaweedSimple

record 'p server =
  srv_pool :: 'p
  srv_cache :: redis_options
  srv_storage :: backend
  srv_Addr :: string

text \<open>How the start ends: \<open>logger.Fatal\<close> exits with a message, a panic crashes, or the server runs.\<close>

datatype 'p start = Fatal string goerr | Crash string | Running "'p server"

definition config_file :: "bool \<Rightarrow> string" where
  "config_file local_exists = (if local_exists then ''configs/config.local.yaml'' else ''configs/config.yaml'')"

definition open_storage ::
  "viper \<Rightarrow> 'n client \<Rightarrow> localfs \<times> 'n \<Rightarrow> backend result \<times> localfs \<times> 'n" where
  "open_storage v client w =
     (let (fs, n) = w; storageType = v_GetString v ''storage.type'' in
      if storageType = ''local'' then
        (case NewLocalStorage (v_GetString v ''storage.local_path'') fs of
           (st, fs) \<Rightarrow> (map_sum id LocalBackend st, fs, n))
      else if storageType = ''seaweedfs'' then
        (case NewSeaweedFSSimpleStorage client (v_GetString v ''storage.seaweedfs.master_url'') n of
           (st, n) \<Rightarrow> (map_sum id SeaweedBackend st, fs, n))
      else (Inl (ErrorString (''unsupported storage type: '' @ storageType)), fs, n))"

definition main_start ::
  "bool \<Rightarrow> viper \<Rightarrow> (string \<Rightarrow> 'c pool_config result) \<Rightarrow> ('c pool_config \<Rightarrow> 'p result) \<Rightarrow> 'n client
     \<Rightarrow> localfs \<times> 'n \<Rightarrow> 'p start \<times> localfs \<times> 'n" where
  "main_start local_exists v ParseConfig NewWithConfig client w =
     (case v_ReadInConfig v (config_file local_exists) of
        Some e \<Rightarrow> (Fatal ''config load failed'' e, w)
      | None \<Rightarrow>
          (case NewDBPool ParseConfig NewWithConfig (v_GetStringMap v ''database'') of
             Panic m \<Rightarrow> (Crash m, w)
           | Err e \<Rightarrow> (Fatal ''db connect failed'' e, w)
           | Ok pool \<Rightarrow>
               (case NewRedis (v_GetStringMap v ''redis'') of
                  Panic m \<Rightarrow> (Crash m, w)
                | Err e \<Rightarrow> (Crash (Error e), w)
                | Ok redis \<Rightarrow>
                    (case open_storage v client w of
                       (Inl e, w) \<Rightarrow> (Fatal ''storage init failed'' e, w)
                     | (Inr st, w) \<Rightarrow>
                         (Running \<lparr>srv_pool = pool, srv_cache = redis, srv_storage = st,
                            srv_Addr = '':'' @ Itoa (v_GetInt v ''server.port'')\<rparr>, w)))))"

section \<open>Routes\<close>

datatype endpoint = Health | PostFile | ViewFile | DownloadFile | DeleteFile | ListAll

definition routes :: "(string \<times> string \<times> endpoint) list" where
  "routes =
     [(''GET'', ''/health'', Health),
      (''POST'', ''/api/v1/files'', PostFile),
      (''GET'', ''/api/v1/files/:id'', ViewFile),
      (''GET'', ''/api/v1/files/:id/download'', DownloadFile),
      (''DELETE'', ''/api/v1/files/:id'', DeleteFile),
      (''GET'', ''/api/v1/files'', ListAll)]"

text \<open>Matching a path against a pattern: the parameters, here at most the value of \<open>:id\<close>.\<close>

fun match_segments :: "string list \<Rightarrow> string list \<Rightarrow> string option \<Rightarrow> string option option" where
  "match_segments [] [] i = Some i"
| "match_segments (p # ps) (s # ss) i =
     (if p = '':id'' then (if s \<noteq> [] then match_segments ps ss (Some s) else None)
      else if p = s then match_segments ps ss i
      else None)"
| "match_segments _ _ i = None"

definition route :: "string \<Rightarrow> string \<Rightarrow> (endpoint \<times> string) option" where
  "route m path =
     (case List.find (\<lambda>(m', pat, e). m' = m \<and> match_segments (Split CHR ''/'' pat) (Split CHR ''/'' path) None \<noteq> None)
             routes of
        None \<Rightarrow> None
      | Some (m', pat, e) \<Rightarrow>
          (case match_segments (Split CHR ''/'' pat) (Split CHR ''/'' path) None of
             Some (Some i) \<Rightarrow> Some (e, i)
           | _ \<Rightarrow> Some (e, [])))"

section \<open>Requests\<close>

text \<open>
  A request with what the handlers draw from it and from outside: the form file, the detection of its
  type, two UUIDs and the time.
\<close>

record api_request =
  ar_method :: string
  ar_path :: string
  ar_form :: "form_file result"
  ar_probe :: probe
  ar_uuid1 :: string
  ar_uuid2 :: string
  ar_now :: time

definition recovered :: response where
  "recovered = blank_response\<lparr>rs_status := 500, rs_sent := True\<rparr>"

definition answer_of :: "gin_call list res \<Rightarrow> response" where
  "answer_of r = (case r of Ok calls \<Rightarrow> respond calls | Err e \<Rightarrow> recovered | Panic m \<Rightarrow> recovered)"

definition health_body :: payload where
  "health_body = Fields [(''status'', ''healthy''), (''service'', ''pot-play-storage''), (''version'', ''1.0.0'')]"

definition serve ::
  "('s, 'r) StorageService \<Rightarrow> api_request \<Rightarrow> 's \<times> 'r \<Rightarrow> response option \<times> 's \<times> 'r" where
  "serve sv rq w =
     (case route (ar_method rq) (ar_path rq) of
        None \<Rightarrow> (None, w)
      | Some (Health, i) \<Rightarrow> (Some (respond [JSON 200 health_body]), w)
      | Some (PostFile, i) \<Rightarrow>
          (case handler_Upload sv (ar_probe rq) (ar_uuid1 rq) (ar_uuid2 rq) (ar_now rq) (ar_form rq) w of
             (r, w) \<Rightarrow> (Some (answer_of r), w))
      | Some (ViewFile, i) \<Rightarrow> (case handler_View sv i w of (calls, w) \<Rightarrow> (Some (respond calls), w))
      | Some (DownloadFile, i) \<Rightarrow> (case handler_Download sv i w of (calls, w) \<Rightarrow> (Some (respond calls), w))
      | Some (DeleteFile, i) \<Rightarrow> (case handler_Delete sv i w of (r, w) \<Rightarrow> (Some (answer_of r), w))
      | Some (ListAll, i) \<Rightarrow> (case handler_List sv w of (calls, w) \<Rightarrow> (Some (respond calls), w)))"

section \<open>Facts about the routes\<close>

lemma Split_prefix: "sep \<notin> set p \<Longrightarrow> Split sep (p @ sep # s) = p # Split sep s"
proof (induction p)
  case (Cons c cs)
  then show ?case by (auto split: list.split)
qed simp

lemma api_segments:
  "Split CHR ''/'' (''/api/v1/files/'' @ s) = [] # ''api'' # ''v1'' # ''files'' # Split CHR ''/'' s"
proof -
  have "''/api/v1/files/'' @ s = [] @ CHR ''/'' # (''api'' @ CHR ''/'' # (''v1'' @ CHR ''/'' # (''files'' @ CHR ''/'' # s)))"
    by simp
  then show ?thesis by (simp only: Split_prefix list.set empty_iff not_False_eq_True) (simp add: Split_prefix)
qed

lemma pattern_segments:
  "Split CHR ''/'' ''/health'' = [[], ''health'']"
  "Split CHR ''/'' ''/api/v1/files'' = [[], ''api'', ''v1'', ''files'']"
  "Split CHR ''/'' ''/api/v1/files/:id'' = [[], ''api'', ''v1'', ''files'', '':id'']"
  "Split CHR ''/'' ''/api/v1/files/:id/download'' = [[], ''api'', ''v1'', ''files'', '':id'', ''download'']"
  by code_simp+

lemma route_files:
  "route ''POST'' ''/api/v1/files'' = Some (PostFile, [])"
  "route ''GET'' ''/api/v1/files'' = Some (ListAll, [])"
  "route ''GET'' ''/health'' = Some (Health, [])"
  by code_simp+

lemma route_id:
  assumes "i \<noteq> []" "CHR ''/'' \<notin> set i"
  shows "route ''GET'' (''/api/v1/files/'' @ i) = Some (ViewFile, i)"
    "route ''GET'' (''/api/v1/files/'' @ i @ ''/download'') = Some (DownloadFile, i)"
    "route ''DELETE'' (''/api/v1/files/'' @ i) = Some (DeleteFile, i)"
proof -
  have i: "Split CHR ''/'' i = [i]" by (rule Split_no_sep [OF assms(2)])
  have "Split CHR ''/'' (i @ ''/download'') = [i, ''download'']"
    using Split_prefix [OF assms(2), of "''download''"] by (simp add: Split_no_sep)
  then show "route ''GET'' (''/api/v1/files/'' @ i) = Some (ViewFile, i)"
    "route ''GET'' (''/api/v1/files/'' @ i @ ''/download'') = Some (DownloadFile, i)"
    "route ''DELETE'' (''/api/v1/files/'' @ i) = Some (DeleteFile, i)"
    using assms i by (simp_all add: route_def routes_def api_segments pattern_segments del: append.simps Split.simps)
qed

lemma download_status: "rs_status (respond (fst (handler_Download sv i w))) \<in> {200, 400, 404, 500}"
  unfolding handler_Download_def
  by (auto simp: respond_stream simp del: append.simps split: prod.split sum.split)

lemma view_status: "rs_status (respond (fst (handler_View sv i w))) \<in> {200, 400, 404, 500}"
  unfolding handler_View_def
  by (auto simp: respond_stream simp del: append.simps split: prod.split sum.split)

lemma delete_status: "rs_status (answer_of (fst (handler_Delete sv i w))) \<in> {204, 400, 500}"
  unfolding handler_Delete_def
  by (auto simp: answer_of_def recovered_def split: prod.split res.split)

lemma list_status: "rs_status (respond (fst (handler_List sv w))) \<in> {200, 500}"
  unfolding handler_List_def by (auto split: prod.split sum.split)

lemma upload_status:
  "rs_status (answer_of (fst (handler_Upload sv pb path fileID now form w))) \<in> {201, 400, 500}"
  using handler_Upload_answer [of sv pb path fileID now form w] by (auto simp: answer_of_def)

section \<open>Properties\<close>

text \<open>
  A request that has a route is always answered, whatever the storage and the repository do, and
  with one of six status codes.
\<close>

theorem routed_requests_answered:
  assumes "route (ar_method rq) (ar_path rq) = Some (e, i)"
  shows "\<exists>rs w'. serve sv rq w = (Some rs, w') \<and> rs_status rs \<in> {200, 201, 204, 400, 404, 500}"
proof (cases e)
  case PostFile
  then show ?thesis using assms upload_status [of sv "ar_probe rq" "ar_uuid1 rq" "ar_uuid2 rq" "ar_now rq" "ar_form rq" w]
    by (auto simp: serve_def split: prod.split)
next
  case ViewFile
  then show ?thesis using assms view_status [of sv i w] by (auto simp: serve_def split: prod.split)
next
  case DownloadFile
  then show ?thesis using assms download_status [of sv i w] by (auto simp: serve_def split: prod.split)
next
  case DeleteFile
  then show ?thesis using assms delete_status [of sv i w] by (auto simp: serve_def split: prod.split)
next
  case ListAll
  then show ?thesis using assms list_status [of sv w] by (auto simp: serve_def split: prod.split)
qed (use assms in \<open>simp add: serve_def\<close>)

definition demo_request :: "string \<Rightarrow> string \<Rightarrow> api_request" where
  "demo_request m p = \<lparr>ar_method = m, ar_path = p,
     ar_form = Inr \<lparr>ff_Filename = ''a.txt'', ff_Size = 3, ff_open = Inr (reader_of demo_bytes)\<rparr>,
     ar_probe = \<lparr>pb_detect = (\<lambda>rd. Inr ''text/plain; charset=utf-8''), pb_seek = None\<rparr>,
     ar_uuid1 = demo_path, ar_uuid2 = demo_id, ar_now = 0\<rparr>"

lemma demo_request_simps:
  "ar_method (demo_request m p) = m" "ar_path (demo_request m p) = p"
  by (simp_all add: demo_request_def)

theorem routed_requests_answered_witness:
  "\<exists>rs w'. serve (file_service demo_store) (demo_request ''GET'' ''/api/v1/files'') (example_fs, empty_repo) = (Some rs, w')"
proof -
  let ?rq = "demo_request ''GET'' ''/api/v1/files''"
  have "route (ar_method ?rq) (ar_path ?rq) = Some (ListAll, [])"
    unfolding demo_request_simps by (rule route_files(2))
  from routed_requests_answered [OF this] show ?thesis by blast
qed

text \<open>
  C19: End to end over the local storage: a POST with an acceptable file is answered with 201 and the new
  file, and a GET of its download address with 200, the bytes that were posted and the sanitized name.
\<close>

theorem post_then_download:
  assumes "sys_inv ls (s, r)" and "ar_method rq = ''POST''" and "ar_path rq = ''/api/v1/files''"
    and "ar_form rq = Inr fm" and "ff_open fm = Inr rd" and "pb_detect (ar_probe rq) rd = Inr t"
    and "pb_seek (ar_probe rq) = None" and "SanitizeFilename (ff_Filename fm) = Ok nm"
    and "upload_ok canonical_uuid (local_blobs ls s) (files r) (ar_uuid1 rq) (ar_uuid2 rq) rd
           \<lparr>HName = nm, HSize = ff_Size fm, HContentType = t\<rparr>"
    and "no_collision ls s (rd_data rd)" and "cached_file r (ar_uuid2 rq) = None"
    and "ar_method rq' = ''GET''" and "ar_path rq' = ''/api/v1/files/'' @ ar_uuid2 rq @ ''/download''"
  shows "\<exists>rs f w' rs' w''.
      serve (file_service ls) rq (s, r) = (Some rs, w') \<and> rs_status rs = 201 \<and> rs_json rs = Some (FileBody f)
    \<and> ID f = ar_uuid2 rq \<and> GetChecksum f = sha256_hex (rd_data rd)
    \<and> serve (file_service ls) rq' w' = (Some rs', w'') \<and> rs_status rs' = 200 \<and> rs_bytes rs' = rd_data rd
    \<and> map_of (rs_headers rs') ''Content-Disposition'' = Some (''attachment; filename='' @ quoted nm)"
proof -
  note inv = sys_invD [OF assms(1)]
  let ?h = "\<lparr>HName = nm, HSize = ff_Size fm, HContentType = t\<rparr>" and ?i = "ar_uuid2 rq" and ?c = "rd_data rd"
  have v: "ValidateFile (Some ?h) = None" and id: "canonical_uuid ?i" using assms(9) by (auto simp: upload_ok_def)
  then have sz: "ff_Size fm \<noteq> 0" "\<not> ff_Size fm > 100 * 1024 * 1024"
    by (simp_all add: ValidateFile_None_iff ValidateFileSize_None_iff)
  have ne: "nm \<noteq> []" using SanitizeFilename_result [of "ff_Filename fm"] assms(8) by (metis res.inject(1))
  obtain f s' r' x r'' where u: "Upload (file_service ls) (ar_uuid1 rq) ?i (ar_now rq) rd ?h (s, r) = (Inr f, s', r')"
      "Download (file_service ls) ?i (s', r') = (Inr (reader_of ?c, joined ?i (new_ref (ar_now rq) ?c ?h) x), s', r'')"
    using svc.Upload_Download [OF inv assms(9) assms(10) [unfolded no_collision_def] assms(11), where now = "ar_now rq"] unfolding file_service_def by blast
  have f: "ID f = ?i" "GetChecksum f = sha256_hex ?c"
    using Upload_view [OF assms(1,9,10), of "ar_now rq"] u(1) by auto
  have p: "serve (file_service ls) rq (s, r) = (Some (respond [JSON 201 (FileBody f)]), s', r')"
    using u(1) assms(2-8) sz v route_files(1) by (simp add: serve_def handler_Upload_def answer_of_def)
  have i: "?i \<noteq> []" "CHR ''/'' \<notin> set ?i"
    using canonical_uuid_path [OF id] by (auto simp: plain_path_def plain_elem_def)
  let ?g = "joined ?i (new_ref (ar_now rq) ?c ?h) x"
  have d: "handler_Download (file_service ls) ?i (s', r') =
     ([Header ''Content-Type'' (GetContentType ?g),
       Header ''Content-Disposition'' (''attachment; filename='' @ quoted nm),
       Header ''Content-Length'' (Itoa (GetSize ?g)),
       Header ''Cache-Control'' ''no-cache, no-store, must-revalidate'', Header ''Pragma'' ''no-cache'',
       Header ''Expires'' ''0'', Header ''X-Content-Type-Options'' ''nosniff''] @ stream (reader_of ?c), s', r'')"
    using u(2) i(1) ne by (simp add: handler_Download_def safe_name_def joined_def)
  show ?thesis using p f d route_id(2) [OF i] assms(12,13)
    by (simp add: serve_def respond_stream respond_headers del: append.simps)
qed

theorem post_then_download_witness:
  "\<exists>rs w' rs' w''.
      serve (file_service demo_store) (demo_request ''POST'' ''/api/v1/files'') (example_fs, empty_repo) = (Some rs, w')
    \<and> rs_status rs = 201
    \<and> serve (file_service demo_store) (demo_request ''GET'' (''/api/v1/files/'' @ demo_id @ ''/download'')) w' = (Some rs', w'')
    \<and> rs_bytes rs' = demo_bytes"
proof -
  let ?rq = "demo_request ''POST'' ''/api/v1/files''"
  let ?rq' = "demo_request ''GET'' (''/api/v1/files/'' @ demo_id @ ''/download'')"
  have form: "ar_form ?rq = Inr \<lparr>ff_Filename = ''a.txt'', ff_Size = 3, ff_open = Inr (reader_of demo_bytes)\<rparr>"
    and pb: "pb_detect (ar_probe ?rq) rd = Inr ''text/plain; charset=utf-8''" "pb_seek (ar_probe ?rq) = None"
    and uu: "ar_uuid1 ?rq = demo_path" "ar_uuid2 ?rq = demo_id" for rd
    by (simp_all add: demo_request_def)
  have nm: "SanitizeFilename (ff_Filename \<lparr>ff_Filename = ''a.txt'', ff_Size = 3, ff_open = Inr (reader_of demo_bytes)\<rparr>)
      = Ok ''a.txt''" by code_simp
  have up: "upload_ok canonical_uuid (local_blobs demo_store example_fs) (files empty_repo) (ar_uuid1 ?rq) (ar_uuid2 ?rq)
      (reader_of demo_bytes) \<lparr>HName = ''a.txt'', HSize = ff_Size \<lparr>ff_Filename = ''a.txt'', ff_Size = 3,
        ff_open = Inr (reader_of demo_bytes)\<rparr>, HContentType = ''text/plain; charset=utf-8''\<rparr>"
    using demo_upload_ok unfolding uu demo_header_def by simp
  have fresh: "cached_file empty_repo (ar_uuid2 ?rq) = None" by (simp add: cached_file_def empty_repo_def)
  have path: "ar_path ?rq' = ''/api/v1/files/'' @ ar_uuid2 ?rq @ ''/download''"
    unfolding demo_request_simps uu by (rule refl)
  from post_then_download [OF demo_inv demo_request_simps(1,2) form _ pb nm up demo_no_collision fresh
      demo_request_simps(1) path] show ?thesis by fastforce
qed

text \<open>
  C34: When the program starts with the storage type local on an empty database and a data directory
  without files, the disk and the repository are a start state of both transition systems, the one of
  all requests and the one of clean runs: all that is shown of their reachable states holds of the
  running server.
\<close>

theorem start_reaches_system:
  assumes "main_start local_exists v ParseConfig NewWithConfig client (fs, n) = (Running srv, fs', n')"
    and "v_GetString v ''storage.type'' = ''local''"
    and "disk fs = []" and "cwd fs = Inr d" and "IsAbs d"
    and "v_GetString v ''storage.local_path'' \<noteq> []" and "abs_stack d (v_GetString v ''storage.local_path'') \<noteq> []"
    and "\<forall>p. plain_path p \<longrightarrow>
           lookup_node (nodes fs) (rev (abs_stack d (v_GetString v ''storage.local_path'')) @ [p]) = None"
    and "db_events r = []" and "cache_events r = []" and "db r = empty_db"
  shows "\<exists>ls. srv_storage srv = LocalBackend ls \<and> basePath ls = v_GetString v ''storage.local_path''
    \<and> n' = n \<and> clean_reach ls (fs', r) \<and> sys_reach ls (fs', r)"
proof -
  obtain b where o': "open_storage v client (fs, n) = (Inr b, fs', n')" "srv_storage srv = b"
    using assms(1) by (auto simp: main_start_def split: option.splits res.splits sum.splits prod.splits)
  obtain st fs1 where st: "NewLocalStorage (v_GetString v ''storage.local_path'') fs = (st, fs1)" by fastforce
  then obtain ls where ls: "st = Inr ls" "b = LocalBackend ls" "fs' = fs1" "n' = n"
    using o'(1) assms(2) by (cases st) (auto simp: open_storage_def)
  from NewLocalStorage_inv [OF assms(3-8)] st ls have
    i: "basePath ls = v_GetString v ''storage.local_path''" "local_inv ls fs'"
      "\<forall>p. plain_path p \<longrightarrow> local_blobs ls fs' p = None" by auto
  from clean_reach.start [OF i(2,3) assms(9-11)] sys_reach.start [OF i(2,3) assms(9-11)]
  show ?thesis using o'(2) ls i(1) by auto
qed

definition demo_viper :: viper where
  "demo_viper = \<lparr>v_ReadInConfig = (\<lambda>f. None),
     v_GetStringMap = (\<lambda>k. demo_settings(''password'' \<mapsto> GoString ''secret'')),
     v_GetString = (\<lambda>k. if k = ''storage.type'' then ''local'' else ''data''), v_GetInt = (\<lambda>k. 8090)\<rparr>"

definition demo_disk :: localfs where
  "demo_disk = \<lparr>nodes = [([''srv''], DirNode)], cwd = Inr ''/srv'', disk = []\<rparr>"

theorem start_reaches_system_witness:
  "\<exists>srv fs' ls. main_start False demo_viper (\<lambda>s. Inr \<lparr>ConnConfig = s, MaxConns = 4, MaxConnLifetime = 60\<rparr>) Inr
       mem_client (demo_disk, Map.empty) = (Running srv, fs', Map.empty)
     \<and> srv_Addr srv = '':8090'' \<and> clean_reach ls (fs', empty_repo)"
proof -
  let ?P = "\<lambda>s. Inr \<lparr>ConnConfig = s, MaxConns = 4, MaxConnLifetime = 60\<rparr>"
  have d: "abs_stack ''/srv'' ''data'' = [''data'', ''srv'']" by code_simp
  have cfg: "v_GetString demo_viper ''storage.type'' = ''local''" "v_GetString demo_viper ''storage.local_path'' = ''data''"
    by (simp_all add: demo_viper_def)
  obtain ls fs' where st: "NewLocalStorage ''data'' demo_disk = (Inr ls, fs')"
    by (simp add: NewLocalStorage_def os_MkdirAll_def next_event_Nil demo_disk_def resolve_Inr IsAbs_def d lookup_node_def
        put_node_def)
  have os: "open_storage demo_viper mem_client (demo_disk, Map.empty) = (Inr (LocalBackend ls), fs', Map.empty)"
    using st by (simp add: open_storage_def cfg)
  have "\<exists>c. NewDBPool ?P Inr (v_GetStringMap demo_viper ''database'') = Ok c"
    by (simp add: demo_viper_def demo_settings_def NewDBPool_def bind_res_def)
  moreover have "\<exists>c. NewRedis (v_GetStringMap demo_viper ''redis'') = Ok c"
    by (simp add: demo_viper_def demo_settings_def NewRedis_def bind_res_def Let_def)
  moreover have "Itoa (v_GetInt demo_viper ''server.port'') = ''8090''"
    by (simp add: demo_viper_def Itoa_def nat_digits.simps digit_char_def)
  moreover have "v_ReadInConfig demo_viper f = None" for f by (simp add: demo_viper_def)
  ultimately obtain srv where run: "main_start False demo_viper ?P Inr mem_client (demo_disk, Map.empty) =
      (Running srv, fs', Map.empty)" "srv_Addr srv = '':8090''"
    using os by (auto simp: main_start_def)
  have "\<exists>ls. srv_storage srv = LocalBackend ls \<and> clean_reach ls (fs', empty_repo)"
    using start_reaches_system [OF run(1) cfg(1), of "''/srv''" empty_repo]
    by (auto simp: demo_disk_def IsAbs_def cfg d lookup_node_def empty_repo_def)
  then show ?thesis using run by blast
qed

text \<open>
  C36: The start ends in a panic in exactly two cases, both after the configuration file was read:
  one of the five text settings of the database is absent or not a string; or the database pool was
  opened, and the host of the cache is absent or not a string. Everything else that goes wrong
  (the file, the type of a port, the URL, the connection, the storage) ends with a message.
\<close>

theorem start_panics_iff:
  "(\<exists>m w'. main_start local_exists v ParseConfig NewWithConfig client w = (Crash m, w')) \<longleftrightarrow>
     v_ReadInConfig v (config_file local_exists) = None \<and>
     (let cfg = v_GetStringMap v ''database'' in
        \<not> (is_text (cfg ''host'') \<and> is_text (cfg ''user'') \<and> is_text (cfg ''password'')
           \<and> is_text (cfg ''name'') \<and> is_text (cfg ''ssl_mode''))
      \<or> is_ok (NewDBPool ParseConfig NewWithConfig cfg) \<and> \<not> is_text (v_GetStringMap v ''redis'' ''host''))"
proof -
  have db: "(\<exists>m. NewDBPool ParseConfig NewWithConfig cfg = Panic m) \<longleftrightarrow>
      \<not> (is_text (cfg ''host'') \<and> is_text (cfg ''user'') \<and> is_text (cfg ''password'')
         \<and> is_text (cfg ''name'') \<and> is_text (cfg ''ssl_mode''))" for cfg
    using NewDBPool_panics_iff [of ParseConfig NewWithConfig cfg] by (simp add: is_panic_iff)
  let ?cache = "v_GetStringMap v ''redis''"
  have rd: "is_text (?cache ''host'') \<longleftrightarrow> (\<exists>opts. NewRedis ?cache = Ok opts)"
    using NewRedis_ok_iff [of ?cache] by (simp add: is_ok_iff)
  show ?thesis unfolding Let_def db [symmetric] rd main_start_def
    by (auto split: option.splits res.splits sum.splits prod.splits)
qed

theorem start_panics_iff_witness:
  "\<exists>m w'. main_start False (demo_viper\<lparr>v_GetStringMap := (\<lambda>k. demo_settings(''ssl_mode'' := None))\<rparr>)
     (\<lambda>s. Inr \<lparr>ConnConfig = s, MaxConns = 4, MaxConnLifetime = 60\<rparr>) Inr mem_client (demo_disk, Map.empty) = (Crash m, w')"
  unfolding start_panics_iff by (simp add: demo_viper_def Let_def)

end
