(* ===== verification/SeaweedFS.thy ===== *)
theory SeaweedFS
  imports Filer
begin

text \<open>
  pkg/storage/seaweedfs.go: \<open>SeaweedFSStorage\<close>, the other client of SeaweedFS, which cmd/main.go
  does not build. \<open>Put\<close> asks the master for a file id, sends the content to the volume server
  the master names, and then stores a mapping from the path to the file id in the filer; the other
  operations speak to the filer alone.
\<close>

section \<open>The answers of the servers\<close>

record AssignResponse =
  ar_FileID :: string
  ar_URL :: string
  ar_PublicURL :: string
  ar_Count :: int
  ar_Error :: string

text \<open>Three more types of the file, which no operation uses.\<close>

record Volume =
  vo_ID :: int
  vo_Size :: int
  vo_Collection :: string
  vo_FileCount :: int
  vo_DeleteCount :: int
  vo_DeletedByteCount :: int
  vo_ReadOnly :: bool

record VolumeListResponse =
  vl_Volumes :: "Volume list"

record FileInfo =
  fi_Name :: string
  fi_Size :: int

fun unmarshal_Assign :: "json \<Rightarrow> AssignResponse option" where
  "unmarshal_Assign JNull = Some \<lparr>ar_FileID = [], ar_URL = [], ar_PublicURL = [], ar_Count = 0, ar_Error = []\<rparr>"
| "unmarshal_Assign (JObj kvs) =
     do {
       f \<leftarrow> decode_field as_string (values_of ''fid'' kvs) [];
       u \<leftarrow> decode_field as_string (values_of ''url'' kvs) [];
       p \<leftarrow> decode_field as_string (values_of ''publicUrl'' kvs) [];
       c \<leftarrow> decode_field as_int (values_of ''count'' kvs) 0;
       e \<leftarrow> decode_field as_string (values_of ''error'' kvs) [];
       Some \<lparr>ar_FileID = f, ar_URL = u, ar_PublicURL = p, ar_Count = c, ar_Error = e\<rparr>
     }"
| "unmarshal_Assign _ = None"

section \<open>Construction\<close>

record SeaweedFSStorage =
  fs_masterURL :: string

definition full_healthCheck :: "'n client \<Rightarrow> SeaweedFSStorage \<Rightarrow> 'n \<Rightarrow> goerr option \<times> 'n" where
  "full_healthCheck client s n =
     (case http_get client (fs_masterURL s @ ''/cluster/status'') n of
        (Inl e, n) \<Rightarrow> (Some e, n)
      | (Inr resp, n) \<Rightarrow>
          if rsp_status resp \<noteq> 200
          then (Some (ErrorString (''master server returned status '' @ Itoa (rsp_status resp))), n)
          else (None, n))"

definition NewSeaweedFSStorage :: "'n client \<Rightarrow> string \<Rightarrow> 'n \<Rightarrow> SeaweedFSStorage result \<times> 'n" where
  "NewSeaweedFSStorage client master n =
     (let storage = \<lparr>fs_masterURL = TrimSuffix (with_scheme master) ''/''\<rparr>
      in case full_healthCheck client storage n of
           (Some e, n) \<Rightarrow> (Inl (wrapf ''seaweedfs connection failed: '' e), n)
         | (None, n) \<Rightarrow> (Inr storage, n))"

definition full_filer :: "SeaweedFSStorage \<Rightarrow> string" where
  "full_filer s = ReplaceFirst (fs_masterURL s) '':9333'' '':8888''"

section \<open>Put\<close>

definition assignFileID ::
  "'n client \<Rightarrow> (reader \<Rightarrow> json result) \<Rightarrow> SeaweedFSStorage \<Rightarrow> 'n \<Rightarrow> AssignResponse result \<times> 'n" where
  "assignFileID client json_of s n =
     (case NewRequest ''GET'' (fs_masterURL s @ ''/dir/assign'') NoBody of
        Inl e \<Rightarrow> (Inl e, n)
      | Inr rq \<Rightarrow>
          (case client rq n of
             (Inl e, n) \<Rightarrow> (Inl e, n)
           | (Inr resp, n) \<Rightarrow>
               if rsp_status resp \<noteq> 200
               then (Inl (ErrorString (''assign request failed with status '' @ Itoa (rsp_status resp))), n)
               else (case json_of (rsp_body resp) of
                       Inl e \<Rightarrow> (Inl e, n)
                     | Inr j \<Rightarrow>
                         (case unmarshal_Assign j of
                            None \<Rightarrow> (Inl decode_error, n)
                          | Some a \<Rightarrow>
                              if ar_Error a \<noteq> [] then (Inl (ErrorString (''assign error: '' @ ar_Error a)), n)
                              else (Inr a, n)))))"

definition createDirectory :: "'n client \<Rightarrow> string \<Rightarrow> string \<Rightarrow> 'n \<Rightarrow> goerr option \<times> 'n" where
  "createDirectory client fURL dirPath n =
     (case NewRequest ''POST'' (fURL @ ''/'' @ dirPath @ ''/'') NoBody of
        Inl e \<Rightarrow> (Some e, n)
      | Inr rq \<Rightarrow>
          (case client rq n of
             (Inl e, n) \<Rightarrow> (Some e, n)
           | (Inr resp, n) \<Rightarrow>
               if rsp_status resp \<noteq> 201 \<and> rsp_status resp \<noteq> 200 \<and> rsp_status resp \<noteq> 409
               then (Some (ErrorString (''failed to create directory: status '' @ Itoa (rsp_status resp))), n)
               else (None, n)))"

text \<open>
  The text \<open>json.Marshal\<close> writes for a string: quotes, backslashes, control bytes, the HTML
  characters and the two line separators are escaped, and bytes that are not UTF-8 replaced.
\<close>

definition json_hex :: "nat \<Rightarrow> string" where
  "json_hex r = [CHR 0x5C, CHR ''u'', hex_char (r div 4096 mod 16), hex_char (r div 256 mod 16),
     hex_char (r div 16 mod 16), hex_char (r mod 16)]"

definition json_rune :: "bool \<Rightarrow> rune \<Rightarrow> string" where
  "json_rune valid r =
     (if r = 34 \<or> r = 92 then [CHR 0x5C, char_of r]
      else if r = 8 then [CHR 0x5C, CHR ''b''] else if r = 12 then [CHR 0x5C, CHR ''f'']
      else if r = 10 then [CHR 0x5C, CHR ''n''] else if r = 13 then [CHR 0x5C, CHR ''r'']
      else if r = 9 then [CHR 0x5C, CHR ''t'']
      else if r < 32 \<or> r = 60 \<or> r = 62 \<or> r = 38 \<or> r = 8232 \<or> r = 8233 then json_hex r
      else if r = RuneError \<and> \<not> valid then json_hex RuneError
      else map char_of (encode_rune r))"

definition mapping_text :: "string \<Rightarrow> bytes" where
  \<comment> \<open>\<open>json.Marshal(map[string]string{"fid": fileID})\<close>\<close>
  "mapping_text fileID =
     bytes_of_string ([CHR ''{'', CHR 0x22] @ ''fid'' @ [CHR 0x22, CHR '':'', CHR 0x22]
       @ concat (map (json_rune (ValidString fileID)) (runes fileID)) @ [CHR 0x22, CHR ''}''])"

definition storeFileMapping ::
  "'n client \<Rightarrow> SeaweedFSStorage \<Rightarrow> string \<Rightarrow> string \<Rightarrow> 'n \<Rightarrow> goerr option \<times> 'n" where
  "storeFileMapping client s path fileID n =
     (let fURL = full_filer s;
          dirs = Split CHR ''/'' path;
          (err, n) = (if length dirs > 1
                      then createDirectory client fURL (JoinWith ''/'' (take (length dirs - 1) dirs)) n
                      else (None, n))
      in case err of
           Some e \<Rightarrow> (Some e, n)
         | None \<Rightarrow>
             (case NewRequest ''PUT'' (fURL @ ''/'' @ path @ ''?metadata=true'') (RawBody (mapping_text fileID)) of
                Inl e \<Rightarrow> (Some e, n)
              | Inr rq \<Rightarrow>
                  (case client (set_content_type ''application/json'' rq) n of
                     (Inl e, n) \<Rightarrow> (Some e, n)
                   | (Inr resp, n) \<Rightarrow>
                       if rsp_status resp \<noteq> 201 \<and> rsp_status resp \<noteq> 200
                       then (Some (ErrorString (''failed to store file mapping: status ''
                               @ Itoa (rsp_status resp))), n)
                       else (None, n))))"

text \<open>
  The count and the error of \<open>Put\<close> come together at its end. The header Content-Length that is set
  on the request is ignored by net/http, which sends the length of the body.
\<close>

definition full_Put ::
  "'n client \<Rightarrow> (reader \<Rightarrow> json result) \<Rightarrow> SeaweedFSStorage \<Rightarrow> string \<Rightarrow> reader \<Rightarrow> int \<Rightarrow> 'n \<Rightarrow> put_result \<times> 'n" where
  "full_Put client json_of s path rd sz n =
     (case assignFileID client json_of s n of
        (Inl e, n) \<Rightarrow> (failed_put (wrapf ''failed to assign file ID: '' e) [], n)
      | (Inr assign, n) \<Rightarrow>
          (case rd_err rd of
             Some e \<Rightarrow> (failed_put e (rd_data rd), n)
           | None \<Rightarrow>
               (case NewRequest ''POST'' (''http://'' @ ar_URL assign @ ''/'' @ ar_FileID assign)
                       (FormFile ''file'' path (rd_data rd)) of
                  Inl e \<Rightarrow> (failed_put e (rd_data rd), n)
                | Inr rq \<Rightarrow>
                    (case client (set_content_type ''multipart/form-data'' rq) n of
                       (Inl e, n) \<Rightarrow> (failed_put e (rd_data rd), n)
                     | (Inr resp, n) \<Rightarrow>
                         if rsp_status resp \<noteq> 201 \<and> rsp_status resp \<noteq> 200
                         then (failed_put (ErrorString (''upload failed with status '' @ Itoa (rsp_status resp)
                                 @ '': '' @ string_of_bytes (rd_data (rsp_body resp)))) (rd_data rd), n)
                         else
                           (let (err, n) = storeFileMapping client s path (ar_FileID assign) n
                            in (\<lparr>pr_n = int (length (rd_data rd)), pr_err = err, pr_consumed = rd_data rd\<rparr>, n))))))"

section \<open>Get and Delete\<close>

definition full_Get :: "'n client \<Rightarrow> SeaweedFSStorage \<Rightarrow> string \<Rightarrow> 'n \<Rightarrow> reader result \<times> 'n" where
  "full_Get client s path n =
     (case NewRequest ''GET'' (full_filer s @ ''/'' @ path) NoBody of
        Inl e \<Rightarrow> (Inl e, n)
      | Inr rq \<Rightarrow>
          (case client rq n of
             (Inl e, n) \<Rightarrow> (Inl e, n)
           | (Inr resp, n) \<Rightarrow>
               if rsp_status resp = 404 then (Inl (ErrorString (''file not found: '' @ path)), n)
               else if rsp_status resp \<noteq> 200
               then (Inl (ErrorString (''failed to get file: status '' @ Itoa (rsp_status resp))), n)
               else (Inr (rsp_body resp), n)))"

definition full_Delete :: "'n client \<Rightarrow> SeaweedFSStorage \<Rightarrow> string \<Rightarrow> 'n \<Rightarrow> goerr option \<times> 'n" where
  "full_Delete client s path n =
     (case NewRequest ''DELETE'' (full_filer s @ ''/'' @ path) NoBody of
        Inl e \<Rightarrow> (Some e, n)
      | Inr rq \<Rightarrow>
          (case client rq n of
             (Inl e, n) \<Rightarrow> (Some e, n)
           | (Inr resp, n) \<Rightarrow>
               if rsp_status resp = 404 then (None, n)
               else if rsp_status resp \<noteq> 204 \<and> rsp_status resp \<noteq> 200
               then (Some (ErrorString (''failed to delete file: status '' @ Itoa (rsp_status resp))), n)
               else (None, n)))"

section \<open>List\<close>

definition QueryEscape :: "string \<Rightarrow> string" where
  "QueryEscape s = concat (map (\<lambda>c.
     if is_alnum c \<or> c \<in> set ''-_.~'' then [c]
     else if c = CHR '' '' then ''+''
     else (let n = of_char c :: nat in
           CHR ''%'' # map (\<lambda>d. ''0123456789ABCDEF'' ! d) [n div 16, n mod 16])) s)"

text \<open>\<open>params.Encode()\<close> sorts the keys; there is always at least one.\<close>

definition full_list_url :: "SeaweedFSStorage \<Rightarrow> string \<Rightarrow> string" where
  "full_list_url s prefix =
     full_filer s @ ''/'' @ prefix @ ''?''
     @ (if prefix \<noteq> [] then ''namePattern='' @ QueryEscape (prefix @ ''*'') @ ''&'' else [])
     @ ''pretty=y''"

fun full_entry_loop :: "DirectoryEntry list \<Rightarrow> string list" where
  "full_entry_loop [] = []"
| "full_entry_loop (e # es) =
     (if \<not> is_directory e then de_FullPath e # full_entry_loop es else full_entry_loop es)"

definition full_List ::
  "'n client \<Rightarrow> (reader \<Rightarrow> json result) \<Rightarrow> SeaweedFSStorage \<Rightarrow> string \<Rightarrow> 'n \<Rightarrow> string list result \<times> 'n" where
  "full_List client json_of s prefix n =
     (case NewRequest ''GET'' (full_list_url s prefix) NoBody of
        Inl e \<Rightarrow> (Inl e, n)
      | Inr rq \<Rightarrow>
          (case client rq n of
             (Inl e, n) \<Rightarrow> (Inl e, n)
           | (Inr resp, n) \<Rightarrow>
               if rsp_status resp = 404 then (Inr [], n)
               else if rsp_status resp \<noteq> 200
               then (Inl (ErrorString (''failed to list files: status '' @ Itoa (rsp_status resp))), n)
               else (case json_of (rsp_body resp) of
                       Inl e \<Rightarrow> (Inl e, n)
                     | Inr j \<Rightarrow>
                         (case unmarshal_Listing j of
                            None \<Rightarrow> (Inl decode_error, n)
                          | Some listResp \<Rightarrow> (Inr (full_entry_loop (dl_Entries listResp)), n)))))"

definition seaweed_full_ops ::
  "'n client \<Rightarrow> (reader \<Rightarrow> json result) \<Rightarrow> SeaweedFSStorage \<Rightarrow> 'n storage_ops" where
  "seaweed_full_ops client json_of s =
     \<lparr>st_Put = full_Put client json_of s, st_Get = full_Get client s, st_Delete = full_Delete client s,
      st_List = full_List client json_of s\<rparr>"

section \<open>What is sent\<close>

text \<open>The network together with the requests that were sent to it.\<close>

definition logging :: "'n client \<Rightarrow> ('n \<times> http_request list) client" where
  "logging client rq w = (case w of (n, log) \<Rightarrow> case client rq n of (res, n') \<Rightarrow> (res, n', log @ [rq]))"

lemma logging_simp: "logging client rq (n, log) = (fst (client rq n), snd (client rq n), log @ [rq])"
  by (simp add: logging_def split: prod.split)

lemma NewRequest_body: "NewRequest m u b = Inr rq \<Longrightarrow> rq_body rq = b"
  by (auto simp: NewRequest_def split: sum.splits)

lemma set_content_type_body [simp]: "rq_body (set_content_type ct rq) = rq_body rq"
  by (simp add: set_content_type_def)

lemma assignFileID_sends:
  assumes "assignFileID (logging client) json_of s (n, log) = (Inr a, n', log')"
  shows "\<exists>rq. log' = log @ [rq] \<and> NewRequest ''GET'' (fs_masterURL s @ ''/dir/assign'') NoBody = Inr rq"
  using assms by (auto simp: assignFileID_def logging_simp split: sum.splits if_splits option.splits)

lemma createDirectory_sends:
  assumes "createDirectory (logging client) u d (n, log) = (None, n', log')"
  shows "\<exists>rq. log' = log @ [rq] \<and> rq_body rq = NoBody"
  using assms NewRequest_body by (fastforce simp: createDirectory_def logging_simp split: sum.splits if_splits)

lemma storeFileMapping_sends:
  assumes "storeFileMapping (logging client) s p fid (n, log) = (None, n', log')"
  shows "\<exists>ds rq. log' = log @ ds @ [set_content_type ''application/json'' rq] \<and> (\<forall>d \<in> set ds. rq_body d = NoBody)
    \<and> NewRequest ''PUT'' (full_filer s @ ''/'' @ p @ ''?metadata=true'') (RawBody (mapping_text fid)) = Inr rq"
proof -
  let ?dirs = "Split CHR ''/'' p"
  let ?made = "if length ?dirs > 1
    then createDirectory (logging client) (full_filer s) (JoinWith ''/'' (take (length ?dirs - 1) ?dirs)) (n, log)
    else (None, n, log)"
  obtain err n1 log1 where made: "?made = (err, n1, log1)" by (metis surj_pair)
  then have err: "err = None" using assms by (auto simp: storeFileMapping_def Let_def split: option.splits)
  have "\<exists>ds. log1 = log @ ds \<and> (\<forall>d \<in> set ds. rq_body d = NoBody)"
  proof (cases "length ?dirs > 1")
    case True
    then have "createDirectory (logging client) (full_filer s) (JoinWith ''/'' (take (length ?dirs - 1) ?dirs)) (n, log)
        = (None, n1, log1)" using made err by simp
    from createDirectory_sends [OF this] show ?thesis by auto
  next
    case False
    then show ?thesis using made by simp
  qed
  then obtain ds where ds: "log1 = log @ ds" "\<forall>d \<in> set ds. rq_body d = NoBody" by blast
  moreover have "\<exists>rq. log' = log1 @ [set_content_type ''application/json'' rq] \<and>
      NewRequest ''PUT'' (full_filer s @ ''/'' @ p @ ''?metadata=true'') (RawBody (mapping_text fid)) = Inr rq"
    using assms made err
    by (auto simp: storeFileMapping_def Let_def logging_simp split: sum.splits if_splits)
  ultimately show ?thesis by auto
qed

lemma full_Put_sends:
  assumes "full_Put (logging client) json_of s p rd sz (n, log) = (pr, n', log')" "pr_err pr = None"
  shows "\<exists>fid addr arq vrq ds frq. log' = log @ [arq, set_content_type ''multipart/form-data'' vrq] @ ds
        @ [set_content_type ''application/json'' frq]
    \<and> NewRequest ''GET'' (fs_masterURL s @ ''/dir/assign'') NoBody = Inr arq
    \<and> NewRequest ''POST'' (''http://'' @ addr @ ''/'' @ fid) (FormFile ''file'' p (rd_data rd)) = Inr vrq
    \<and> (\<forall>d \<in> set ds. rq_body d = NoBody)
    \<and> NewRequest ''PUT'' (full_filer s @ ''/'' @ p @ ''?metadata=true'') (RawBody (mapping_text fid)) = Inr frq"
proof -
  obtain a n1 log1 where a: "assignFileID (logging client) json_of s (n, log) = (Inr a, n1, log1)"
  proof -
    obtain res n1 log1 where r: "assignFileID (logging client) json_of s (n, log) = (res, n1, log1)" by (metis surj_pair)
    show ?thesis using assms r that by (cases res) (auto simp: full_Put_def failed_put_def)
  qed
  from assignFileID_sends [OF a] obtain arq where arq: "log1 = log @ [arq]"
    "NewRequest ''GET'' (fs_masterURL s @ ''/dir/assign'') NoBody = Inr arq" by blast
  obtain vrq where vrq: "NewRequest ''POST'' (''http://'' @ ar_URL a @ ''/'' @ ar_FileID a)
      (FormFile ''file'' p (rd_data rd)) = Inr vrq"
    using assms a by (auto simp: full_Put_def failed_put_def split: option.splits sum.splits)
  let ?vrq = "set_content_type ''multipart/form-data'' vrq"
  obtain err n2 log2 where st: "storeFileMapping (logging client) s p (ar_FileID a) (snd (client ?vrq n1), log1 @ [?vrq])
      = (err, n2, log2)" by (metis surj_pair)
  have "err = None \<and> log' = log2"
    using assms a vrq st
    by (auto simp: full_Put_def failed_put_def logging_simp split: option.splits sum.splits if_splits)
  with storeFileMapping_sends [of client s p "ar_FileID a" "snd (client ?vrq n1)" "log1 @ [?vrq]" n2 log2] st
  obtain ds frq where "log' = (log1 @ [?vrq]) @ ds @ [set_content_type ''application/json'' frq]"
    "\<forall>d \<in> set ds. rq_body d = NoBody"
    "NewRequest ''PUT'' (full_filer s @ ''/'' @ p @ ''?metadata=true'') (RawBody (mapping_text (ar_FileID a))) = Inr frq"
    by blast
  with arq vrq show ?thesis by (intro exI [of _ "ar_FileID a"] exI [of _ "ar_URL a"] exI) auto
qed

lemma full_Get_sends:
  assumes "full_Get (logging client) s p (n, log) = (res, n', log')"
  shows "log' = log \<and> (\<exists>e. res = Inl e)
    \<or> (\<exists>rq. log' = log @ [rq] \<and> NewRequest ''GET'' (full_filer s @ ''/'' @ p) NoBody = Inr rq
        \<and> (\<forall>rd. res = Inr rd \<longrightarrow> (\<exists>resp. fst (client rq n) = Inr resp \<and> rd = rsp_body resp)))"
  using assms by (auto simp: full_Get_def logging_simp split: sum.splits if_splits)

section \<open>A network\<close>

definition cluster_json :: "reader \<Rightarrow> json result" where
  "cluster_json rd = Inr (JObj [(''fid'', JStr ''3,01637037d6''), (''url'', JStr ''volume:8080'')])"

definition cluster_assign :: AssignResponse where
  "cluster_assign = \<lparr>ar_FileID = ''3,01637037d6'', ar_URL = ''volume:8080'', ar_PublicURL = [],
     ar_Count = 0, ar_Error = []\<rparr>"

lemma cluster_unmarshal:
  "unmarshal_Assign (JObj [(''fid'', JStr ''3,01637037d6''), (''url'', JStr ''volume:8080'')]) = Some cluster_assign"
proof -
  have "ToLower ''fid'' = ''fid''" "ToLower ''url'' = ''url''" "ToLower ''publicUrl'' = ''publicurl''"
    "ToLower ''count'' = ''count''" "ToLower ''error'' = ''error''"
    by (simp_all add: ToLower_ascii ascii_def lower_rune_def char_of_eq_iff)
  then show ?thesis by (simp add: values_of_def cluster_assign_def)
qed

text \<open>Every request is answered with 200 and no content.\<close>

definition quiet_client :: "unit client" where
  "quiet_client rq n = (Inr (answer 200 []), n)"

section \<open>Properties\<close>

text \<open>
  C23: What the full client sends, on any network. A \<open>Put\<close> that reports success has sent the content in
  one request only, the POST to the address and file id that the master had assigned; to the filer
  it has sent empty requests for the directories and, under the path, the JSON text with the
  file id. \<open>Get\<close> sends at most one request, to the filer for the path, and returns the body of its
  answer as it is: it does not look at the mapping and never asks the server that has the content.
\<close>

theorem full_put_get_requests:
  assumes "full_Put (logging client) json_of s p rd sz (n, log) = (pr, n', log')" and "pr_err pr = None"
    and "full_Get (logging client) s p (m, log') = (res, m', log'')"
  shows "(\<exists>fid addr arq vrq ds frq. log' = log @ [arq, set_content_type ''multipart/form-data'' vrq] @ ds
        @ [set_content_type ''application/json'' frq]
      \<and> NewRequest ''GET'' (fs_masterURL s @ ''/dir/assign'') NoBody = Inr arq
      \<and> NewRequest ''POST'' (''http://'' @ addr @ ''/'' @ fid) (FormFile ''file'' p (rd_data rd)) = Inr vrq
      \<and> (\<forall>d \<in> set ds. rq_body d = NoBody)
      \<and> NewRequest ''PUT'' (full_filer s @ ''/'' @ p @ ''?metadata=true'') (RawBody (mapping_text fid)) = Inr frq)
    \<and> (log'' = log' \<and> (\<exists>e. res = Inl e)
      \<or> (\<exists>rq. log'' = log' @ [rq] \<and> NewRequest ''GET'' (full_filer s @ ''/'' @ p) NoBody = Inr rq
          \<and> (\<forall>rd'. res = Inr rd' \<longrightarrow> (\<exists>resp. fst (client rq m) = Inr resp \<and> rd' = rsp_body resp))))"
  using full_Put_sends [OF assms(1,2)] full_Get_sends [OF assms(3)] by blast

theorem full_put_get_requests_witness:
  "\<exists>log rq rd. snd (full_Put (logging quiet_client) cluster_json \<lparr>fs_masterURL = ''http://seaweedfs:9333''\<rparr> ''a''
      (reader_of [1]) 1 ((), [])) = ((), log)
    \<and> full_Get (logging quiet_client) \<lparr>fs_masterURL = ''http://seaweedfs:9333''\<rparr> ''a'' ((), log) = (Inr rd, (), log @ [rq])
    \<and> NewRequest ''GET'' ''http://seaweedfs:8888/a'' NoBody = Inr rq"
proof -
  let ?s = "\<lparr>fs_masterURL = ''http://seaweedfs:9333''\<rparr>"
  have filer: "full_filer ?s = ''http://seaweedfs:8888''" by code_simp
  have parsed: "\<not> isl (ParseURL ''http://seaweedfs:9333/dir/assign'')" "\<not> isl (ParseURL ''http://volume:8080/3,01637037d6'')"
    "\<not> isl (ParseURL ''http://seaweedfs:8888/a?metadata=true'')" "\<not> isl (ParseURL ''http://seaweedfs:8888/a'')"
    by code_simp+
  have requests: "\<exists>rq. NewRequest m u b = Inr rq" if "\<not> isl (ParseURL u)" for m u b
    using that by (cases "ParseURL u") (auto simp: NewRequest_def)
  obtain arq vrq frq grq where rqs: "NewRequest ''GET'' ''http://seaweedfs:9333/dir/assign'' NoBody = Inr arq"
      "NewRequest ''POST'' ''http://volume:8080/3,01637037d6'' (FormFile ''file'' ''a'' [1]) = Inr vrq"
      "NewRequest ''PUT'' ''http://seaweedfs:8888/a?metadata=true'' (RawBody (mapping_text ''3,01637037d6'')) = Inr frq"
      "NewRequest ''GET'' ''http://seaweedfs:8888/a'' NoBody = Inr grq"
    using requests [OF parsed(1)] requests [OF parsed(2)] requests [OF parsed(3)] requests [OF parsed(4)] by blast
  have one: "Split CHR ''/'' ''a'' = [''a'']" by (rule Split_no_sep) simp
  obtain pr log where put: "full_Put (logging quiet_client) cluster_json ?s ''a'' (reader_of [1]) 1 ((), []) = (pr, (), log)"
      "pr_err pr = None"
    using rqs(1-3) filer one cluster_unmarshal
    by (simp add: full_Put_def assignFileID_def storeFileMapping_def logging_simp quiet_client_def answer_def reader_of_def
        cluster_json_def cluster_assign_def del: unmarshal_Assign.simps)
  obtain log'' where get: "full_Get (logging quiet_client) ?s ''a'' ((), log) = (Inr (reader_of []), (), log'')"
    using rqs(4) filer by (simp add: full_Get_def logging_simp quiet_client_def answer_def)
  from full_put_get_requests [OF put get] filer have "\<exists>rq. log'' = log @ [rq] \<and> NewRequest ''GET'' ''http://seaweedfs:8888/a'' NoBody = Inr rq"
    by auto
  then show ?thesis using put(1) get by auto
qed

end
