(* ===== verification/Interleaving.thy ===== *)
theory Interleaving
  imports Demo
begin

text \<open>
  Requests run concurrently: net/http serves each in a goroutine of its own, and the service takes
  no lock and opens no transaction. The unit of interleaving is one call of the storage or of the
  repository (one SQL statement, one file operation). An upload and a delete are written here as
  small steps, one call each, with the local variables of the Go function in the program counter;
  run alone they are the functions of Service.
\<close>

section \<open>An upload in steps\<close>

datatype upload_pc =
    U_start
  | U_lookup string int
  | U_discard string Storage
  | U_increment string Storage
  | U_share string Storage
  | U_release string goerr
  | U_create string int
  | U_withdraw goerr
  | U_refer string int
  | U_forget string goerr
  | U_done "File result"

definition shared_file :: "string \<Rightarrow> time \<Rightarrow> FileHeader \<Rightarrow> string \<Rightarrow> Storage \<Rightarrow> File" where
  "shared_file fileID now header checksum x =
     \<lparr>ID = fileID, Name = HName header, StorageHash = checksum, CreatedAt = now, FStorage = Some x,
      Size = StSize x, ContentType = StContentType x, StoragePath = StStoragePath x, Checksum = Hash x\<rparr>"

definition first_storage :: "string \<Rightarrow> time \<Rightarrow> FileHeader \<Rightarrow> string \<Rightarrow> int \<Rightarrow> Storage" where
  "first_storage path now header checksum sz =
     \<lparr>Hash = checksum, StSize = sz, StContentType = HContentType header, StStoragePath = path,
      ReferenceCount = 1, StCreatedAt = now, UpdatedAt = now\<rparr>"

definition first_file :: "string \<Rightarrow> string \<Rightarrow> time \<Rightarrow> FileHeader \<Rightarrow> string \<Rightarrow> int \<Rightarrow> File" where
  "first_file path fileID now header checksum sz =
     \<lparr>ID = fileID, Name = HName header, StorageHash = checksum, CreatedAt = now,
      FStorage = Some (first_storage path now header checksum sz), Size = sz,
      ContentType = HContentType header, StoragePath = path, Checksum = checksum\<rparr>"

fun upload_step ::
  "('s, 'r) StorageService \<Rightarrow> string \<Rightarrow> string \<Rightarrow> time \<Rightarrow> reader \<Rightarrow> FileHeader
     \<Rightarrow> upload_pc \<times> 's \<times> 'r \<Rightarrow> upload_pc \<times> 's \<times> 'r" where
  "upload_step sv path fileID now rd header (U_start, s, r) =
     (case ValidateFile (Some header) of
        Some e \<Rightarrow> (U_done (Inl e), s, r)
      | None \<Rightarrow>
          (let (put, s) = st_Put (svc_storage sv) path rd (HSize header) s
           in case pr_err put of
                Some e \<Rightarrow> (U_done (Inl e), s, r)
              | None \<Rightarrow> (U_lookup (sha256_hex (pr_consumed put)) (pr_n put), s, r)))"
| "upload_step sv path fileID now rd header (U_lookup checksum sz, s, r) =
     (let (found, r) = r_GetStorageByHash (svc_repo sv) checksum r
      in case found of
           Inr (Some x) \<Rightarrow> (U_discard checksum x, s, r)
         | _ \<Rightarrow> (U_create checksum sz, s, r))"
| "upload_step sv path fileID now rd header (U_discard checksum x, s, r) =
     (let (ignored, s) = st_Delete (svc_storage sv) path s in (U_increment checksum x, s, r))"
| "upload_step sv path fileID now rd header (U_increment checksum x, s, r) =
     (let (err, r) = r_IncrementStorageRef (svc_repo sv) checksum r
      in case err of Some e \<Rightarrow> (U_done (Inl e), s, r) | None \<Rightarrow> (U_share checksum x, s, r))"
| "upload_step sv path fileID now rd header (U_share checksum x, s, r) =
     (let file = shared_file fileID now header checksum x;
          (err, r) = r_CreateFileReference (svc_repo sv) file r
      in case err of Some e \<Rightarrow> (U_release checksum e, s, r) | None \<Rightarrow> (U_done (Inr file), s, r))"
| "upload_step sv path fileID now rd header (U_release checksum e, s, r) =
     (let (ignored, r) = r_DecrementStorageRef (svc_repo sv) checksum r in (U_done (Inl e), s, r))"
| "upload_step sv path fileID now rd header (U_create checksum sz, s, r) =
     (let (err, r) = r_CreateStorage (svc_repo sv) (first_storage path now header checksum sz) r
      in case err of Some e \<Rightarrow> (U_withdraw e, s, r) | None \<Rightarrow> (U_refer checksum sz, s, r))"
| "upload_step sv path fileID now rd header (U_withdraw e, s, r) =
     (let (ignored, s) = st_Delete (svc_storage sv) path s in (U_done (Inl e), s, r))"
| "upload_step sv path fileID now rd header (U_refer checksum sz, s, r) =
     (let file = first_file path fileID now header checksum sz;
          (err, r) = r_CreateFileReference (svc_repo sv) file r
      in case err of Some e \<Rightarrow> (U_forget checksum e, s, r) | None \<Rightarrow> (U_done (Inr file), s, r))"
| "upload_step sv path fileID now rd header (U_forget checksum e, s, r) =
     (let (ignored, r) = r_DeleteStorage (svc_repo sv) checksum r in (U_withdraw e, s, r))"
| "upload_step sv path fileID now rd header (U_done res, s, r) = (U_done res, s, r)"

section \<open>A delete in steps\<close>

datatype delete_pc =
    D_start
  | D_remove string
  | D_decrement string
  | D_lookup string
  | D_blob string Storage
  | D_record string
  | D_done "unit res"

fun delete_step ::
  "('s, 'r) StorageService \<Rightarrow> string \<Rightarrow> delete_pc \<times> 's \<times> 'r \<Rightarrow> delete_pc \<times> 's \<times> 'r" where
  "delete_step sv i (D_start, s, r) =
     (let (found, r) = r_GetStorageHashByFileID (svc_repo sv) i r
      in case found of Inl e \<Rightarrow> (D_done (Err e), s, r) | Inr h \<Rightarrow> (D_remove h, s, r))"
| "delete_step sv i (D_remove h, s, r) =
     (let (err, r) = r_DeleteByID (svc_repo sv) i r
      in case err of Some e \<Rightarrow> (D_done (Err e), s, r) | None \<Rightarrow> (D_decrement h, s, r))"
| "delete_step sv i (D_decrement h, s, r) =
     (let ((n, ignored), r) = r_DecrementStorageRef (svc_repo sv) h r
      in if n = 0 then (D_lookup h, s, r) else (D_done (Ok ()), s, r))"
| "delete_step sv i (D_lookup h, s, r) =
     (let (found, r) = r_GetStorageByHash (svc_repo sv) h r
      in case found of
           Inl e \<Rightarrow> (D_done (Ok ()), s, r)
         | Inr None \<Rightarrow> (D_done (Panic ''invalid memory address or nil pointer dereference''), s, r)
         | Inr (Some x) \<Rightarrow> (D_blob h x, s, r))"
| "delete_step sv i (D_blob h x, s, r) =
     (let (ignored, s) = st_Delete (svc_storage sv) (StStoragePath x) s in (D_record h, s, r))"
| "delete_step sv i (D_record h, s, r) =
     (let (ignored, r) = r_DeleteStorage (svc_repo sv) h r in (D_done (Ok ()), s, r))"
| "delete_step sv i (D_done res, s, r) = (D_done res, s, r)"

section \<open>Run alone\<close>

text \<open>An upload, and a delete, make at most six calls.\<close>

lemma upload_steps_done: "(upload_step sv path fileID now rd header ^^ k) (U_done res, w) = (U_done res, w)"
  by (induction k) (cases w; auto)+

lemma delete_steps_done: "(delete_step sv i ^^ k) (D_done res, w) = (D_done res, w)"
  by (induction k) (cases w; auto)+

lemma six: "f ^^ 6 = f \<circ> f \<circ> f \<circ> f \<circ> f \<circ> f"
  by (simp add: numeral_eq_Suc comp_assoc)

lemma upload_run:
  "(upload_step sv path fileID now rd header ^^ 6) (U_start, w) =
     (case Upload sv path fileID now rd header w of (res, w') \<Rightarrow> (U_done res, w'))"
  by (cases w) (simp add: six Upload_def upload_new_def upload_duplicate_def Let_def shared_file_def first_file_def
      first_storage_def split: prod.split option.split sum.split)

lemma delete_run:
  "(delete_step sv i ^^ 6) (D_start, w) = (case Delete sv i w of (res, w') \<Rightarrow> (D_done res, w'))"
  by (cases w) (simp add: six Delete_def cleanup_storage_def Let_def split: prod.split option.split sum.split)

section \<open>An upload beside a delete\<close>

text \<open>A schedule says at each moment which of the two moves: true for the upload.\<close>

fun par_run ::
  "(upload_pc \<times> 's \<times> 'r \<Rightarrow> upload_pc \<times> 's \<times> 'r) \<Rightarrow> (delete_pc \<times> 's \<times> 'r \<Rightarrow> delete_pc \<times> 's \<times> 'r)
     \<Rightarrow> bool list \<Rightarrow> upload_pc \<times> delete_pc \<times> 's \<times> 'r \<Rightarrow> upload_pc \<times> delete_pc \<times> 's \<times> 'r" where
  "par_run up del [] st = st"
| "par_run up del (b # bs) (p, q, s, r) =
     (if b then (let (p, s, r) = up (p, s, r) in par_run up del bs (p, q, s, r))
      else (let (q, s, r) = del (q, s, r) in par_run up del bs (p, q, s, r)))"

lemma par_run_append:
  "par_run up del (bs @ cs) (p, q, s, r) =
     (case par_run up del bs (p, q, s, r) of (p, q, s, r) \<Rightarrow> par_run up del cs (p, q, s, r))"
  by (induction bs arbitrary: p q s r) (auto split: prod.split)

lemma par_run_upload:
  "par_run up del (replicate k True) (p, q, s, r) = (case (up ^^ k) (p, s, r) of (p, s, r) \<Rightarrow> (p, q, s, r))"
  by (induction k arbitrary: p s r) (auto simp: funpow_swap1 split: prod.split)

lemma par_run_delete:
  "par_run up del (replicate k False) (p, q, s, r) = (case (del ^^ k) (q, s, r) of (q, s, r) \<Rightarrow> (p, q, s, r))"
  by (induction k arbitrary: q s r) (auto simp: funpow_swap1 split: prod.split)

context storage_service
begin

text \<open>
  The delete of the last reference has brought the count to zero and not yet read the record; the
  upload finds the record, raises its count to one and refers to it; the delete goes on, deletes
  the blob, and leaves the record, whose count is not zero.
\<close>

lemma race:
  assumes inv: "binv s" "rinv r" "dedup_ok path_ok (storages r) (files r) (blobs s)"
    and i: "id_ok i" "files r i = Some f" "storages r (ref_hash f) = Some x" "ReferenceCount x = 1"
    and up: "upload_ok id_ok (blobs s) (files r) path fileID rd header"
    and same: "ref_hash f = sha256_hex (rd_data rd)" and fresh: "cached r fileID = None"
  shows "\<exists>g s' r' e r''.
      par_run (upload_step (NewStorageService st repo) path fileID now rd header) (delete_step (NewStorageService st repo) i)
        [False, False, False, True, True, True, True, True, False, False, False] (U_start, D_start, s, r)
      = (U_done (Inr g), D_done (Ok ()), s', r') \<and> ID g = fileID
    \<and> files r' fileID = Some (new_ref now (rd_data rd) header)
    \<and> Download (NewStorageService st repo) fileID (s', r') = (Inl e, s', r'')"
proof -
  let ?h = "ref_hash f" and ?c = "rd_data rd"
  obtain r1 r2 t where d: "r_GetStorageHashByFileID repo i r = (Inr ?h, r)" "r_DeleteByID repo i r = (None, r1)"
      "r_DecrementStorageRef repo ?h r1 = ((ReferenceCount x - 1, None), r2)" "rinv r2"
      "files r2 = (files r)(i := None)" "cached r2 = (cached r)(i := None)"
      "storages r2 = (storages r)(?h \<mapsto> x\<lparr>ReferenceCount := ReferenceCount x - 1, UpdatedAt := t\<rparr>)"
    using Delete_start [OF inv(2,3) i(1-3)] .
  define x0 where "x0 = x\<lparr>ReferenceCount := 0, UpdatedAt := t\<rparr>"
  have x0: "storages r2 ?h = Some x0" using d(7) i(4) by (simp add: x0_def)
  note u = up [unfolded upload_ok_def]
  obtain s1 where s1: "st_Put st path rd (HSize header) s =
        (\<lparr>pr_n = int (length ?c), pr_err = None, pr_consumed = ?c\<rparr>, s1)"
      "binv s1" "blobs s1 = (blobs s)(path \<mapsto> ?c)" using put_step [OF inv(1)] u by blast
  have "blobs s1 path = Some ?c" using s1(3) by simp
  from delete_path [OF s1(2) _ this] u obtain s2 where s2: "st_Delete st path s1 = (None, s2)"
      "binv s2" "blobs s2 = (blobs s1)(path := None)" by blast
  have b2: "blobs s2 = blobs s" using s1(3) s2(3) u by (auto simp: fun_upd_idem)
  have "count_ok (ReferenceCount x0 + 1)" by (simp add: x0_def count_ok_def)
  from increment [OF d(4) x0 this] obtain r3 t3 where r3: "r_IncrementStorageRef repo ?h r2 = (None, r3)" "rinv r3"
      "files r3 = files r2" "cached r3 = cached r2"
      "storages r3 = (storages r2)(?h \<mapsto> x0\<lparr>ReferenceCount := ReferenceCount x0 + 1, UpdatedAt := t3\<rparr>)" by blast
  define x1 where "x1 = x0\<lparr>ReferenceCount := ReferenceCount x0 + 1, UpdatedAt := t3\<rparr>"
  have x1: "storages r3 ?h = Some x1" "ReferenceCount x1 \<noteq> 0" "StStoragePath x1 = StStoragePath x"
    using r3(5) by (simp_all add: x1_def x0_def)
  let ?g = "shared_file fileID now header ?h x0"
  have ok: "id_ok (ID ?g)" "text_ok 255 (Name ?g)" "storages r3 (StorageHash ?g) \<noteq> None" "files r3 (ID ?g) = None"
    using u ValidateFile_name_ok [of header] x1(1) r3(3) d(5) by (simp_all add: shared_file_def)
  from create_file [OF r3(2) ok] obtain r4 where r4: "r_CreateFileReference repo ?g r3 = (None, r4)" "rinv r4"
      "storages r4 = storages r3" "cached r4 = cached r3"
      "files r4 = (files r3)(fileID \<mapsto> \<lparr>ref_name = HName header, ref_hash = ?h, ref_created = now\<rparr>)"
    by (auto simp: shared_file_def)
  have g4: "r_GetStorageByHash repo ?h r4 = (Inr (Some x1), r4)" using get_storage [OF r4(2)] r4(3) x1(1) by simp
  from dedup_blob [OF inv(3) i(3)] obtain c where c: "path_ok (StStoragePath x)" "blobs s (StStoragePath x) = Some c" by blast
  have "blobs s2 (StStoragePath x) = Some c" using c(2) b2 by simp
  from delete_hit [OF s2(2) c(1) this] obtain s3 where s3: "st_Delete st (StStoragePath x) s2 = (None, s3)" "binv s3"
      "blobs s3 = (blobs s2)(StStoragePath x := None)" by blast
  have kept: "r_DeleteStorage repo ?h r4 = (None, r4)" using delete_storage_kept [OF r4(2)] r4(3) x1 by simp
  have lookup: "r_GetStorageByHash repo ?h r2 = (Inr (Some x0), r2)" using get_storage [OF d(4) x0] .
  have run: "par_run (upload_step (NewStorageService st repo) path fileID now rd header)
        (delete_step (NewStorageService st repo) i)
        [False, False, False, True, True, True, True, True, False, False, False] (U_start, D_start, s, r)
      = (U_done (Inr ?g), D_done (Ok ()), s3, r4)"
    using d(1-3) i(4) u s1(1) same lookup s2(1) r3(1) r4(1) g4 x1(3) s3(1) kept
    by (simp add: NewStorageService_def)
  have id: "id_ok fileID" using u by blast
  have f4: "files r4 fileID = Some (new_ref now ?c header)" using r4(5) same by (simp add: new_ref_def)
  have s4: "storages r4 (ref_hash (new_ref now ?c header)) = Some x1" using r4(3) x1(1) same by simp
  have c4: "cached r4 fileID = None" using r4(4) r3(4) d(6) fresh by simp
  have b4: "path_ok (StStoragePath x1)" "blobs s3 (StStoragePath x1) = None" using s3(3) x1(3) c(1) by simp_all
  from Download_lost [OF s3(2) r4(2) id f4 s4 c4 b4] obtain e r5 where
    "Download (NewStorageService st repo) fileID (s3, r4) = (Inl e, s3, r5)" by blast
  moreover have "ID ?g = fileID" by (simp add: shared_file_def)
  ultimately show ?thesis using run f4 by blast
qed

end

section \<open>Properties\<close>

text \<open>The calls that an upload and a delete have at most still to make.\<close>

fun upload_left :: "upload_pc \<Rightarrow> nat" where
  "upload_left U_start = 6"
| "upload_left (U_lookup c n) = 5"
| "upload_left (U_discard c x) = 4"
| "upload_left (U_increment c x) = 3"
| "upload_left (U_share c x) = 2"
| "upload_left (U_release c e) = 1"
| "upload_left (U_create c n) = 4"
| "upload_left (U_refer c n) = 3"
| "upload_left (U_forget c e) = 2"
| "upload_left (U_withdraw e) = 1"
| "upload_left (U_done r) = 0"

fun delete_left :: "delete_pc \<Rightarrow> nat" where
  "delete_left D_start = 6"
| "delete_left (D_remove h) = 5"
| "delete_left (D_decrement h) = 4"
| "delete_left (D_lookup h) = 3"
| "delete_left (D_blob h x) = 2"
| "delete_left (D_record h) = 1"
| "delete_left (D_done r) = 0"

lemma upload_left_step:
  "upload_step sv path fileID now rd header (p, s, r) = (p', w') \<Longrightarrow> upload_left p' \<le> upload_left p - 1"
  by (cases p) (auto simp: Let_def split: prod.splits option.splits sum.splits)

lemma delete_left_step: "delete_step sv i (q, s, r) = (q', w') \<Longrightarrow> delete_left q' \<le> delete_left q - 1"
  by (cases q) (auto simp: Let_def split: prod.splits option.splits sum.splits if_splits)

lemma upload_left_done: "upload_left p = 0 \<longleftrightarrow> (\<exists>res. p = U_done res)"
  by (cases p) auto

lemma delete_left_done: "delete_left q = 0 \<longleftrightarrow> (\<exists>res. q = D_done res)"
  by (cases q) auto

lemma par_run_left:
  "par_run (upload_step sv path fileID now rd header) (delete_step sv i) sched (p, q, s, r) = (p', q', w') \<Longrightarrow>
   upload_left p' \<le> upload_left p - count_list sched True \<and> delete_left q' \<le> delete_left q - count_list sched False"
proof (induction sched arbitrary: p q s r)
  case (Cons b bs)
  show ?case
  proof (cases b)
    case True
    obtain p1 s1 r1 where u: "upload_step sv path fileID now rd header (p, s, r) = (p1, s1, r1)" by (metis surj_pair)
    with Cons.prems True have "par_run (upload_step sv path fileID now rd header) (delete_step sv i) bs (p1, q, s1, r1)
        = (p', q', w')" by simp
    from Cons.IH [OF this] upload_left_step [OF u] True show ?thesis by (simp, linarith)
  next
    case False
    obtain q1 s1 r1 where d: "delete_step sv i (q, s, r) = (q1, s1, r1)" by (metis surj_pair)
    with Cons.prems False have "par_run (upload_step sv path fileID now rd header) (delete_step sv i) bs (p, q1, s1, r1)
        = (p', q', w')" by simp
    from Cons.IH [OF this] delete_left_step [OF d] False show ?thesis by (simp, linarith)
  qed
qed simp

text \<open>
  Under every schedule that gives each of the two six turns, in any order, both requests come to an
  end, whatever the calls return.
\<close>

theorem every_schedule_ends:
  assumes "6 \<le> count_list sched True" and "6 \<le> count_list sched False"
  shows "\<exists>res res' w'. par_run (upload_step sv path fileID now rd header) (delete_step sv i) sched
    (U_start, D_start, w) = (U_done res, D_done res', w')"
proof -
  obtain s r where w: "w = (s, r)" by (metis surj_pair)
  obtain p q w' where run: "par_run (upload_step sv path fileID now rd header) (delete_step sv i) sched
      (U_start, D_start, s, r) = (p, q, w')" by (metis surj_pair)
  from par_run_left [OF run] assms have "upload_left p = 0" "delete_left q = 0" by simp_all
  then obtain res res' where "p = U_done res" "q = D_done res'"
    by (auto simp: upload_left_done delete_left_done)
  with run w show ?thesis by blast
qed

theorem every_schedule_ends_witness:
  "\<exists>res res' w'. par_run (upload_step (file_service demo_store) demo_path demo_id 0 (reader_of demo_bytes) demo_header)
     (delete_step (file_service demo_store) demo_id) (concat (replicate 6 [True, False]))
     (U_start, D_start, example_fs, empty_repo) = (U_done res, D_done res', w')"
  by (rule every_schedule_ends) (simp_all add: numeral_eq_Suc)

text \<open>
  The steps are those of the service: when the schedule lets one request make its six calls
  before the other makes any, the two return what \<open>Upload\<close> and \<open>Delete\<close> return one after the
  other, in either order, on any storage and repository.
\<close>

theorem steps_are_requests:
  "par_run (upload_step sv path fileID now rd header) (delete_step sv i) (replicate 6 True @ replicate 6 False)
       (U_start, D_start, w) =
     (case Upload sv path fileID now rd header w of (res, w1) \<Rightarrow>
        case Delete sv i w1 of (res', w2) \<Rightarrow> (U_done res, D_done res', w2))
   \<and> par_run (upload_step sv path fileID now rd header) (delete_step sv i) (replicate 6 False @ replicate 6 True)
       (U_start, D_start, w) =
     (case Delete sv i w of (res', w1) \<Rightarrow>
        case Upload sv path fileID now rd header w1 of (res, w2) \<Rightarrow> (U_done res, D_done res', w2))"
  by (cases w) (simp add: par_run_append par_run_upload par_run_delete upload_run delete_run split: prod.split)

text \<open>
  C15: Two requests that both succeed can lose a file. While the last file with a content is deleted,
  the same content is uploaded again: under one schedule of their calls both answer with success,
  the upload returns its file, and that file cannot be downloaded, because its blob was deleted.
\<close>

theorem race_loses_content:
  assumes "sys_inv ls (s, r)" and "canonical_uuid i" and "files r i = Some f"
    and "storages r (ref_hash f) = Some x" and "ReferenceCount x = 1"
    and "upload_ok canonical_uuid (local_blobs ls s) (files r) path fileID rd header"
    and "ref_hash f = sha256_hex (rd_data rd)" and "cached_file r fileID = None"
  shows "\<exists>sched g s' r' e w''.
      par_run (upload_step (file_service ls) path fileID now rd header) (delete_step (file_service ls) i) sched
        (U_start, D_start, s, r) = (U_done (Inr g), D_done (Ok ()), s', r')
    \<and> ID g = fileID \<and> files r' fileID \<noteq> None
    \<and> Download (file_service ls) fileID (s', r') = (Inl e, w'')"
  using svc.race [OF sys_invD [OF assms(1)] assms(2-8), of now] unfolding file_service_def by blast

theorem race_loses_content_witness:
  "\<exists>sched w g w' e w''.
     par_run (upload_step (file_service demo_store) demo_path2 demo_id2 0 (reader_of demo_bytes) demo_header)
       (delete_step (file_service demo_store) demo_id) sched (U_start, D_start, w)
     = (U_done (Inr g), D_done (Ok ()), w')
   \<and> Download (file_service demo_store) demo_id2 w' = (Inl e, w'')"
proof (rule demo_uploaded)
  fix s r
  assume inv: "sys_inv demo_store (s, r)" and c: "cached_file r = (\<lambda>i. None)"
    and f: "files r = [demo_id \<mapsto> new_ref 0 demo_bytes demo_header]"
    and st: "storages r = [sha256_hex demo_bytes \<mapsto> new_storage demo_path 0 demo_bytes demo_header]"
    and bl: "local_blobs demo_store s = [demo_path \<mapsto> demo_bytes]"
  have up: "upload_ok canonical_uuid (local_blobs demo_store s) (files r)
      demo_path2 demo_id2 (reader_of demo_bytes) demo_header"
    using demo_distinct by (simp add: upload_ok_def demo_uuids2 demo_header_ok bl f)
  show ?thesis
    using race_loses_content [OF inv demo_uuids(2) _ _ _ up, of "new_ref 0 demo_bytes demo_header"
        "new_storage demo_path 0 demo_bytes demo_header" 0] c f st by simp blast
qed

end
