(* ===== verification/Concurrency.thy ===== *)
theory Concurrency
  imports Interleaving
begin

text \<open>
  Any number of uploads and deletes side by side, in the steps of Interleaving. While some are under
  way the deduplication invariant does not hold: a record may count a reference whose row is still to
  come or already gone, a blob may have no record yet, a record whose count is zero has still to go.
  The invariant of this theory accounts for all of it by the program counters of the requests. It
  is kept by the changes that the single calls make, and when every request has ended it is the
  deduplication invariant again.
\<close>

section \<open>The threads\<close>

record job =
  j_path :: string
  j_id :: string
  j_now :: time
  j_rd :: reader
  j_header :: FileHeader

definition job_hash :: "job \<Rightarrow> string" where
  "job_hash j = sha256_hex (rd_data (j_rd j))"

definition job_ref :: "job \<Rightarrow> file_ref" where
  "job_ref j = new_ref (j_now j) (rd_data (j_rd j)) (j_header j)"

definition job_step ::
  "('s, 'r) StorageService \<Rightarrow> job \<Rightarrow> upload_pc \<times> 's \<times> 'r \<Rightarrow> upload_pc \<times> 's \<times> 'r" where
  "job_step sv j = upload_step sv (j_path j) (j_id j) (j_now j) (j_rd j) (j_header j)"

lemma job_ref_hash [simp]: "ref_hash (job_ref j) = job_hash j"
  by (simp add: job_ref_def job_hash_def)

text \<open>One request makes one call.\<close>

type_synonym ('k, 'l, 's, 'r) net = "('k \<Rightarrow> upload_pc) \<times> ('l \<Rightarrow> delete_pc) \<times> 's \<times> 'r"

inductive net_step ::
  "('s, 'r) StorageService \<Rightarrow> 'k set \<Rightarrow> ('k \<Rightarrow> job) \<Rightarrow> 'l set \<Rightarrow> ('l \<Rightarrow> string)
     \<Rightarrow> ('k, 'l, 's, 'r) net \<Rightarrow> ('k, 'l, 's, 'r) net \<Rightarrow> bool" for sv K jobs L ids where
  upload_turn: "k \<in> K \<Longrightarrow> job_step sv (jobs k) (us k, s, r) = (p, s', r') \<Longrightarrow>
    net_step sv K jobs L ids (us, ds, s, r) (us(k := p), ds, s', r')"
| delete_turn: "l \<in> L \<Longrightarrow> delete_step sv (ids l) (ds l, s, r) = (q, s', r') \<Longrightarrow>
    net_step sv K jobs L ids (us, ds, s, r) (us, ds(l := q), s', r')"

inductive net_reach ::
  "('s, 'r) StorageService \<Rightarrow> 'k set \<Rightarrow> ('k \<Rightarrow> job) \<Rightarrow> 'l set \<Rightarrow> ('l \<Rightarrow> string)
     \<Rightarrow> 's \<times> 'r \<Rightarrow> ('k, 'l, 's, 'r) net \<Rightarrow> bool" for sv K jobs L ids w where
  start: "net_reach sv K jobs L ids w (\<lambda>k. U_start, \<lambda>l. D_start, w)"
| step: "net_reach sv K jobs L ids w st \<Longrightarrow> net_step sv K jobs L ids st st' \<Longrightarrow>
    net_reach sv K jobs L ids w st'"

inductive_cases net_stepE: "net_step sv K jobs L ids (us, ds, s, r) st'"

text \<open>The same as a function of the schedule, the requests in the order in which they move.\<close>

fun net_turn ::
  "('s, 'r) StorageService \<Rightarrow> ('k \<Rightarrow> job) \<Rightarrow> ('l \<Rightarrow> string) \<Rightarrow> 'k + 'l \<Rightarrow> ('k, 'l, 's, 'r) net \<Rightarrow> ('k, 'l, 's, 'r) net"
where
  "net_turn sv jobs ids (Inl k) (us, ds, s, r) =
     (case job_step sv (jobs k) (us k, s, r) of (p, s, r) \<Rightarrow> (us(k := p), ds, s, r))"
| "net_turn sv jobs ids (Inr l) (us, ds, s, r) =
     (case delete_step sv (ids l) (ds l, s, r) of (q, s, r) \<Rightarrow> (us, ds(l := q), s, r))"

fun net_exec ::
  "('s, 'r) StorageService \<Rightarrow> ('k \<Rightarrow> job) \<Rightarrow> ('l \<Rightarrow> string) \<Rightarrow> ('k + 'l) list \<Rightarrow> ('k, 'l, 's, 'r) net \<Rightarrow> ('k, 'l, 's, 'r) net"
where
  "net_exec sv jobs ids [] st = st"
| "net_exec sv jobs ids (t # ts) st = net_exec sv jobs ids ts (net_turn sv jobs ids t st)"

definition net_start :: "'w \<Rightarrow> ('k \<Rightarrow> upload_pc) \<times> ('l \<Rightarrow> delete_pc) \<times> 'w" where
  "net_start w = (\<lambda>k. U_start, \<lambda>l. D_start, w)"

lemma net_turn_step:
  assumes "t \<in> K <+> L"
  shows "net_step sv K jobs L ids st (net_turn sv jobs ids t st)"
proof -
  obtain us ds s r where st: "st = (us, ds, s, r)" by (metis surj_pair)
  show ?thesis
  proof (cases t)
    case (Inl k)
    obtain p s' r' where "job_step sv (jobs k) (us k, s, r) = (p, s', r')" by (metis surj_pair)
    moreover have "k \<in> K" using assms Inl by auto
    ultimately show ?thesis using Inl st by (simp add: net_step.upload_turn)
  next
    case (Inr l)
    obtain q s' r' where "delete_step sv (ids l) (ds l, s, r) = (q, s', r')" by (metis surj_pair)
    moreover have "l \<in> L" using assms Inr by auto
    ultimately show ?thesis using Inr st by (simp add: net_step.delete_turn)
  qed
qed

lemma net_exec_snoc: "net_exec sv jobs ids (ts @ [t]) st = net_turn sv jobs ids t (net_exec sv jobs ids ts st)"
  by (induction ts arbitrary: st) simp_all

lemma net_exec_reach:
  "set ts \<subseteq> K <+> L \<Longrightarrow> net_reach sv K jobs L ids w (net_exec sv jobs ids ts (net_start w))"
proof (induction ts rule: rev_induct)
  case Nil
  then show ?case by (simp add: net_start_def net_reach.start)
next
  case (snoc t ts)
  then have "net_reach sv K jobs L ids w (net_exec sv jobs ids ts (net_start w))" "t \<in> K <+> L" by simp_all
  then show ?case unfolding net_exec_snoc by (rule net_reach.step [OF _ net_turn_step])
qed

section \<open>Progress\<close>

text \<open>Every turn takes one call off what its request has still to make, and leaves the others alone.\<close>

lemma net_turn_left:
  assumes "net_turn sv jobs ids t (us, ds, w) = (us', ds', w')"
  shows "upload_left (us' k) \<le> upload_left (us k) - (if t = Inl k then 1 else 0)"
    and "delete_left (ds' l) \<le> delete_left (ds l) - (if t = Inr l then 1 else 0)"
proof -
  obtain s r where w: "w = (s, r)" by (metis surj_pair)
  have "upload_left (us' k) \<le> upload_left (us k) - (if t = Inl k then 1 else 0)
      \<and> delete_left (ds' l) \<le> delete_left (ds l) - (if t = Inr l then 1 else 0)"
  proof (cases t)
    case (Inl i)
    obtain p v where p: "job_step sv (jobs i) (us i, s, r) = (p, v)" by (metis surj_pair)
    from upload_left_step [OF this [unfolded job_step_def]] show ?thesis
      using assms p Inl w by (auto split: prod.splits)
  next
    case (Inr i)
    obtain q v where q: "delete_step sv (ids i) (ds i, s, r) = (q, v)" by (metis surj_pair)
    from delete_left_step [OF this] show ?thesis using assms q Inr w by (auto split: prod.splits)
  qed
  then show "upload_left (us' k) \<le> upload_left (us k) - (if t = Inl k then 1 else 0)"
    and "delete_left (ds' l) \<le> delete_left (ds l) - (if t = Inr l then 1 else 0)" by simp_all
qed

lemma net_exec_left:
  assumes "net_exec sv jobs ids ts (us, ds, w) = (us', ds', w')"
  shows "upload_left (us' k) \<le> upload_left (us k) - count_list ts (Inl k)
    \<and> delete_left (ds' l) \<le> delete_left (ds l) - count_list ts (Inr l)"
  using assms
proof (induction ts arbitrary: us ds w)
  case (Cons t ts)
  obtain us1 ds1 w1 where turn: "net_turn sv jobs ids t (us, ds, w) = (us1, ds1, w1)" by (metis surj_pair)
  with Cons.prems have "net_exec sv jobs ids ts (us1, ds1, w1) = (us', ds', w')" by simp
  from Cons.IH [OF this] net_turn_left(1) [OF turn, of k] net_turn_left(2) [OF turn, of l] show ?case
    by (cases t) auto
qed simp

definition ended :: "'k set \<Rightarrow> ('k \<Rightarrow> upload_pc) \<Rightarrow> 'l set \<Rightarrow> ('l \<Rightarrow> delete_pc) \<Rightarrow> bool" where
  "ended K us L ds \<longleftrightarrow> (\<forall>k \<in> K. upload_left (us k) = 0) \<and> (\<forall>l \<in> L. delete_left (ds l) = 0)"

lemma net_exec_ended:
  assumes "net_exec sv jobs ids ts (net_start w) = (us, ds, w')"
    and "\<And>k. k \<in> K \<Longrightarrow> 6 \<le> count_list ts (Inl k)" "\<And>l. l \<in> L \<Longrightarrow> 6 \<le> count_list ts (Inr l)"
  shows "ended K us L ds"
proof -
  note left = net_exec_left [OF assms(1) [unfolded net_start_def]]
  have "upload_left (us k) = 0" if "k \<in> K" for k using left [of k] assms(2) [OF that] by simp
  moreover have "delete_left (ds l) = 0" if "l \<in> L" for l using left [of _ l] assms(3) [OF that] by simp
  ultimately show ?thesis by (simp add: ended_def)
qed

text \<open>Under a schedule in which every request has a turn again and again, six turns come at last.\<close>

lemma six_turns:
  assumes "infinite {n. sched n = t}"
  shows "\<exists>N. \<forall>n \<ge> N. 6 \<le> count_list (map sched [0..<n]) t"
proof -
  obtain A where A: "finite A" "card A = 6" "A \<subseteq> {n. sched n = t}"
    using infinite_arbitrarily_large [OF assms, of 6] by blast
  have "6 \<le> count_list (map sched [0..<n]) t" if "Suc (Max A) \<le> n" for n
  proof -
    have "A \<subseteq> {i. i < n \<and> sched i = t}"
    proof
      fix i assume "i \<in> A"
      then show "i \<in> {i. i < n \<and> sched i = t}" using Max_ge [OF A(1)] A(3) that by fastforce
    qed
    then have "card A \<le> card {i. i < n \<and> sched i = t}" by (intro card_mono) simp_all
    also have "\<dots> = count_list (map sched [0..<n]) t"
    proof (induction n)
      case (Suc n)
      have "{i. i < Suc n \<and> sched i = t} = (if sched n = t then insert n {i. i < n \<and> sched i = t} else {i. i < n \<and> sched i = t})"
        by (auto simp: less_Suc_eq)
      then show ?case using Suc by simp
    qed simp
    finally show ?thesis using A(2) by simp
  qed
  then show ?thesis by blast
qed

lemma eventually_all:
  assumes "finite A" "\<And>a. a \<in> A \<Longrightarrow> \<exists>N. \<forall>n \<ge> N. P a (n :: nat)"
  shows "\<exists>N. \<forall>n \<ge> N. \<forall>a \<in> A. P a n"
  using assms
proof (induction rule: finite_induct)
  case (insert a A)
  then obtain N M where "\<forall>n \<ge> N. \<forall>a \<in> A. P a n" "\<forall>n \<ge> M. P a n" by blast
  then have "\<forall>n \<ge> max N M. \<forall>b \<in> insert a A. P b n" by simp
  then show ?case by blast
qed simp

section \<open>What is counted\<close>

text \<open>Uploads that have been counted and have no row yet, and uploads whose blob has no record.\<close>

fun pends :: "upload_pc \<Rightarrow> bool" where
  "pends (U_share c x) = True"
| "pends (U_refer c n) = True"
| "pends p = False"

fun holds :: "upload_pc \<Rightarrow> bool" where
  "holds (U_lookup c n) = True"
| "holds (U_discard c x) = True"
| "holds (U_create c n) = True"
| "holds (U_withdraw e) = True"
| "holds p = False"

text \<open>Deletes that have brought a count to zero.\<close>

fun dying_at :: "delete_pc \<Rightarrow> string option" where
  "dying_at (D_lookup h) = Some h"
| "dying_at (D_blob h x) = Some h"
| "dying_at (D_record h) = Some h"
| "dying_at q = None"

fun hash_at :: "delete_pc \<Rightarrow> string option" where
  "hash_at (D_remove h) = Some h"
| "hash_at (D_decrement h) = Some h"
| "hash_at q = dying_at q"

definition pending :: "'k set \<Rightarrow> ('k \<Rightarrow> job) \<Rightarrow> ('k \<Rightarrow> upload_pc) \<Rightarrow> string \<Rightarrow> 'k set" where
  "pending K jobs us h = {k \<in> K. pends (us k) \<and> job_hash (jobs k) = h}"

definition dropped :: "'l set \<Rightarrow> ('l \<Rightarrow> delete_pc) \<Rightarrow> string \<Rightarrow> nat" where
  "dropped L ds h = card {l \<in> L. ds l = D_decrement h}"

definition dying :: "'l set \<Rightarrow> ('l \<Rightarrow> delete_pc) \<Rightarrow> string \<Rightarrow> bool" where
  "dying L ds h \<longleftrightarrow> (\<exists>l \<in> L. dying_at (ds l) = Some h)"

text \<open>The rows, the rows to come, and the rows gone that are still counted (\<open>m\<close>).\<close>

definition counted ::
  "(string \<Rightarrow> nat) \<Rightarrow> 'k set \<Rightarrow> ('k \<Rightarrow> job) \<Rightarrow> ('k \<Rightarrow> upload_pc) \<Rightarrow> (string \<Rightarrow> file_ref option) \<Rightarrow> string \<Rightarrow> nat"
where
  "counted m K jobs us F h = card (referrers F h) + card (pending K jobs us h) + m h"

definition unfinished :: "'k set \<Rightarrow> ('k \<Rightarrow> upload_pc) \<Rightarrow> 'k set" where
  "unfinished K us = {k \<in> K. \<nexists>res. us k = U_done res}"

lemma pending_upd:
  "k \<in> K \<Longrightarrow> pending K jobs (us(k := p)) h =
    (if pends p \<and> job_hash (jobs k) = h then insert k (pending K jobs us h) else pending K jobs us h - {k})"
  by (auto simp: pending_def)

lemma finite_pending: "finite K \<Longrightarrow> finite (pending K jobs us h)"
  by (simp add: pending_def)

lemma counted_quiet:
  assumes "k \<in> K" "pends p = pends (us k)"
  shows "counted m K jobs (us(k := p)) F = counted m K jobs us F"
proof -
  have "pending K jobs (us(k := p)) h = pending K jobs us h" for h
    using assms by (auto simp: pending_def)
  then show ?thesis by (simp add: counted_def fun_eq_iff)
qed

lemma counted_enter:
  assumes "finite K" "k \<in> K" "\<not> pends (us k)" "pends p"
  shows "counted m K jobs (us(k := p)) F h = counted m K jobs us F h + (if h = job_hash (jobs k) then 1 else 0)"
proof -
  have "k \<notin> pending K jobs us h" using assms(3) by (simp add: pending_def)
  then show ?thesis using assms finite_pending [OF assms(1), of jobs us h]
    by (auto simp: counted_def pending_upd)
qed

lemma counted_leave:
  assumes "finite K" "k \<in> K" "pends (us k)" "\<not> pends p" "finite (dom F)" "F i = None" "ref_hash f = job_hash (jobs k)"
  shows "counted m K jobs (us(k := p)) (F(i \<mapsto> f)) h = counted m K jobs us F h"
proof (cases "h = job_hash (jobs k)")
  case True
  have "k \<in> pending K jobs us h" using assms(2,3) True by (simp add: pending_def)
  then have "card (pending K jobs us h - {k}) + 1 = card (pending K jobs us h)"
    using card_Suc_Diff1 [OF finite_pending [OF assms(1)]] by (metis Suc_eq_plus1)
  moreover have "i \<notin> referrers F h" using assms(6) by (auto simp: referrers_def)
  moreover have "referrers (F(i \<mapsto> f)) h = insert i (referrers F h)"
    using referrers_upd_same [of F i f] assms(7) True by simp
  ultimately show ?thesis using assms(2,4) finite_referrers [OF assms(5), of h]
    by (simp add: counted_def pending_upd)
next
  case False
  then have "k \<notin> pending K jobs us h" by (auto simp: pending_def)
  then have "pending K jobs (us(k := p)) h = pending K jobs us h" using assms(2,4) by (simp add: pending_upd)
  then show ?thesis using False assms(6,7) by (simp add: counted_def referrers_upd_other)
qed

lemma finite_unfinished: "finite K \<Longrightarrow> finite (unfinished K us)"
  by (simp add: unfinished_def)

lemma card_unfinished_le:
  assumes "finite K" "\<nexists>res. us k = U_done res" "k \<in> K"
  shows "card (unfinished K (us(k := p))) \<le> card (unfinished K us)"
  using assms by (intro card_mono finite_unfinished) (auto simp: unfinished_def)

lemma card_unfinished_done:
  assumes "finite K" "k \<in> K" "\<nexists>res. us k = U_done res"
  shows "card (unfinished K (us(k := U_done res))) + 1 = card (unfinished K us)"
proof -
  have "unfinished K (us(k := U_done res)) = unfinished K us - {k}" "k \<in> unfinished K us"
    using assms(2,3) by (auto simp: unfinished_def)
  then show ?thesis using card_Suc_Diff1 [OF finite_unfinished [OF assms(1)]] by (metis Suc_eq_plus1)
qed

lemma counted_le:
  assumes "finite K" "finite (dom F)"
  shows "counted m K jobs us F h \<le> card (dom F) + card (unfinished K us) + m h"
proof -
  have "pends p \<Longrightarrow> \<nexists>res. p = U_done res" for p by auto
  then have "card (pending K jobs us h) \<le> card (unfinished K us)"
    using assms(1) by (intro card_mono finite_unfinished) (auto simp: pending_def unfinished_def)
  moreover have "card (referrers F h) \<le> card (dom F)" using assms(2) by (rule card_referrers_le)
  ultimately show ?thesis by (simp add: counted_def)
qed

lemma dropped_le: "finite L \<Longrightarrow> dropped L ds h \<le> card L"
  unfolding dropped_def by (rule card_mono) auto

lemma dropped_enter:
  assumes "finite L" "l \<in> L" "ds l = D_remove h"
  shows "dropped L (ds(l := D_decrement h)) h' = dropped L ds h' + (if h' = h then 1 else 0)"
proof -
  have "{l' \<in> L. (ds(l := D_decrement h)) l' = D_decrement h'} =
      (if h' = h then insert l {l' \<in> L. ds l' = D_decrement h'} else {l' \<in> L. ds l' = D_decrement h'})"
    using assms(2,3) by auto
  then show ?thesis using assms by (simp add: dropped_def card_insert_if)
qed

lemma dropped_leave:
  assumes "finite L" "l \<in> L" "ds l = D_decrement h" "\<And>g. q \<noteq> D_decrement g"
  shows "dropped L ds h' = dropped L (ds(l := q)) h' + (if h' = h then 1 else 0)"
proof -
  have "{l' \<in> L. ds l' = D_decrement h'} =
      (if h' = h then insert l {l' \<in> L. (ds(l := q)) l' = D_decrement h'} else {l' \<in> L. (ds(l := q)) l' = D_decrement h'})"
    using assms(2-4) by auto
  then show ?thesis using assms by (simp add: dropped_def card_insert_if)
qed

lemma dropped_quiet:
  assumes "\<And>g. ds l \<noteq> D_decrement g" "\<And>g. q \<noteq> D_decrement g"
  shows "dropped L (ds(l := q)) = dropped L ds"
proof -
  have "{l' \<in> L. (ds(l := q)) l' = D_decrement h} = {l' \<in> L. ds l' = D_decrement h}" for h
    using assms by auto
  then show ?thesis by (simp add: dropped_def fun_eq_iff)
qed

lemma dyingI: "l \<in> L \<Longrightarrow> dying_at (ds l) = Some h \<Longrightarrow> dying L ds h"
  by (auto simp: dying_def)

lemma dying_split: "l \<in> L \<Longrightarrow> dying L ds h \<longleftrightarrow> dying_at (ds l) = Some h \<or> (\<exists>l' \<in> L - {l}. dying_at (ds l') = Some h)"
  by (auto simp: dying_def)

lemma dying_upd: "l \<in> L \<Longrightarrow> dying L (ds(l := q)) h \<longleftrightarrow> dying_at q = Some h \<or> (\<exists>l' \<in> L - {l}. dying_at (ds l') = Some h)"
  by (auto simp: dying_def split: if_splits)

lemma dying_quiet: "dying_at q = dying_at (ds l) \<Longrightarrow> dying L (ds(l := q)) = dying L ds"
  by (auto simp: dying_def fun_eq_iff)

section \<open>The invariant of the uploads\<close>

text \<open>
  What a request has done and found so far; \<open>S\<close>, \<open>F\<close> and \<open>B\<close> are the storage records, the file rows and
  the blobs.
\<close>

fun thread_ok ::
  "job \<Rightarrow> (string \<Rightarrow> Storage option) \<Rightarrow> (string \<Rightarrow> file_ref option) \<Rightarrow> (string \<Rightarrow> bytes option) \<Rightarrow> upload_pc \<Rightarrow> bool"
where
  "thread_ok j S F B U_start \<longleftrightarrow> B (j_path j) = None \<and> F (j_id j) = None"
| "thread_ok j S F B (U_lookup c n) \<longleftrightarrow> c = job_hash j \<and> n = int (length (rd_data (j_rd j))) \<and> F (j_id j) = None"
| "thread_ok j S F B (U_discard c x) \<longleftrightarrow> c = job_hash j \<and> S c \<noteq> None \<and> F (j_id j) = None"
| "thread_ok j S F B (U_increment c x) \<longleftrightarrow> c = job_hash j \<and> S c \<noteq> None \<and> F (j_id j) = None"
| "thread_ok j S F B (U_share c x) \<longleftrightarrow> c = job_hash j \<and> S c \<noteq> None \<and> F (j_id j) = None"
| "thread_ok j S F B (U_release c e) \<longleftrightarrow> False"
| "thread_ok j S F B (U_create c n) \<longleftrightarrow> c = job_hash j \<and> n = int (length (rd_data (j_rd j))) \<and> F (j_id j) = None"
| "thread_ok j S F B (U_withdraw e) \<longleftrightarrow> S (job_hash j) \<noteq> None \<and> F (j_id j) = None"
| "thread_ok j S F B (U_refer c n) \<longleftrightarrow> c = job_hash j \<and> S c \<noteq> None \<and> F (j_id j) = None"
| "thread_ok j S F B (U_forget c e) \<longleftrightarrow> False"
| "thread_ok j S F B (U_done res) \<longleftrightarrow>
     (case res of Inl e \<Rightarrow> F (j_id j) = None | Inr f \<Rightarrow> ID f = j_id j \<and> F (j_id j) = Some (job_ref j))"

text \<open>An upload whose content no other upload has does not find its record taken.\<close>

definition alone :: "'k set \<Rightarrow> ('k \<Rightarrow> job) \<Rightarrow> 'k \<Rightarrow> bool" where
  "alone K jobs k \<longleftrightarrow> (\<forall>i \<in> K. i \<noteq> k \<longrightarrow> job_hash (jobs i) \<noteq> job_hash (jobs k))"

fun alone_at :: "Storage option \<Rightarrow> upload_pc \<Rightarrow> bool" where
  "alone_at x (U_create c n) \<longleftrightarrow> x = None"
| "alone_at x (U_withdraw e) \<longleftrightarrow> False"
| "alone_at x (U_done (Inl e)) \<longleftrightarrow> False"
| "alone_at x p \<longleftrightarrow> True"

definition alone_ok :: "'k set \<Rightarrow> ('k \<Rightarrow> job) \<Rightarrow> ('k \<Rightarrow> upload_pc) \<Rightarrow> (string \<Rightarrow> Storage option) \<Rightarrow> bool" where
  "alone_ok K jobs us S \<longleftrightarrow> (\<forall>k \<in> K. alone K jobs k \<longrightarrow> alone_at (S (job_hash (jobs k))) (us k))"

lemma alone_step:
  assumes "alone_ok K jobs us S" "k \<in> K" "alone K jobs k \<Longrightarrow> alone_at (S' (job_hash (jobs k))) p"
    and "\<And>h. h \<noteq> job_hash (jobs k) \<Longrightarrow> S' h = S h"
  shows "alone_ok K jobs (us(k := p)) S'"
proof -
  have "alone_at (S' (job_hash (jobs i))) ((us(k := p)) i)" if "i \<in> K" "alone K jobs i" for i
  proof (cases "i = k")
    case False
    then have "job_hash (jobs k) \<noteq> job_hash (jobs i)" using that assms(2) by (auto simp: alone_def)
    then show ?thesis using assms(1,4) that False by (auto simp: alone_ok_def)
  qed (use assms(3) that in simp)
  then show ?thesis by (simp add: alone_ok_def)
qed

lemma alone_okD: "alone_ok K jobs us S \<Longrightarrow> k \<in> K \<Longrightarrow> alone K jobs k \<Longrightarrow> alone_at (S (job_hash (jobs k))) (us k)"
  by (simp add: alone_ok_def)

lemma alone_beside: "alone_ok K jobs us S \<Longrightarrow> (\<And>k. k \<in> K \<Longrightarrow> job_hash (jobs k) \<noteq> h) \<Longrightarrow> alone_ok K jobs us (S(h := y))"
  by (simp add: alone_ok_def)

text \<open>
  A record has the count \<open>n\<close>; its blob is there unless the record is dying (\<open>dead\<close>), and it is dying
  when the count is zero.
\<close>

definition records_ok ::
  "(string \<Rightarrow> bool) \<Rightarrow> (string \<Rightarrow> nat) \<Rightarrow> (string \<Rightarrow> bool) \<Rightarrow> (string \<Rightarrow> Storage option)
     \<Rightarrow> (string \<Rightarrow> bytes option) \<Rightarrow> bool" where
  "records_ok path_ok n dead S B \<longleftrightarrow>
     (\<forall>h x. S h = Some x \<longrightarrow> ReferenceCount x = int (n h) \<and> (n h = 0 \<longleftrightarrow> dead h) \<and> path_ok (StStoragePath x)
        \<and> (dead h \<or> (\<exists>c. B (StStoragePath x) = Some c \<and> sha256_hex c = h \<and> StSize x = int (length c))))"

definition owned :: "'k set \<Rightarrow> ('k \<Rightarrow> job) \<Rightarrow> ('k \<Rightarrow> upload_pc) \<Rightarrow> string \<Rightarrow> bool" where
  "owned K jobs us p \<longleftrightarrow> (\<exists>k \<in> K. holds (us k) \<and> p = j_path (jobs k))"

definition blobs_ok ::
  "(string \<Rightarrow> bool) \<Rightarrow> (string \<Rightarrow> bool) \<Rightarrow> (string \<Rightarrow> Storage option) \<Rightarrow> (string \<Rightarrow> bytes option) \<Rightarrow> bool" where
  "blobs_ok path_ok own S B \<longleftrightarrow>
     (\<forall>p. path_ok p \<and> B p \<noteq> None \<longrightarrow> own p \<or> (\<exists>h x. S h = Some x \<and> StStoragePath x = p))"

definition held_ok ::
  "'k set \<Rightarrow> ('k \<Rightarrow> job) \<Rightarrow> ('k \<Rightarrow> upload_pc) \<Rightarrow> (string \<Rightarrow> Storage option) \<Rightarrow> (string \<Rightarrow> bytes option) \<Rightarrow> bool" where
  "held_ok K jobs us S B \<longleftrightarrow>
     (\<forall>k \<in> K. (holds (us k) \<longrightarrow> B (j_path (jobs k)) = Some (rd_data (j_rd (jobs k))))
        \<and> (holds (us k) \<or> us k = U_start \<longrightarrow> (\<forall>h x. S h = Some x \<longrightarrow> StStoragePath x \<noteq> j_path (jobs k))))"

definition uploads_inv ::
  "(string \<Rightarrow> bool) \<Rightarrow> (string \<Rightarrow> nat) \<Rightarrow> (string \<Rightarrow> bool) \<Rightarrow> 'k set \<Rightarrow> ('k \<Rightarrow> job) \<Rightarrow> ('k \<Rightarrow> upload_pc)
     \<Rightarrow> (string \<Rightarrow> Storage option) \<Rightarrow> (string \<Rightarrow> file_ref option) \<Rightarrow> (string \<Rightarrow> bytes option) \<Rightarrow> bool" where
  "uploads_inv path_ok m dead K jobs us S F B \<longleftrightarrow>
     records_ok path_ok (counted m K jobs us F) dead S B \<and> (\<forall>h. S h = None \<longrightarrow> counted m K jobs us F h = 0)
   \<and> blobs_ok path_ok (owned K jobs us) S B \<and> held_ok K jobs us S B
   \<and> (\<forall>k \<in> K. thread_ok (jobs k) S F B (us k)) \<and> (\<forall>k \<in> K. \<not> dead (job_hash (jobs k)))
   \<and> alone_ok K jobs us S"

text \<open>The conditions on the uploads: each is acceptable, and no two share an id or a path.\<close>

definition jobs_ok :: "(string \<Rightarrow> bool) \<Rightarrow> 'k set \<Rightarrow> ('k \<Rightarrow> job) \<Rightarrow> bool" where
  "jobs_ok id_ok K jobs \<longleftrightarrow> finite K \<and> inj_on (\<lambda>k. j_path (jobs k)) K \<and> inj_on (\<lambda>k. j_id (jobs k)) K
   \<and> (\<forall>k \<in> K. ValidateFile (Some (j_header (jobs k))) = None \<and> ValidString (HName (j_header (jobs k)))
        \<and> rd_err (j_rd (jobs k)) = None \<and> id_ok (j_path (jobs k)) \<and> id_ok (j_id (jobs k)))"

lemma jobs_okD:
  assumes "jobs_ok id_ok K jobs"
  shows "finite K" "inj_on (\<lambda>k. j_path (jobs k)) K" "inj_on (\<lambda>k. j_id (jobs k)) K"
    "k \<in> K \<Longrightarrow> ValidateFile (Some (j_header (jobs k))) = None" "k \<in> K \<Longrightarrow> ValidString (HName (j_header (jobs k)))"
    "k \<in> K \<Longrightarrow> rd_err (j_rd (jobs k)) = None" "k \<in> K \<Longrightarrow> id_ok (j_path (jobs k))" "k \<in> K \<Longrightarrow> id_ok (j_id (jobs k))"
    "i \<in> K \<Longrightarrow> k \<in> K \<Longrightarrow> i \<noteq> k \<Longrightarrow> j_path (jobs i) \<noteq> j_path (jobs k)"
    "i \<in> K \<Longrightarrow> k \<in> K \<Longrightarrow> i \<noteq> k \<Longrightarrow> j_id (jobs i) \<noteq> j_id (jobs k)"
  using assms by (auto simp: jobs_ok_def inj_on_def)

lemma uploads_invD:
  assumes "uploads_inv path_ok m dead K jobs us S F B"
  shows "records_ok path_ok (counted m K jobs us F) dead S B" "S h = None \<Longrightarrow> counted m K jobs us F h = 0"
    "blobs_ok path_ok (owned K jobs us) S B" "held_ok K jobs us S B"
    "k \<in> K \<Longrightarrow> thread_ok (jobs k) S F B (us k)" "k \<in> K \<Longrightarrow> \<not> dead (job_hash (jobs k))"
    "alone_ok K jobs us S"
  using assms by (simp_all add: uploads_inv_def)

lemma thread_mono:
  assumes "thread_ok j S F B p" "S (job_hash j) \<noteq> None \<Longrightarrow> S' (job_hash j) \<noteq> None" "F' (j_id j) = F (j_id j)"
    and "p = U_start \<Longrightarrow> B' (j_path j) = None"
  shows "thread_ok j S' F' B' p"
  using assms by (cases p) (auto split: sum.splits)

lemma owned_upd:
  "k \<in> K \<Longrightarrow> inj_on (\<lambda>k. j_path (jobs k)) K \<Longrightarrow>
   owned K jobs (us(k := p)) q \<longleftrightarrow> (if q = j_path (jobs k) then holds p else owned K jobs us q)"
  by (auto simp: owned_def inj_on_def split: if_splits)

lemma owned_quiet: "holds p = holds (us k) \<Longrightarrow> owned K jobs (us(k := p)) = owned K jobs us"
  by (auto simp: owned_def fun_eq_iff)

lemma held_path:
  "held_ok K jobs us S B \<Longrightarrow> k \<in> K \<Longrightarrow> holds (us k) \<or> us k = U_start \<Longrightarrow> S h = Some x \<Longrightarrow> StStoragePath x \<noteq> j_path (jobs k)"
  by (auto simp: held_ok_def)

lemma held_blob:
  "held_ok K jobs us S B \<Longrightarrow> k \<in> K \<Longrightarrow> holds (us k) \<Longrightarrow> B (j_path (jobs k)) = Some (rd_data (j_rd (jobs k)))"
  by (simp add: held_ok_def)

lemma records_okD:
  assumes "records_ok path_ok n dead S B" "S h = Some x"
  shows "ReferenceCount x = int (n h)" "n h = 0 \<longleftrightarrow> dead h" "path_ok (StStoragePath x)"
    "\<not> dead h \<Longrightarrow> \<exists>c. B (StStoragePath x) = Some c \<and> sha256_hex c = h \<and> StSize x = int (length c)"
  using assms by (auto simp: records_ok_def)

section \<open>The changes an upload makes\<close>

lemma uploads_move:
  assumes inv: "uploads_inv path_ok m dead K jobs us S F B" and k: "k \<in> K"
    and p: "pends p = pends (us k)" "holds p = holds (us k)" "p \<noteq> U_start"
    and thread: "thread_ok (jobs k) S F B p" and alone: "alone K jobs k \<Longrightarrow> alone_at (S (job_hash (jobs k))) p"
  shows "uploads_inv path_ok m dead K jobs (us(k := p)) S F B"
proof -
  note inv = uploads_invD [OF inv]
  have "counted m K jobs (us(k := p)) F = counted m K jobs us F"
    using counted_quiet [where us = us, OF k p(1)] .
  moreover have "held_ok K jobs (us(k := p)) S B" using inv(4) p(2,3) by (auto simp: held_ok_def)
  ultimately show ?thesis
    using inv thread owned_quiet [where us = us, OF p(2)] alone_step [where S' = S and p = p, OF inv(7) k alone] by (simp add: uploads_inv_def)
qed

lemma uploads_put:
  assumes inv: "uploads_inv path_ok m dead K jobs us S F B" and ok: "jobs_ok id_ok K jobs" "k \<in> K"
    and p: "us k = U_start" "holds p" "\<not> pends p"
    and thread: "thread_ok (jobs k) S F (B(j_path (jobs k) \<mapsto> rd_data (j_rd (jobs k)))) p"
    and alone: "alone K jobs k \<Longrightarrow> alone_at (S (job_hash (jobs k))) p"
  shows "uploads_inv path_ok m dead K jobs (us(k := p)) S F (B(j_path (jobs k) \<mapsto> rd_data (j_rd (jobs k))))"
    (is "uploads_inv _ _ _ _ _ ?us _ _ ?B")
proof -
  note inv = uploads_invD [OF inv] and ok' = jobs_okD [OF ok(1)]
  have apart: "StStoragePath x \<noteq> j_path (jobs k)" if "S h = Some x" for h x
    using held_path [OF inv(4) ok(2) _ that] p(1) by simp
  have "counted m K jobs ?us F = counted m K jobs us F"
    using counted_quiet [where us = us, OF ok(2)] p by simp
  moreover have "records_ok path_ok (counted m K jobs us F) dead S ?B"
    using inv(1) apart by (simp add: records_ok_def)
  moreover have "blobs_ok path_ok (owned K jobs ?us) S ?B"
    using inv(3) p(2) by (simp add: blobs_ok_def owned_upd [OF ok(2) ok'(2)])
  moreover have "held_ok K jobs ?us S ?B"
    using inv(4) apart ok'(9) [OF _ ok(2)] by (auto simp: held_ok_def)
  moreover have "thread_ok (jobs i) S F ?B (?us i)" if "i \<in> K" for i
  proof (cases "i = k")
    case False
    then show ?thesis using inv(5) [OF that] ok'(9) [OF that ok(2)] by (auto intro!: thread_mono [OF inv(5) [OF that]])
  qed (simp add: thread)
  ultimately show ?thesis using inv(2,6) alone_step [where S' = S and p = p, OF inv(7) ok(2) alone] by (simp add: uploads_inv_def)
qed

lemma uploads_drop:
  assumes inv: "uploads_inv path_ok m dead K jobs us S F B" and ok: "jobs_ok id_ok K jobs" "k \<in> K"
    and p: "holds (us k)" "\<not> holds p" "\<not> pends p" "p \<noteq> U_start"
    and thread: "thread_ok (jobs k) S F (B(j_path (jobs k) := None)) p"
    and alone: "alone K jobs k \<Longrightarrow> alone_at (S (job_hash (jobs k))) p"
  shows "uploads_inv path_ok m dead K jobs (us(k := p)) S F (B(j_path (jobs k) := None))"
    (is "uploads_inv _ _ _ _ _ ?us _ _ ?B")
proof -
  note inv = uploads_invD [OF inv] and ok' = jobs_okD [OF ok(1)]
  have pk: "\<not> pends (us k)" using p(1) by (cases "us k") simp_all
  have apart: "StStoragePath x \<noteq> j_path (jobs k)" if "S h = Some x" for h x
    using held_path [OF inv(4) ok(2) _ that] p(1) by simp
  have "counted m K jobs ?us F = counted m K jobs us F"
    using counted_quiet [where us = us, OF ok(2)] p pk by simp
  moreover have "records_ok path_ok (counted m K jobs us F) dead S ?B"
    using inv(1) apart by (simp add: records_ok_def)
  moreover have "blobs_ok path_ok (owned K jobs ?us) S ?B"
    using inv(3) by (simp add: blobs_ok_def owned_upd [OF ok(2) ok'(2)])
  moreover have "held_ok K jobs ?us S ?B"
    using inv(4) p(2,4) ok'(9) [OF _ ok(2)] by (auto simp: held_ok_def)
  moreover have "thread_ok (jobs i) S F ?B (?us i)" if "i \<in> K" for i
  proof (cases "i = k")
    case False
    then show ?thesis using inv(5) [OF that] by (auto intro!: thread_mono [OF inv(5) [OF that]])
  qed (simp add: thread)
  ultimately show ?thesis using inv(2,6) alone_step [where S' = S and p = p, OF inv(7) ok(2) alone] by (simp add: uploads_inv_def)
qed

lemma blobs_upd:
  assumes "blobs_ok path_ok own S B" "S h = Some x" "StStoragePath x' = StStoragePath x"
  shows "blobs_ok path_ok own (S(h \<mapsto> x')) B"
  unfolding blobs_ok_def
proof (intro allI impI)
  fix q assume "path_ok q \<and> B q \<noteq> None"
  then consider "own q" | g y where "S g = Some y" "StStoragePath y = q"
    using assms(1) unfolding blobs_ok_def by blast
  then show "own q \<or> (\<exists>g y. (S(h \<mapsto> x')) g = Some y \<and> StStoragePath y = q)"
  proof cases
    case 2
    then show ?thesis using assms(2,3) by (cases "g = h") auto
  qed simp
qed

lemma uploads_increment:
  assumes inv: "uploads_inv path_ok m dead K jobs us S F B" and ok: "jobs_ok id_ok K jobs" "k \<in> K"
    and p: "\<not> holds (us k)" "\<not> holds p" "\<not> pends (us k)" "pends p" "p \<noteq> U_start"
    and S: "S (job_hash (jobs k)) = Some x" "ReferenceCount x' = ReferenceCount x + 1"
      "StStoragePath x' = StStoragePath x" "StSize x' = StSize x"
    and alone: "\<And>y. alone_at y p"
    and thread: "thread_ok (jobs k) (S(job_hash (jobs k) \<mapsto> x')) F B p"
  shows "uploads_inv path_ok m dead K jobs (us(k := p)) (S(job_hash (jobs k) \<mapsto> x')) F B"
    (is "uploads_inv _ _ _ _ _ ?us ?S _ _")
proof -
  note inv = uploads_invD [OF inv] and ok' = jobs_okD [OF ok(1)]
  have cnt: "counted m K jobs ?us F h = counted m K jobs us F h + (if h = job_hash (jobs k) then 1 else 0)" for h
    using counted_enter [where us = us, OF ok'(1) ok(2) p(3,4)] .
  have "records_ok path_ok (counted m K jobs ?us F) dead ?S B"
    using inv(1) S records_okD [OF inv(1) S(1)] inv(6) [OF ok(2)] by (simp add: records_ok_def cnt)
  moreover have "blobs_ok path_ok (owned K jobs ?us) ?S B"
    using blobs_upd [OF inv(3) S(1,3)] owned_quiet [of p us k] p(1,2) by simp
  moreover have "held_ok K jobs ?us ?S B"
    using inv(4) p(2,5) S(1,3) by (auto simp: held_ok_def)
  moreover have "thread_ok (jobs i) ?S F B (?us i)" if "i \<in> K" for i
  proof (cases "i = k")
    case False
    then show ?thesis using inv(5) [OF that] by (auto intro!: thread_mono [OF inv(5) [OF that]])
  qed (simp add: thread)
  ultimately show ?thesis
    using inv(2,6) alone_step [where S' = ?S and p = p, OF inv(7) ok(2) alone] by (simp add: uploads_inv_def cnt)
qed

lemma uploads_record:
  assumes inv: "uploads_inv path_ok m dead K jobs us S F B" and ok: "jobs_ok id_ok K jobs" "k \<in> K"
    and p: "holds (us k)" "\<not> holds p" "pends p"
    and S: "S (job_hash (jobs k)) = None" "ReferenceCount x = 1" "StStoragePath x = j_path (jobs k)"
      "StSize x = int (length (rd_data (j_rd (jobs k))))"
    and path: "path_ok (j_path (jobs k))"
    and alone: "\<And>y. alone_at y p"
    and thread: "thread_ok (jobs k) (S(job_hash (jobs k) \<mapsto> x)) F B p"
  shows "uploads_inv path_ok m dead K jobs (us(k := p)) (S(job_hash (jobs k) \<mapsto> x)) F B"
    (is "uploads_inv _ _ _ _ _ ?us ?S _ _")
proof -
  let ?h = "job_hash (jobs k)"
  note inv = uploads_invD [OF inv] and ok' = jobs_okD [OF ok(1)]
  have pk: "\<not> pends (us k)" "p \<noteq> U_start" using p(1,3) by (cases "us k"; auto)+
  have blob: "B (j_path (jobs k)) = Some (rd_data (j_rd (jobs k)))" using held_blob [OF inv(4) ok(2) p(1)] .
  have cnt: "counted m K jobs ?us F h = counted m K jobs us F h + (if h = ?h then 1 else 0)" for h
    using counted_enter [where us = us, OF ok'(1) ok(2) pk(1) p(3)] .
  have "records_ok path_ok (counted m K jobs ?us F) dead ?S B"
    using inv(1) S path blob inv(2) [OF S(1)] inv(6) [OF ok(2)]
    by (simp add: records_ok_def cnt) (simp add: job_hash_def)
  moreover have "blobs_ok path_ok (owned K jobs ?us) ?S B"
    unfolding blobs_ok_def
  proof (intro allI impI)
    fix q assume q: "path_ok q \<and> B q \<noteq> None"
    show "owned K jobs ?us q \<or> (\<exists>h y. ?S h = Some y \<and> StStoragePath y = q)"
    proof (cases "q = j_path (jobs k)")
      case False
      consider "owned K jobs us q" | h y where "S h = Some y" "StStoragePath y = q"
        using inv(3) q unfolding blobs_ok_def by blast
      then show ?thesis
      proof cases
        case 1
        then show ?thesis using False by (simp add: owned_upd [OF ok(2) ok'(2)])
      next
        case 2
        then show ?thesis using S(1) by (intro disjI2 exI [of _ h] exI [of _ y]) auto
      qed
    qed (use S(3) in auto)
  qed
  moreover have "held_ok K jobs ?us ?S B"
    using inv(4) p(2) pk(2) S(3) by (auto simp: held_ok_def dest: ok'(9) [OF _ ok(2)])
  moreover have "thread_ok (jobs i) ?S F B (?us i)" if "i \<in> K" for i
  proof (cases "i = k")
    case False
    then show ?thesis using inv(5) [OF that] by (auto intro!: thread_mono [OF inv(5) [OF that]])
  qed (simp add: thread)
  ultimately show ?thesis
    using inv(2,6) alone_step [where S' = ?S and p = p, OF inv(7) ok(2) alone] by (simp add: uploads_inv_def cnt)
qed

lemma uploads_reference:
  assumes inv: "uploads_inv path_ok m dead K jobs us S F B" and ok: "jobs_ok id_ok K jobs" "k \<in> K"
    and p: "pends (us k)" and fin: "finite (dom F)" and F: "F (j_id (jobs k)) = None" and res: "ID g = j_id (jobs k)"
  shows "uploads_inv path_ok m dead K jobs (us(k := U_done (Inr g))) S (F(j_id (jobs k) \<mapsto> job_ref (jobs k))) B"
    (is "uploads_inv _ _ _ _ _ ?us _ ?F _")
proof -
  note inv = uploads_invD [OF inv] and ok' = jobs_okD [OF ok(1)]
  have pk: "\<not> holds (us k)" using p by (cases "us k") simp_all
  have "counted m K jobs ?us ?F h = counted m K jobs us F h" for h
    using F by (intro counted_leave [where us = us, OF ok'(1) ok(2) p _ fin]) simp_all
  then have "counted m K jobs ?us ?F = counted m K jobs us F" by (simp add: fun_eq_iff)
  moreover have "owned K jobs ?us = owned K jobs us" using owned_quiet [where us = us and k = k] pk by simp
  moreover have "held_ok K jobs ?us S B" using inv(4) by (auto simp: held_ok_def)
  moreover have "thread_ok (jobs i) S ?F B (?us i)" if "i \<in> K" for i
  proof (cases "i = k")
    case False
    then show ?thesis using inv(5) [OF that] ok'(10) [OF that ok(2)] by (auto intro!: thread_mono [OF inv(5) [OF that]])
  qed (use res in simp)
  ultimately show ?thesis
    using inv(1-3,6) alone_step [where S' = S and p = "U_done (Inr g)", OF inv(7) ok(2)] by (simp add: uploads_inv_def)
qed

section \<open>The changes a delete makes\<close>

text \<open>Dropping the row keeps the count: the reference is counted until it is taken off.\<close>

lemma uploads_row_gone:
  assumes inv: "uploads_inv path_ok m dead K jobs us S F B"
    and F: "finite (dom F)" "F i = Some f" "\<And>k. k \<in> K \<Longrightarrow> j_id (jobs k) \<noteq> i"
    and m: "\<And>h. m' h = m h + (if h = ref_hash f then 1 else 0)"
  shows "uploads_inv path_ok m' dead K jobs us S (F(i := None)) B"
proof -
  note inv = uploads_invD [OF inv]
  have "counted m' K jobs us (F(i := None)) h = counted m K jobs us F h" for h
  proof (cases "h = ref_hash f")
    case True
    then show ?thesis using card_referrers_del [OF F(1,2)] m by (simp add: counted_def)
  next
    case False
    then show ?thesis using referrers_other [of f h F i] F(2) m by (simp add: counted_def)
  qed
  then have "counted m' K jobs us (F(i := None)) = counted m K jobs us F" by (simp add: fun_eq_iff)
  moreover have "thread_ok (jobs k) S (F(i := None)) B (us k)" if "k \<in> K" for k
    using inv(5) [OF that] F(3) [OF that] by (auto intro!: thread_mono [OF inv(5) [OF that]])
  ultimately show ?thesis using inv(1-4,6,7) by (simp add: uploads_inv_def)
qed

text \<open>Taking the reference off the count; the record is dying from now on if the count is zero.\<close>

lemma uploads_taken_off:
  assumes inv: "uploads_inv path_ok m dead K jobs us S F B"
    and S: "S h = Some x" "ReferenceCount x' = ReferenceCount x - 1" "StStoragePath x' = StStoragePath x"
      "StSize x' = StSize x"
    and m: "\<And>g. m g = m' g + (if g = h then 1 else 0)"
    and dead: "\<And>g. dead' g \<longleftrightarrow> dead g \<or> g = h \<and> ReferenceCount x = 1" and apart: "\<And>k. k \<in> K \<Longrightarrow> job_hash (jobs k) \<noteq> h"
  shows "uploads_inv path_ok m' dead' K jobs us (S(h \<mapsto> x')) F B"
proof -
  note inv = uploads_invD [OF inv]
  have cnt: "counted m K jobs us F g = counted m' K jobs us F g + (if g = h then 1 else 0)" for g
    using m by (simp add: counted_def)
  have n: "ReferenceCount x = int (counted m' K jobs us F h) + 1" "\<not> dead h"
    using records_okD [OF inv(1) S(1)] cnt [of h] by auto
  have "records_ok path_ok (counted m' K jobs us F) dead' (S(h \<mapsto> x')) B"
    unfolding records_ok_def
  proof (intro allI impI)
    fix g y assume y: "(S(h \<mapsto> x')) g = Some y"
    show "ReferenceCount y = int (counted m' K jobs us F g) \<and> (counted m' K jobs us F g = 0 \<longleftrightarrow> dead' g)
        \<and> path_ok (StStoragePath y)
        \<and> (dead' g \<or> (\<exists>c. B (StStoragePath y) = Some c \<and> sha256_hex c = g \<and> StSize y = int (length c)))"
    proof (cases "g = h")
      case True
      then have "y = x'" using y by simp
      with True show ?thesis using inv(1) S n dead by (auto simp: records_ok_def)
    next
      case False
      then have "S g = Some y" "counted m K jobs us F g = counted m' K jobs us F g" "dead' g \<longleftrightarrow> dead g"
        using y dead cnt [of g] by simp_all
      then show ?thesis using records_okD [OF inv(1), of g y] by auto
    qed
  qed
  moreover have "held_ok K jobs us (S(h \<mapsto> x')) B"
    using inv(4) S(1,3) by (auto simp: held_ok_def)
  moreover have "thread_ok (jobs k) (S(h \<mapsto> x')) F B (us k)" if "k \<in> K" for k
    using inv(5) [OF that] by (auto intro!: thread_mono [OF inv(5) [OF that]])
  ultimately show ?thesis
    using inv(2,3,6) blobs_upd [OF inv(3) S(1,3)] dead apart alone_beside [OF inv(7) apart]
    by (auto simp: uploads_inv_def cnt)
qed

text \<open>The blob of a dying record goes, then the record.\<close>

lemma uploads_blob_gone:
  assumes inv: "uploads_inv path_ok m dead K jobs us S F B" and S: "S h = Some x" "dead h"
    and unique: "\<And>g y. S g = Some y \<Longrightarrow> StStoragePath y = StStoragePath x \<Longrightarrow> g = h"
  shows "uploads_inv path_ok m dead K jobs us S F (B(StStoragePath x := None))" (is "uploads_inv _ _ _ _ _ _ _ _ ?B")
proof -
  note inv = uploads_invD [OF inv]
  have "records_ok path_ok (counted m K jobs us F) dead S ?B"
    using inv(1) S(2) unique by (auto simp: records_ok_def)
  moreover have "blobs_ok path_ok (owned K jobs us) S ?B" using inv(3) by (simp add: blobs_ok_def)
  moreover have "held_ok K jobs us S ?B"
    using inv(4) held_path [OF inv(4) _ _ S(1)] by (fastforce simp: held_ok_def)
  moreover have "thread_ok (jobs k) S F ?B (us k)" if "k \<in> K" for k
    using inv(5) [OF that] by (auto intro!: thread_mono [OF inv(5) [OF that]])
  ultimately show ?thesis using inv(2,6,7) by (simp add: uploads_inv_def)
qed

lemma uploads_record_gone:
  assumes inv: "uploads_inv path_ok m dead K jobs us S F B" and S: "S h = Some x" "dead h" "B (StStoragePath x) = None"
    and dead: "\<And>g. dead' g \<longleftrightarrow> dead g \<and> g \<noteq> h" and apart: "\<And>k. k \<in> K \<Longrightarrow> job_hash (jobs k) \<noteq> h"
  shows "uploads_inv path_ok m dead' K jobs us (S(h := None)) F B"
proof -
  note inv = uploads_invD [OF inv]
  have zero: "counted m K jobs us F h = 0" using inv(1) S(1,2) by (simp add: records_ok_def)
  have "records_ok path_ok (counted m K jobs us F) dead' (S(h := None)) B"
    using inv(1) dead by (auto simp: records_ok_def)
  moreover have "blobs_ok path_ok (owned K jobs us) (S(h := None)) B"
    unfolding blobs_ok_def
  proof (intro allI impI)
    fix q assume q: "path_ok q \<and> B q \<noteq> None"
    then consider "owned K jobs us q" | g y where "S g = Some y" "StStoragePath y = q"
      using inv(3) unfolding blobs_ok_def by blast
    then show "owned K jobs us q \<or> (\<exists>g y. (S(h := None)) g = Some y \<and> StStoragePath y = q)"
    proof cases
      case 2
      then have "g \<noteq> h" using S(1,3) q by auto
      then show ?thesis using 2 by auto
    qed simp
  qed
  moreover have "held_ok K jobs us (S(h := None)) B" using inv(4) by (simp add: held_ok_def)
  moreover have "thread_ok (jobs k) (S(h := None)) F B (us k)" if "k \<in> K" for k
    using inv(5) [OF that] apart [OF that] by (auto intro!: thread_mono [OF inv(5) [OF that]])
  ultimately show ?thesis using inv(2,6) zero dead alone_beside [OF inv(7) apart] by (simp add: uploads_inv_def)
qed

section \<open>The invariant of all requests\<close>

text \<open>What a delete of \<open>i\<close> has done and found so far, \<open>F0\<close> being the rows before all requests.\<close>

fun dthread_ok ::
  "string \<Rightarrow> (string \<Rightarrow> file_ref option) \<Rightarrow> (string \<Rightarrow> Storage option) \<Rightarrow> (string \<Rightarrow> file_ref option)
     \<Rightarrow> (string \<Rightarrow> bytes option) \<Rightarrow> delete_pc \<Rightarrow> bool"
where
  "dthread_ok i F0 S F B D_start \<longleftrightarrow> F i = F0 i"
| "dthread_ok i F0 S F B (D_remove h) \<longleftrightarrow> (\<exists>f. F i = Some f \<and> F0 i = Some f \<and> ref_hash f = h)"
| "dthread_ok i F0 S F B (D_decrement h) \<longleftrightarrow> F i = None \<and> F0 i \<noteq> None"
| "dthread_ok i F0 S F B (D_lookup h) \<longleftrightarrow> F i = None \<and> F0 i \<noteq> None \<and> (\<exists>x. S h = Some x \<and> B (StStoragePath x) \<noteq> None)"
| "dthread_ok i F0 S F B (D_blob h x) \<longleftrightarrow> F i = None \<and> F0 i \<noteq> None \<and> S h = Some x \<and> B (StStoragePath x) \<noteq> None"
| "dthread_ok i F0 S F B (D_record h) \<longleftrightarrow> F i = None \<and> F0 i \<noteq> None \<and> (\<exists>x. S h = Some x \<and> B (StStoragePath x) = None)"
| "dthread_ok i F0 S F B (D_done res) \<longleftrightarrow> F i = None \<and> (if F0 i = None then \<exists>e. res = Err e else res = Ok ())"

lemma dthread_mono:
  assumes "dthread_ok i F0 S F B q" "F' i = F i" "\<And>h. hash_at q = Some h \<Longrightarrow> S' h = S h"
    and "\<And>h x. hash_at q = Some h \<Longrightarrow> S h = Some x \<Longrightarrow> B' (StStoragePath x) = B (StStoragePath x)"
  shows "dthread_ok i F0 S' F' B' q"
  using assms by (cases q) (auto split: if_splits)

text \<open>
  The conditions on the deletes: their ids are acceptable and different, no upload has the id of one,
  and no upload has the content of a file that is being deleted.
\<close>

definition ids_ok ::
  "(string \<Rightarrow> bool) \<Rightarrow> 'k set \<Rightarrow> ('k \<Rightarrow> job) \<Rightarrow> 'l set \<Rightarrow> ('l \<Rightarrow> string) \<Rightarrow> (string \<Rightarrow> file_ref option) \<Rightarrow> bool" where
  "ids_ok id_ok K jobs L ids F0 \<longleftrightarrow> finite L \<and> inj_on ids L
   \<and> (\<forall>l \<in> L. id_ok (ids l) \<and> (\<forall>k \<in> K. j_id (jobs k) \<noteq> ids l)
        \<and> (\<forall>f. F0 (ids l) = Some f \<longrightarrow> (\<forall>k \<in> K. job_hash (jobs k) \<noteq> ref_hash f)))"

lemma ids_okD:
  assumes "ids_ok id_ok K jobs L ids F0"
  shows "finite L" "inj_on ids L" "l \<in> L \<Longrightarrow> id_ok (ids l)" "l \<in> L \<Longrightarrow> k \<in> K \<Longrightarrow> j_id (jobs k) \<noteq> ids l"
    "l \<in> L \<Longrightarrow> F0 (ids l) = Some f \<Longrightarrow> k \<in> K \<Longrightarrow> job_hash (jobs k) \<noteq> ref_hash f"
    "l \<in> L \<Longrightarrow> l' \<in> L \<Longrightarrow> l \<noteq> l' \<Longrightarrow> ids l \<noteq> ids l'"
  using assms by (auto simp: ids_ok_def inj_on_def)

definition deletes_inv ::
  "'k set \<Rightarrow> ('k \<Rightarrow> job) \<Rightarrow> 'l set \<Rightarrow> ('l \<Rightarrow> string) \<Rightarrow> ('l \<Rightarrow> delete_pc) \<Rightarrow> (string \<Rightarrow> file_ref option)
     \<Rightarrow> (string \<Rightarrow> Storage option) \<Rightarrow> (string \<Rightarrow> file_ref option) \<Rightarrow> (string \<Rightarrow> bytes option) \<Rightarrow> bool" where
  "deletes_inv K jobs L ids ds F0 S F B \<longleftrightarrow>
     (\<forall>l \<in> L. dthread_ok (ids l) F0 S F B (ds l))
   \<and> (\<forall>l \<in> L. \<forall>k \<in> K. hash_at (ds l) \<noteq> Some (job_hash (jobs k)))
   \<and> (\<forall>l \<in> L. \<forall>l' \<in> L. \<forall>h. dying_at (ds l) = Some h \<and> dying_at (ds l') = Some h \<longrightarrow> l = l')
   \<and> (\<forall>i. i \<notin> (\<lambda>k. j_id (jobs k)) ` K \<and> i \<notin> ids ` L \<longrightarrow> F i = F0 i)"

definition net_inv ::
  "(string \<Rightarrow> bool) \<Rightarrow> 'k set \<Rightarrow> ('k \<Rightarrow> job) \<Rightarrow> ('k \<Rightarrow> upload_pc) \<Rightarrow> 'l set \<Rightarrow> ('l \<Rightarrow> string) \<Rightarrow> ('l \<Rightarrow> delete_pc)
     \<Rightarrow> (string \<Rightarrow> file_ref option) \<Rightarrow> (string \<Rightarrow> Storage option) \<Rightarrow> (string \<Rightarrow> file_ref option)
     \<Rightarrow> (string \<Rightarrow> bytes option) \<Rightarrow> bool" where
  "net_inv path_ok K jobs us L ids ds F0 S F B \<longleftrightarrow>
     uploads_inv path_ok (dropped L ds) (dying L ds) K jobs us S F B
   \<and> deletes_inv K jobs L ids ds F0 S F B
   \<and> int (card (dom F) + card (unfinished K us) + card L) < 2147483647"

lemma deletes_invD:
  assumes "deletes_inv K jobs L ids ds F0 S F B"
  shows "l \<in> L \<Longrightarrow> dthread_ok (ids l) F0 S F B (ds l)"
    "l \<in> L \<Longrightarrow> hash_at (ds l) = Some h \<Longrightarrow> k \<in> K \<Longrightarrow> job_hash (jobs k) \<noteq> h"
    "l \<in> L \<Longrightarrow> l' \<in> L \<Longrightarrow> dying_at (ds l) = Some h \<Longrightarrow> dying_at (ds l') = Some h \<Longrightarrow> l = l'"
    "i \<notin> (\<lambda>k. j_id (jobs k)) ` K \<Longrightarrow> i \<notin> ids ` L \<Longrightarrow> F i = F0 i"
  using assms unfolding deletes_inv_def by (blast, force, blast, blast)

text \<open>What an upload does leaves the deletes alone.\<close>

lemma deletes_beside:
  assumes inv: "deletes_inv K jobs L ids ds F0 S F B" and ids: "ids_ok id_ok K jobs L ids F0" and k: "k \<in> K"
    and S: "\<And>h. h \<noteq> job_hash (jobs k) \<Longrightarrow> S' h = S h" and F: "\<And>i. i \<noteq> j_id (jobs k) \<Longrightarrow> F' i = F i"
    and B: "\<And>h x. S h = Some x \<Longrightarrow> B' (StStoragePath x) = B (StStoragePath x)"
  shows "deletes_inv K jobs L ids ds F0 S' F' B'"
proof -
  note inv = deletes_invD [OF inv]
  have "dthread_ok (ids l) F0 S' F' B' (ds l)" if "l \<in> L" for l
    using dthread_mono [OF inv(1) [OF that], of F' S' B'] F ids_okD(4) [OF ids that k] inv(2) [OF that _ k] S B
    by metis
  moreover have "F' i = F0 i" if "i \<notin> (\<lambda>k. j_id (jobs k)) ` K" "i \<notin> ids ` L" for i
    using inv(4) [OF that] F [of i] k that(1) by auto
  ultimately show ?thesis unfolding deletes_inv_def using inv(2,3) by blast
qed

text \<open>One delete moves on; the others stay as they are.\<close>

lemma deletes_move:
  assumes inv: "deletes_inv K jobs L ids ds F0 S F B" and ids: "ids_ok id_ok K jobs L ids F0" and l: "l \<in> L"
    and thread: "dthread_ok (ids l) F0 S' F' B' q"
    and hash: "hash_at q = None \<or> hash_at q = hash_at (ds l) \<or> (\<exists>f. F0 (ids l) = Some f \<and> hash_at q = Some (ref_hash f))"
    and dying: "dying_at q = None \<or> dying_at q = dying_at (ds l) \<or> (\<exists>h. dying_at q = Some h \<and> \<not> dying L ds h)"
    and F: "\<And>i. i \<noteq> ids l \<Longrightarrow> F' i = F i"
    and other: "\<And>l'. l' \<in> L \<Longrightarrow> l' \<noteq> l \<Longrightarrow> dthread_ok (ids l') F0 S F B (ds l') \<Longrightarrow> dthread_ok (ids l') F0 S' F' B' (ds l')"
  shows "deletes_inv K jobs L ids (ds(l := q)) F0 S' F' B'"
proof -
  note inv = deletes_invD [OF inv]
  have "dthread_ok (ids l') F0 S' F' B' ((ds(l := q)) l')" if "l' \<in> L" for l'
    using thread other inv(1) that by simp
  moreover have "hash_at ((ds(l := q)) l') \<noteq> Some (job_hash (jobs k))" if "l' \<in> L" "k \<in> K" for l' k
  proof (cases "l' = l")
    case True
    then show ?thesis using hash inv(2) [OF l _ that(2)] ids_okD(5) [OF ids l _ that(2)] by auto
  next
    case False
    then show ?thesis using inv(2) [OF that(1) _ that(2)] by auto
  qed
  moreover have "l1 = l2" if "l1 \<in> L" "l2 \<in> L" "dying_at ((ds(l := q)) l1) = Some h" "dying_at ((ds(l := q)) l2) = Some h" for l1 l2 h
    using dying inv(3) [of l1 l2 h] that l unfolding dying_def by (auto split: if_splits)
  moreover have "F' i = F0 i" if "i \<notin> (\<lambda>k. j_id (jobs k)) ` K" "i \<notin> ids ` L" for i
    using inv(4) [OF that] F [of i] l that(2) by auto
  ultimately show ?thesis unfolding deletes_inv_def by blast
qed

lemma net_invD:
  assumes "net_inv path_ok K jobs us L ids ds F0 S F B"
  shows "uploads_inv path_ok (dropped L ds) (dying L ds) K jobs us S F B" "deletes_inv K jobs L ids ds F0 S F B"
    "int (card (dom F) + card (unfinished K us) + card L) < 2147483647"
  using assms by (simp_all add: net_inv_def)

lemma net_upload:
  assumes inv: "net_inv path_ok K jobs us L ids ds F0 S F B" and ids: "ids_ok id_ok K jobs L ids F0" and k: "k \<in> K"
    and up: "uploads_inv path_ok (dropped L ds) (dying L ds) K jobs (us(k := p)) S' F' B'"
    and S: "\<And>h. h \<noteq> job_hash (jobs k) \<Longrightarrow> S' h = S h" and F: "\<And>i. i \<noteq> j_id (jobs k) \<Longrightarrow> F' i = F i"
    and B: "\<And>h x. S h = Some x \<Longrightarrow> B' (StStoragePath x) = B (StStoragePath x)"
    and fin: "card (dom F') + card (unfinished K (us(k := p))) \<le> card (dom F) + card (unfinished K us)"
  shows "net_inv path_ok K jobs (us(k := p)) L ids ds F0 S' F' B'"
  using net_invD [OF inv] up fin
    deletes_beside [where S' = S' and F' = F' and B' = B', OF net_invD(2) [OF inv] ids k S F B]
  by (simp add: net_inv_def)

lemma net_delete:
  assumes inv: "net_inv path_ok K jobs us L ids ds F0 S F B"
    and up: "uploads_inv path_ok (dropped L (ds(l := q))) (dying L (ds(l := q))) K jobs us S' F' B'"
    and del: "deletes_inv K jobs L ids (ds(l := q)) F0 S' F' B'" and fin: "card (dom F') \<le> card (dom F)"
  shows "net_inv path_ok K jobs us L ids (ds(l := q)) F0 S' F' B'"
  using net_invD(3) [OF inv] up del fin by (simp add: net_inv_def)

text \<open>A delete that only looks.\<close>

lemma net_delete_looks:
  assumes inv: "net_inv path_ok K jobs us L ids ds F0 S F B" and ids: "ids_ok id_ok K jobs L ids F0" and l: "l \<in> L"
    and q: "\<And>g. ds l \<noteq> D_decrement g" "\<And>g. q \<noteq> D_decrement g" "dying_at q = dying_at (ds l)"
    and hash: "hash_at q = None \<or> hash_at q = hash_at (ds l) \<or> (\<exists>f. F0 (ids l) = Some f \<and> hash_at q = Some (ref_hash f))"
    and thread: "dthread_ok (ids l) F0 S F B q"
  shows "net_inv path_ok K jobs us L ids (ds(l := q)) F0 S F B"
proof (rule net_delete [OF inv])
  show "uploads_inv path_ok (dropped L (ds(l := q))) (dying L (ds(l := q))) K jobs us S F B"
    using net_invD(1) [OF inv] by (simp only: dropped_quiet [where ds = ds and l = l, OF q(1,2)] dying_quiet [where ds = ds and l = l, OF q(3)])
  show "deletes_inv K jobs L ids (ds(l := q)) F0 S F B"
    using q(3) by (intro deletes_move [OF net_invD(2) [OF inv] ids l thread hash]) auto
qed simp

lemma net_delete_row:
  assumes inv: "net_inv path_ok K jobs us L ids ds F0 S F B" and ids: "ids_ok id_ok K jobs L ids F0" and l: "l \<in> L"
    and q: "ds l = D_remove h" and fin: "finite (dom F)"
  shows "net_inv path_ok K jobs us L ids (ds(l := D_decrement h)) F0 S (F(ids l := None)) B"
proof (rule net_delete [OF inv])
  note i = ids_okD [OF ids]
  obtain f where f: "F (ids l) = Some f" "F0 (ids l) = Some f" "ref_hash f = h"
    using deletes_invD(1) [OF net_invD(2) [OF inv] l] q by auto
  have "dying L (ds(l := D_decrement h)) = dying L ds" using dying_quiet [of _ ds l] q by simp
  then show "uploads_inv path_ok (dropped L (ds(l := D_decrement h))) (dying L (ds(l := D_decrement h))) K jobs us
      S (F(ids l := None)) B"
    using uploads_row_gone [OF net_invD(1) [OF inv] fin f(1)] i(4) [OF l] dropped_enter [where ds = ds, OF i(1) l q] f(3) by simp
  show "deletes_inv K jobs L ids (ds(l := D_decrement h)) F0 S (F(ids l := None)) B"
    using q f(2) i(6) [OF _ l] by (intro deletes_move [OF net_invD(2) [OF inv] ids l]) (auto elim: dthread_mono)
  show "card (dom (F(ids l := None))) \<le> card (dom F)" using fin by (simp add: card_Diff1_le)
qed

lemma dropped_pos:
  "finite L \<Longrightarrow> l \<in> L \<Longrightarrow> ds l = D_decrement h \<Longrightarrow> 0 < dropped L ds h"
  by (auto simp: dropped_def card_gt_0_iff)

lemma net_decrement_record:
  assumes inv: "net_inv path_ok K jobs us L ids ds F0 S F B" and ids: "ids_ok id_ok K jobs L ids F0" and l: "l \<in> L"
    and q: "ds l = D_decrement h"
  obtains x c where "S h = Some x" "0 < ReferenceCount x" "\<not> dying L ds h" "B (StStoragePath x) = Some c"
proof -
  note up = uploads_invD [OF net_invD(1) [OF inv]]
  have n: "0 < counted (dropped L ds) K jobs us F h"
    using dropped_pos [where ds = ds, OF ids_okD(1) [OF ids] l q] by (simp add: counted_def)
  then obtain x where x: "S h = Some x" using up(2) [of h] by fastforce
  note r = records_okD [OF up(1) x]
  have alive: "\<not> dying L ds h" using r(2) n by simp
  from r(4) [OF this] obtain c where "B (StStoragePath x) = Some c" by blast
  with that [OF x] alive r(1) n show ?thesis by simp
qed

lemma net_delete_count:
  assumes inv: "net_inv path_ok K jobs us L ids ds F0 S F B" and ids: "ids_ok id_ok K jobs L ids F0" and l: "l \<in> L"
    and q: "ds l = D_decrement h" and S: "S h = Some x" "ReferenceCount x' = ReferenceCount x - 1"
      "StStoragePath x' = StStoragePath x" "StSize x' = StSize x"
    and q': "q' = (if ReferenceCount x' = 0 then D_lookup h else D_done (Ok ()))"
  shows "net_inv path_ok K jobs us L ids (ds(l := q')) F0 (S(h \<mapsto> x')) F B"
proof (rule net_delete [OF inv])
  note i = ids_okD [OF ids] and d = deletes_invD [OF net_invD(2) [OF inv]]
  obtain c where c: "\<not> dying L ds h" "B (StStoragePath x) = Some c"
    using net_decrement_record [OF inv ids l q] S(1) by (metis option.inject)
  have apart: "job_hash (jobs k) \<noteq> h" if "k \<in> K" for k using d(2) [OF l _ that] q by simp
  have nodec: "q' \<noteq> D_decrement g" for g using q' by simp
  have dead: "dying L (ds(l := q')) g \<longleftrightarrow> dying L ds g \<or> g = h \<and> ReferenceCount x = 1" for g
    using dying_split [OF l, of ds g] dying_upd [OF l, of ds q' g] q q' S(2) by auto
  show "uploads_inv path_ok (dropped L (ds(l := q'))) (dying L (ds(l := q'))) K jobs us (S(h \<mapsto> x')) F B"
    by (rule uploads_taken_off [OF net_invD(1) [OF inv] S dropped_leave [where ds = ds, OF i(1) l q nodec] dead apart])
  have gone: "F (ids l) = None" "F0 (ids l) \<noteq> None" using d(1) [OF l] q by simp_all
  show "deletes_inv K jobs L ids (ds(l := q')) F0 (S(h \<mapsto> x')) F B"
  proof (rule deletes_move [OF net_invD(2) [OF inv] ids l])
    show "dthread_ok (ids l) F0 (S(h \<mapsto> x')) F B q'" using gone q' S(3) c(2) by auto
    fix l' assume l': "l' \<in> L" "l' \<noteq> l" and ok: "dthread_ok (ids l') F0 S F B (ds l')"
    have "dying_at (ds l') \<noteq> Some h" using c(1) l'(1) by (auto simp: dying_def)
    then show "dthread_ok (ids l') F0 (S(h \<mapsto> x')) F B (ds l')" using ok by (cases "ds l'") auto
  qed (use q q' c(1) in auto)
qed simp

lemma net_delete_blob:
  assumes inv: "net_inv path_ok K jobs us L ids ds F0 S F B" and ids: "ids_ok id_ok K jobs L ids F0" and l: "l \<in> L"
    and q: "ds l = D_blob h x"
    and unique: "\<And>g y. S g = Some y \<Longrightarrow> StStoragePath y = StStoragePath x \<Longrightarrow> g = h"
  shows "net_inv path_ok K jobs us L ids (ds(l := D_record h)) F0 S F (B(StStoragePath x := None))" (is "net_inv _ _ _ _ _ _ _ _ _ _ ?B")
proof (rule net_delete [OF inv])
  note d = deletes_invD [OF net_invD(2) [OF inv]]
  have x: "F (ids l) = None" "F0 (ids l) \<noteq> None" "S h = Some x" using d(1) [OF l] q by auto
  have dead: "dying L ds h" using q by (intro dyingI [OF l]) simp
  have m: "dropped L (ds(l := D_record h)) = dropped L ds" "dying L (ds(l := D_record h)) = dying L ds"
    using dropped_quiet [of ds l] dying_quiet [of _ ds l] q by simp_all
  show "uploads_inv path_ok (dropped L (ds(l := D_record h))) (dying L (ds(l := D_record h))) K jobs us S F ?B"
    unfolding m by (rule uploads_blob_gone [OF net_invD(1) [OF inv] x(3) dead unique])
  show "deletes_inv K jobs L ids (ds(l := D_record h)) F0 S F ?B"
  proof (rule deletes_move [OF net_invD(2) [OF inv] ids l])
    fix l' assume l': "l' \<in> L" "l' \<noteq> l" and ok: "dthread_ok (ids l') F0 S F B (ds l')"
    have other: "dying_at (ds l') \<noteq> Some h" using d(3) [OF l'(1) l, of h] l'(2) q by auto
    have "StStoragePath y \<noteq> StStoragePath x" if "dying_at (ds l') = Some g" "S g = Some y" for g y
      using unique [OF that(2)] other that(1) by auto
    then show "dthread_ok (ids l') F0 S F ?B (ds l')" using ok by (cases "ds l'") auto
  qed (use q x in auto)
qed simp

lemma net_delete_record:
  assumes inv: "net_inv path_ok K jobs us L ids ds F0 S F B" and ids: "ids_ok id_ok K jobs L ids F0" and l: "l \<in> L"
    and q: "ds l = D_record h"
  shows "net_inv path_ok K jobs us L ids (ds(l := D_done (Ok ()))) F0 (S(h := None)) F B"
proof (rule net_delete [OF inv])
  note d = deletes_invD [OF net_invD(2) [OF inv]]
  obtain x where x: "F (ids l) = None" "F0 (ids l) \<noteq> None" "S h = Some x" "B (StStoragePath x) = None"
    using d(1) [OF l] q by auto
  have dead: "dying L ds h" using q by (intro dyingI [OF l]) simp
  have other: "dying_at (ds l') \<noteq> Some h" if "l' \<in> L" "l' \<noteq> l" for l'
    using d(3) [OF that(1) l, of h] that(2) q by auto
  have m: "dropped L (ds(l := D_done (Ok ()))) = dropped L ds" using dropped_quiet [of ds l] q by simp
  have now: "dying L (ds(l := D_done (Ok ()))) g \<longleftrightarrow> dying L ds g \<and> g \<noteq> h" for g
    using dying_split [OF l, of ds g] dying_upd [OF l, of ds _ g] q other by auto
  have apart: "job_hash (jobs k) \<noteq> h" if "k \<in> K" for k using d(2) [OF l _ that] q by simp
  show "uploads_inv path_ok (dropped L (ds(l := D_done (Ok ())))) (dying L (ds(l := D_done (Ok ())))) K jobs us (S(h := None)) F B"
    unfolding m by (rule uploads_record_gone [OF net_invD(1) [OF inv] x(3) dead x(4) now apart])
  show "deletes_inv K jobs L ids (ds(l := D_done (Ok ()))) F0 (S(h := None)) F B"
  proof (rule deletes_move [OF net_invD(2) [OF inv] ids l])
    fix l' assume l': "l' \<in> L" "l' \<noteq> l" and ok: "dthread_ok (ids l') F0 S F B (ds l')"
    then show "dthread_ok (ids l') F0 (S(h := None)) F B (ds l')" using other [OF l'] by (cases "ds l'") auto
  qed (use q x in auto)
qed simp

section \<open>Before the requests and after them\<close>

lemma net_inv_start:
  assumes dedup: "dedup_ok path_ok S F B" and foreign: "\<And>i f. F i = Some f \<Longrightarrow> S (ref_hash f) \<noteq> None"
    and fresh: "\<And>k. k \<in> K \<Longrightarrow> B (j_path (jobs k)) = None \<and> F (j_id (jobs k)) = None" and fin: "finite (dom F)"
    and room: "int (card (dom F) + card K + card L) < 2147483647"
  shows "net_inv path_ok K jobs (\<lambda>k. U_start) L ids (\<lambda>l. D_start) F S F B"
proof -
  have quiet: "dropped L (\<lambda>l. D_start) h = 0" "\<not> dying L (\<lambda>l. D_start) h" "pending K jobs (\<lambda>k. U_start) h = {}" for h
    by (simp_all add: dropped_def dying_def pending_def)
  have n: "counted (dropped L (\<lambda>l. D_start)) K jobs (\<lambda>k. U_start) F = (\<lambda>h. card (referrers F h))"
    by (simp add: counted_def quiet fun_eq_iff)
  have "records_ok path_ok (\<lambda>h. card (referrers F h)) (dying L (\<lambda>l. D_start)) S B"
    using dedup finite_referrers [OF fin] by (simp add: records_ok_def dedup_ok_def quiet)
  moreover have "card (referrers F h) = 0" if "S h = None" for h
  proof -
    have "referrers F h = {}" using foreign that by (fastforce simp: referrers_def)
    then show ?thesis by simp
  qed
  moreover have "blobs_ok path_ok (owned K jobs (\<lambda>k. U_start)) S B"
    using dedup by (simp add: blobs_ok_def dedup_ok_def)
  moreover have "held_ok K jobs (\<lambda>k. U_start) S B"
    using dedup fresh by (fastforce simp: held_ok_def dedup_ok_def)
  ultimately have "uploads_inv path_ok (dropped L (\<lambda>l. D_start)) (dying L (\<lambda>l. D_start)) K jobs (\<lambda>k. U_start) S F B"
    using fresh by (simp add: uploads_inv_def n quiet alone_ok_def)
  moreover have "unfinished K (\<lambda>k. U_start) = K" by (simp add: unfinished_def)
  ultimately show ?thesis using room by (simp add: net_inv_def deletes_inv_def)
qed

lemma net_inv_end:
  assumes inv: "net_inv path_ok K jobs us L ids ds F0 S F B" and ended: "ended K us L ds" and fin: "finite (dom F)"
  shows "dedup_ok path_ok S F B"
proof -
  note up = uploads_invD [OF net_invD(1) [OF inv]]
  have u: "\<not> pends (us k) \<and> \<not> holds (us k)" if "k \<in> K" for k
    using ended that by (cases "us k") (auto simp: ended_def)
  have d: "\<exists>res. ds l = D_done res" if "l \<in> L" for l
    using ended that by (auto simp: ended_def delete_left_done)
  have "{l \<in> L. ds l = D_decrement h} = {}" for h using d by fastforce
  then have q1: "dropped L ds h = 0" for h by (simp only: dropped_def card.empty)
  have q2: "\<not> dying L ds h" for h using d by (fastforce simp: dying_def)
  have q3: "pending K jobs us h = {}" for h using u by (auto simp: pending_def)
  note quiet = q1 q2 q3
  have n: "counted (dropped L ds) K jobs us F h = card (referrers F h)" for h
    by (simp add: counted_def quiet)
  have "\<not> owned K jobs us p" for p using u by (auto simp: owned_def)
  then show ?thesis
    using up(1,3) finite_referrers [OF fin] by (auto simp: dedup_ok_def records_ok_def blobs_ok_def n quiet)
qed

end
