(* ===== verification/KnownAnswers.thy ===== *)
theory KnownAnswers
  imports Sha256
begin

text \<open>
  Known-answer tests of Sha256 in the kernel: the digests that FIPS 180-4 gives for the message
  abc and for the empty message. The equations below evaluate a round on numerals; \<open>trunc\<close> marks
  the sums whose numeral is reduced modulo \<open>2 ^ 32\<close>.
\<close>

unbundle bit_operations_syntax

definition trunc :: "word32 \<Rightarrow> word32" where
  "trunc x = x"

lemma trunc_numeral: "trunc (numeral k) = of_nat (take_bit 32 (numeral k))"
proof -
  have "(of_nat (numeral k) :: word32) = of_nat (take_bit 32 (numeral k))"
    by (simp only: word_of_nat_eq_iff take_bit_take_bit len_bit0 len_num1)
  then show ?thesis by (simp only: trunc_def of_nat_numeral)
qed

lemma trunc_small: "trunc 0 = 0" "trunc 1 = 1"
  by (simp_all add: trunc_def)

lemma rotr_eval: "n \<le> 32 \<Longrightarrow> rotr n x = drop_bit n x OR push_bit (32 - n) (take_bit n x)"
  unfolding rotr_def by (rule bit_word_eqI) (auto simp: bit_simps)

lemma choose_eval: "choose_bits x y z = z XOR (x AND (y XOR z))"
  unfolding choose_bits_def by (rule bit_word_eqI) (auto simp: bit_simps)

lemma schedule_eval:
  "schedule (numeral k) (x # ws) =
     x # schedule (pred_numeral k) (ws @ [trunc (sigma1 ((x # ws) ! 14) + (x # ws) ! 9 + sigma0 ((x # ws) ! 1) + x)])"
  "schedule (Suc 0) (x # ws) = [x]"
  by (simp_all add: trunc_def numeral_eq_Suc)

lemma round_eval:
  "round_step (a, b, c, d, e, f, g, h) (k, w) =
     (let t1 = trunc (h + big_sigma1 e + choose_bits e f g + k + w);
          t2 = big_sigma0 a + majority_bits a b c
      in (trunc (t1 + t2), a, b, c, trunc (d + t1), e, f, g))"
  by (simp add: trunc_def)

lemma add_eval:
  "add_digest (a, b, c, d, e, f, g, h) (a', b', c', d', e', f', g', h') =
     (trunc (a + a'), trunc (b + b'), trunc (c + c'), trunc (d + d'), trunc (e + e'), trunc (f + f'),
      trunc (g + g'), trunc (h + h'))"
  by (simp add: trunc_def)

lemmas sha_eval = big_sigma1_def big_sigma0_def sigma0_def sigma1_def choose_eval majority_bits_def rotr_eval
  trunc_numeral trunc_small Let_def

lemma replicate_eval: "replicate (numeral k) x = x # replicate (pred_numeral k) x"
  by (simp add: numeral_eq_Suc)

lemma eight: "rev [0..<8] = [7, 6, 5, 4, 3, 2, 1, 0 :: nat]"
  by code_simp

lemma one_block: "length ws = 16 \<Longrightarrow> blocks s ws = block_step s ws"
  by (subst blocks.simps, subst blocks.simps) auto

definition words_abc :: "word32 list" where
  "words_abc = [1633837952, 0, 0, 0, 0, 0, 0, 0, 0, 0, 0, 0, 0, 0, 0, 24, 1633837952, 983040, 2108187653,
    1610613702, 1050508152, 25426944, 316456923, 3806512014, 3357629466, 3073800610, 3854317833,
    845560923, 2636160359, 3968280267, 1881225380, 3552024379, 2482346367, 996719219, 2952069057,
    4043988066, 176896406, 1924104970, 2483675966, 610538786, 2672279444, 4037431130, 1042573945,
    657669027, 206005234, 2215296807, 2049510749, 106709978, 4215179723, 3430291419, 3118885940,
    2845390439, 2226839261, 3256115900, 344409900, 2987358873, 4015503821, 3957764664, 2682456414,
    2025622859, 2755645205, 1720397816, 4004225740, 313650667]"

lemma padded_abc: "words_of (padded [0x61, 0x62, 0x63]) = [1633837952, 0, 0, 0, 0, 0, 0, 0, 0, 0, 0, 0, 0, 0, 0, 24]"
  by (simp add: padded_def Let_def eight word_of_bytes_def replicate_eval)

lemma schedule_abc: "P (schedule 64 [1633837952, 0, 0, 0, 0, 0, 0, 0, 0, 0, 0, 0, 0, 0, 0, 24]) \<longleftrightarrow> P words_abc"
  by (simp add: sha_eval schedule_eval del: schedule.simps(2)) (simp add: words_abc_def)

lemma rounds_abc: "foldl round_step initial_digest (zip round_constants words_abc) =
    (1349398616, 3550093669, 80891244, 3093179625, 1593118500, 4212265488, 2492278198, 2518632596)"
  by (simp add: words_abc_def round_constants_def initial_digest_def sha_eval round_eval del: round_step.simps)

theorem sha256_abc: "sha256_hex [0x61, 0x62, 0x63] = ''ba7816bf8f01cfea414140de5dae2223b00361a396177a9cb410ff61f20015ad''"
proof -
  let ?ws = "[1633837952, 0, 0, 0, 0, 0, 0, 0, 0, 0, 0, 0, 0, 0, 0, 24] :: word32 list"
  have "schedule 64 ?ws = words_abc"
    using schedule_abc [where P = "\<lambda>ws. ws = words_abc"] by simp
  then have "block_step initial_digest ?ws = (3128432319, 2399260650, 1094795486, 1571693091, 2953011619, 2518121116, 3021012833, 4060091821)"
    unfolding block_step_def by (simp only: rounds_abc) (simp add: initial_digest_def add_eval sha_eval del: add_digest.simps)
  then have "blocks initial_digest (words_of (padded [0x61, 0x62, 0x63])) = (3128432319, 2399260650, 1094795486, 1571693091, 2953011619, 2518121116, 3021012833, 4060091821)"
    by (simp add: padded_abc one_block)
  then show ?thesis by (simp add: sha256_hex_def sha256_def bytes_of_word_def EncodeToString_def hex_of_byte_def hex_char_def hex_digits_def)
qed

definition words_empty :: "word32 list" where
  "words_empty = [2147483648, 0, 0, 0, 0, 0, 0, 0, 0, 0, 0, 0, 0, 0, 0, 0, 2147483648, 0, 2117632, 0, 570427392, 0,
    84448578, 2147483648, 1476919296, 4235264, 1451269, 1711282176, 3592562048, 337794312, 3594910044,
    3374850048, 3287351444, 676112230, 109604294, 2742808854, 1904000662, 4274181962, 2813755136,
    2165675682, 2561075048, 62000258, 1562224585, 2975250741, 3286092305, 614207615, 3297584367,
    1575308336, 3741240933, 748767245, 1008022316, 30329261, 369937616, 195877528, 907775968,
    3526495142, 43741191, 1967544444, 133517113, 4161330627, 3704256008, 1581412744, 1153231965,
    996066459]"

lemma padded_empty: "words_of (padded []) = [2147483648, 0, 0, 0, 0, 0, 0, 0, 0, 0, 0, 0, 0, 0, 0, 0]"
  by (simp add: padded_def Let_def eight word_of_bytes_def replicate_eval)

lemma schedule_empty: "P (schedule 64 [2147483648, 0, 0, 0, 0, 0, 0, 0, 0, 0, 0, 0, 0, 0, 0, 0]) \<longleftrightarrow> P words_empty"
  by (simp add: sha_eval schedule_eval del: schedule.simps(2)) (simp add: words_empty_def)

lemma rounds_empty: "foldl round_step initial_digest (zip round_constants words_empty) =
    (2040978907, 3717492111, 1586299222, 4095722474, 3600805733, 3382061760, 2232532848, 477227836)"
  by (simp add: words_empty_def round_constants_def initial_digest_def sha_eval round_eval del: round_step.simps)

theorem sha256_empty: "sha256_hex [] = ''e3b0c44298fc1c149afbf4c8996fb92427ae41e4649b934ca495991b7852b855''"
proof -
  let ?ws = "[2147483648, 0, 0, 0, 0, 0, 0, 0, 0, 0, 0, 0, 0, 0, 0, 0] :: word32 list"
  have "schedule 64 ?ws = words_empty"
    using schedule_empty [where P = "\<lambda>ws. ws = words_empty"] by simp
  then have "block_step initial_digest ?ws = (3820012610, 2566659092, 2600203464, 2574235940, 665731556, 1687917388, 2761267483, 2018687061)"
    unfolding block_step_def by (simp only: rounds_empty) (simp add: initial_digest_def add_eval sha_eval del: add_digest.simps)
  then have "blocks initial_digest (words_of (padded [])) = (3820012610, 2566659092, 2600203464, 2574235940, 665731556, 1687917388, 2761267483, 2018687061)"
    by (simp add: padded_empty one_block)
  then show ?thesis by (simp add: sha256_hex_def sha256_def bytes_of_word_def EncodeToString_def hex_of_byte_def hex_char_def hex_digits_def)
qed

end
