(* ===== verification/ConcurrentRequests.thy ===== *)
theory ConcurrentRequests
  imports Concurrency KnownAnswers
begin

text \<open>
  Every call that an upload or a delete makes keeps the invariant of Concurrency, on any storage and
  repository that keep their contracts; so any number of uploads and deletes may run side by side
  as long as no upload has the content of a file that is being deleted and no file is deleted twice
  at a time. The last two properties show what happens otherwise.
\<close>

section \<open>One call of an upload\<close>

context storage_service
begin

lemma upload_call_start:
  assumes inv: "binv s" "net_inv path_ok K jobs us L ids ds F0 (storages r) (files r) (blobs s)"
    and ok: "jobs_ok id_ok K jobs" "ids_ok id_ok K jobs L ids F0" "k \<in> K" "us k = U_start"
    and st: "job_step (NewStorageService st repo) (jobs k) (us k, s, r) = (p, s', r')"
  shows "binv s' \<and> r' = r \<and> net_inv path_ok K jobs (us(k := p)) L ids ds F0 (storages r') (files r') (blobs s')"
proof -
  note j = jobs_okD [OF ok(1)]
  let ?j = "jobs k" let ?c = "rd_data (j_rd (jobs k))"
  note up = net_invD(1) [OF inv(2)]
  obtain s1 where s1: "st_Put st (j_path ?j) (j_rd ?j) (HSize (j_header ?j)) s =
        (\<lparr>pr_n = int (length ?c), pr_err = None, pr_consumed = ?c\<rparr>, s1)"
      "binv s1" "blobs s1 = (blobs s)(j_path ?j \<mapsto> ?c)"
    using put_step [OF inv(1) j(7) [OF ok(3)] j(6) [OF ok(3)]] by blast
  have r: "p = U_lookup (job_hash ?j) (int (length ?c))" "s' = s1" "r' = r"
    using st s1(1) j(4) [OF ok(3)] ok(4) by (simp_all add: job_step_def job_hash_def NewStorageService_def)
  have t: "files r (j_id ?j) = None" using uploads_invD(5) [OF up ok(3)] ok(4) by simp
  have up': "uploads_inv path_ok (dropped L ds) (dying L ds) K jobs (us(k := p)) (storages r) (files r)
      ((blobs s)(j_path ?j \<mapsto> ?c))"
    using t r(1) by (intro uploads_put [OF up ok(1,3,4)]) simp_all
  have "net_inv path_ok K jobs (us(k := p)) L ids ds F0 (storages r) (files r) ((blobs s)(j_path ?j \<mapsto> ?c))"
  proof (rule net_upload [OF inv(2) ok(2,3) up'])
    fix h x assume "storages r h = Some x"
    then have "StStoragePath x \<noteq> j_path ?j" using held_path [OF uploads_invD(4) [OF up] ok(3)] ok(4) by simp
    then show "((blobs s)(j_path ?j \<mapsto> ?c)) (StStoragePath x) = blobs s (StStoragePath x)" by simp
  qed (use card_unfinished_le [OF j(1) _ ok(3)] ok(4) in simp_all)
  with r s1 show ?thesis by simp
qed

lemma upload_call_drop:
  assumes inv: "binv s" "net_inv path_ok K jobs us L ids ds F0 (storages r) (files r) (blobs s)"
    and ok: "jobs_ok id_ok K jobs" "ids_ok id_ok K jobs L ids F0" "k \<in> K" "holds (us k)"
    and p: "\<not> holds p" "\<not> pends p" "p \<noteq> U_start"
      "thread_ok (jobs k) (storages r) (files r) ((blobs s)(j_path (jobs k) := None)) p"
    and alone: "alone K jobs k \<Longrightarrow> alone_at (storages r (job_hash (jobs k))) p"
  shows "\<exists>s'. st_Delete st (j_path (jobs k)) s = (None, s') \<and> binv s'
    \<and> net_inv path_ok K jobs (us(k := p)) L ids ds F0 (storages r) (files r) (blobs s')"
proof -
  note j = jobs_okD [OF ok(1)]
  let ?j = "jobs k"
  note up = net_invD(1) [OF inv(2)]
  obtain s1 where s1: "st_Delete st (j_path ?j) s = (None, s1)" "binv s1" "blobs s1 = (blobs s)(j_path ?j := None)"
    using delete_path [OF inv(1) j(7) [OF ok(3)] held_blob [OF uploads_invD(4) [OF up] ok(3,4)]] by blast
  have "net_inv path_ok K jobs (us(k := p)) L ids ds F0 (storages r) (files r) ((blobs s)(j_path ?j := None))"
  proof (rule net_upload [OF inv(2) ok(2,3) uploads_drop [OF up ok(1,3,4) p alone]])
    fix h x assume "storages r h = Some x"
    then have "StStoragePath x \<noteq> j_path ?j" using held_path [OF uploads_invD(4) [OF up] ok(3)] ok(4) by simp
    then show "((blobs s)(j_path ?j := None)) (StStoragePath x) = blobs s (StStoragePath x)" by simp
  next
    have "\<nexists>res. us k = U_done res" using ok(4) by (cases "us k") simp_all
    from card_unfinished_le [where us = us, OF j(1) this ok(3)]
    show "card (dom (files r)) + card (unfinished K (us(k := p))) \<le> card (dom (files r)) + card (unfinished K us)" by simp
  qed simp_all
  with s1 show ?thesis by auto
qed

lemma upload_call_move:
  assumes inv: "net_inv path_ok K jobs us L ids ds F0 S F B" and ok: "jobs_ok id_ok K jobs" "ids_ok id_ok K jobs L ids F0" "k \<in> K"
    and p: "pends p = pends (us k)" "holds p = holds (us k)" "p \<noteq> U_start" "upload_left (us k) \<noteq> 0"
      "thread_ok (jobs k) S F B p"
    and alone: "alone K jobs k \<Longrightarrow> alone_at (S (job_hash (jobs k))) p"
  shows "net_inv path_ok K jobs (us(k := p)) L ids ds F0 S F B"
proof -
  have "\<nexists>res. us k = U_done res" using p(4) upload_left_done [of "us k"] by simp
  from card_unfinished_le [where us = us, OF jobs_okD(1) [OF ok(1)] this ok(3)] show ?thesis
    by (intro net_upload [OF inv ok(2,3) uploads_move [OF net_invD(1) [OF inv] ok(3) p(1-3,5) alone]]) simp_all
qed

lemma upload_call_increment:
  assumes inv: "rinv r" "net_inv path_ok K jobs us L ids ds F0 (storages r) (files r) B"
    and ok: "jobs_ok id_ok K jobs" "ids_ok id_ok K jobs L ids F0" "k \<in> K" "us k = U_increment h x"
  shows "\<exists>r'. r_IncrementStorageRef repo h r = (None, r') \<and> rinv r'
    \<and> net_inv path_ok K jobs (us(k := U_share h x)) L ids ds F0 (storages r') (files r') B"
proof -
  note j = jobs_okD [OF ok(1)]
  note up = net_invD(1) [OF inv(2)]
  obtain y where y: "h = job_hash (jobs k)" "storages r h = Some y" "files r (j_id (jobs k)) = None"
    using uploads_invD(5) [OF up ok(3)] ok(4) by auto
  note rec = records_okD [OF uploads_invD(1) [OF up] y(2)]
  have le: "counted (dropped L ds) K jobs us (files r) h \<le> card (dom (files r)) + card (unfinished K us) + card L"
    using counted_le [OF j(1) finite_files [OF inv(1)], of "dropped L ds" jobs us h]
      dropped_le [OF ids_okD(1) [OF ok(2)], of ds h] by simp
  have "count_ok (ReferenceCount y + 1)"
    using rec(1) le net_invD(3) [OF inv(2)] by (simp add: count_ok_def)
  from increment [OF inv(1) y(2) this] obtain r1 t where r1: "r_IncrementStorageRef repo h r = (None, r1)" "rinv r1"
      "files r1 = files r" "storages r1 = (storages r)(h \<mapsto> y\<lparr>ReferenceCount := ReferenceCount y + 1, UpdatedAt := t\<rparr>)"
    by blast
  have up': "uploads_inv path_ok (dropped L ds) (dying L ds) K jobs (us(k := U_share h x)) (storages r1) (files r) B"
    unfolding r1(4) y(1)
    using y ok(4) by (intro uploads_increment [OF up ok(1,3)]) simp_all
  have "net_inv path_ok K jobs (us(k := U_share h x)) L ids ds F0 (storages r1) (files r) B"
    using card_unfinished_le [where us = us and k = k and K = K and p = "U_share h x"] j(1) ok(3,4) r1(4) y(1)
    by (intro net_upload [OF inv(2) ok(2,3) up']) simp_all
  with r1 show ?thesis by metis
qed

lemma upload_call_create:
  assumes inv: "rinv r" "net_inv path_ok K jobs us L ids ds F0 (storages r) (files r) B"
    and ok: "jobs_ok id_ok K jobs" "ids_ok id_ok K jobs L ids F0" "k \<in> K" "us k = U_create h n"
    and x: "x = first_storage (j_path (jobs k)) (j_now (jobs k)) (j_header (jobs k)) h n"
  shows "\<exists>err r'. r_CreateStorage repo x r = (err, r') \<and> rinv r'
    \<and> net_inv path_ok K jobs (us(k := (case err of Some e \<Rightarrow> U_withdraw e | None \<Rightarrow> U_refer h n))) L ids ds F0
        (storages r') (files r') B"
proof -
  note j = jobs_okD [OF ok(1)]
  note up = net_invD(1) [OF inv(2)]
  have t: "h = job_hash (jobs k)" "n = int (length (rd_data (j_rd (jobs k))))" "files r (j_id (jobs k)) = None"
    using uploads_invD(5) [OF up ok(3)] ok(4) by simp_all
  have fits: "storage_ok x"
    using ValidateFile_type_ok [OF j(4) [OF ok(3)]] sha256_hex_ok id_path [OF j(7) [OF ok(3)]] t(1)
    by (simp add: x storage_ok_def count_ok_def first_storage_def job_hash_def)
  have sel: "Hash x = h" "ReferenceCount x = 1" "StStoragePath x = j_path (jobs k)" "StSize x = n"
    by (simp_all add: x first_storage_def)
  show ?thesis
  proof (cases "storages r h")
    case None
    have apart: "StStoragePath y \<noteq> StStoragePath x" if "storages r g = Some y" for g y
      using held_path [OF uploads_invD(4) [OF up] ok(3) _ that] ok(4) sel(3) by simp
    have none: "storages r (Hash x) = None" using None sel(1) by simp
    obtain r1 where r1: "r_CreateStorage repo x r = (None, r1)"
        "rinv r1" "files r1 = files r" "storages r1 = (storages r)(h \<mapsto> x)"
      using create_storage [OF inv(1) fits] none apart sel(1) by auto
    have up': "uploads_inv path_ok (dropped L ds) (dying L ds) K jobs (us(k := U_refer h n)) (storages r1) (files r) B"
      unfolding r1(4) t(1)
      using None t sel ok(4) id_path [OF j(7) [OF ok(3)]] by (intro uploads_record [OF up ok(1,3)]) simp_all
    have "net_inv path_ok K jobs (us(k := U_refer h n)) L ids ds F0 (storages r1) (files r) B"
      using card_unfinished_le [where us = us and k = k and K = K and p = "U_refer h n"] j(1) ok(3,4) r1(4) t(1)
      by (intro net_upload [OF inv(2) ok(2,3) up']) simp_all
    with r1 show ?thesis by auto
  next
    case (Some y)
    from create_storage_taken [OF inv(1) fits] Some sel(1) obtain e where e: "r_CreateStorage repo x r = (Some e, r)" by auto
    have "net_inv path_ok K jobs (us(k := U_withdraw e)) L ids ds F0 (storages r) (files r) B"
      using t Some ok(4) uploads_invD(7) [OF up] ok(3)
      by (intro upload_call_move [OF inv(2) ok(1-3)]) (auto simp: alone_ok_def)
    with e inv(1) show ?thesis by auto
  qed
qed

lemma upload_call_refer:
  assumes inv: "rinv r" "net_inv path_ok K jobs us L ids ds F0 (storages r) (files r) B"
    and ok: "jobs_ok id_ok K jobs" "ids_ok id_ok K jobs L ids F0" "k \<in> K" "pends (us k)"
    and g: "ID g = j_id (jobs k)" "Name g = HName (j_header (jobs k))" "StorageHash g = job_hash (jobs k)"
      "CreatedAt g = j_now (jobs k)"
  shows "\<exists>r'. r_CreateFileReference repo g r = (None, r') \<and> rinv r'
    \<and> net_inv path_ok K jobs (us(k := U_done (Inr g))) L ids ds F0 (storages r') (files r') B"
proof -
  note j = jobs_okD [OF ok(1)]
  note up = net_invD(1) [OF inv(2)]
  have t: "storages r (job_hash (jobs k)) \<noteq> None" "files r (j_id (jobs k)) = None"
    using uploads_invD(5) [OF up ok(3)] ok(4) by (cases "us k"; simp)+
  have fits: "id_ok (ID g)" "text_ok 255 (Name g)" "storages r (StorageHash g) \<noteq> None" "files r (ID g) = None"
    using j(8) [OF ok(3)] ValidateFile_name_ok [OF j(4) [OF ok(3)] j(5) [OF ok(3)]] t g by simp_all
  from create_file [OF inv(1) fits] obtain r1 where r1: "r_CreateFileReference repo g r = (None, r1)" "rinv r1"
      "storages r1 = storages r" "files r1 = (files r)(j_id (jobs k) \<mapsto> job_ref (jobs k))"
    using g by (auto simp: job_ref_def new_ref_def job_hash_def)
  have pk: "\<nexists>res. us k = U_done res" using ok(4) by (cases "us k") simp_all
  have card: "card (dom (files r1)) \<le> card (dom (files r)) + 1"
    using finite_files [OF inv(1)] by (simp add: r1(4) card_insert_if)
  have up': "uploads_inv path_ok (dropped L ds) (dying L ds) K jobs (us(k := U_done (Inr g))) (storages r) (files r1) B"
    unfolding r1(4) by (rule uploads_reference [OF up ok(1,3,4) finite_files [OF inv(1)] t(2) g(1)])
  have "net_inv path_ok K jobs (us(k := U_done (Inr g))) L ids ds F0 (storages r) (files r1) B"
    using card_unfinished_done [where us = us, OF j(1) ok(3) pk, of "Inr g"] card r1(4)
    by (intro net_upload [OF inv(2) ok(2,3) up']) simp_all
  with r1 show ?thesis by auto
qed

lemma upload_call_lookup:
  assumes inv: "binv s" "rinv r" "net_inv path_ok K jobs us L ids ds F0 (storages r) (files r) (blobs s)"
    and ok: "jobs_ok id_ok K jobs" "ids_ok id_ok K jobs L ids F0" "k \<in> K" and U_lookup: "us k = U_lookup h n"
    and st: "job_step (NewStorageService st repo) (jobs k) (us k, s, r) = (p, s', r')"
  shows "binv s' \<and> rinv r' \<and> net_inv path_ok K jobs (us(k := p)) L ids ds F0 (storages r') (files r') (blobs s')"
proof -
  note thread = uploads_invD(5) [OF net_invD(1) [OF inv(3)] ok(3)]
  note defs = job_step_def NewStorageService_def Let_def
  have t: "h = job_hash (jobs k)" "n = int (length (rd_data (j_rd (jobs k))))" "files r (j_id (jobs k)) = None"
    using thread U_lookup by simp_all
  show ?thesis
  proof (cases "storages r h")
    case None
    from get_storage_miss [OF inv(2) this] st U_lookup have "p = U_create h n \<and> s' = s \<and> r' = r"
      by (auto simp: defs)
    moreover have "net_inv path_ok K jobs (us(k := U_create h n)) L ids ds F0 (storages r) (files r) (blobs s)"
      using U_lookup t None by (intro upload_call_move [OF inv(3) ok]) simp_all
    ultimately show ?thesis using inv by simp
  next
    case (Some x)
    from get_storage [OF inv(2) this] st U_lookup have "p = U_discard h x \<and> s' = s \<and> r' = r"
      by (simp add: defs)
    moreover have "net_inv path_ok K jobs (us(k := U_discard h x)) L ids ds F0 (storages r) (files r) (blobs s)"
      using U_lookup t Some by (intro upload_call_move [OF inv(3) ok]) simp_all
    ultimately show ?thesis using inv by simp
  qed
qed

text \<open>Every call of an upload.\<close>

lemma upload_call:
  assumes inv: "binv s" "rinv r" "net_inv path_ok K jobs us L ids ds F0 (storages r) (files r) (blobs s)"
    and ok: "jobs_ok id_ok K jobs" "ids_ok id_ok K jobs L ids F0" "k \<in> K"
    and st: "job_step (NewStorageService st repo) (jobs k) (us k, s, r) = (p, s', r')"
  shows "binv s' \<and> rinv r' \<and> net_inv path_ok K jobs (us(k := p)) L ids ds F0 (storages r') (files r') (blobs s')"
proof -
  note thread = uploads_invD(5) [OF net_invD(1) [OF inv(3)] ok(3)]
  note defs = job_step_def NewStorageService_def Let_def
  show ?thesis
  proof (cases "us k")
    case U_start
    from upload_call_start [OF inv(1,3) ok U_start st] inv(2) show ?thesis by auto
  next
    case (U_lookup h n)
    from upload_call_lookup [OF inv ok U_lookup st] show ?thesis .
  next
    case (U_discard h x)
    obtain s1 where "st_Delete st (j_path (jobs k)) s = (None, s1)" "binv s1"
        "net_inv path_ok K jobs (us(k := U_increment h x)) L ids ds F0 (storages r) (files r) (blobs s1)"
      using upload_call_drop [OF inv(1,3) ok, of "U_increment h x"] U_discard thread by auto
    then show ?thesis using st U_discard inv(2) by (simp add: defs)
  next
    case (U_increment h x)
    from upload_call_increment [OF inv(2,3) ok U_increment] st U_increment inv(1) show ?thesis by (auto simp: defs)
  next
    case (U_share h x)
    have "h = job_hash (jobs k)" using thread U_share by simp
    with upload_call_refer [OF inv(2,3) ok, of "shared_file (j_id (jobs k)) (j_now (jobs k)) (j_header (jobs k)) h x"]
      st U_share inv(1) show ?thesis by (auto simp: defs shared_file_def)
  next
    case (U_create h n)
    from upload_call_create [OF inv(2,3) ok U_create refl] obtain err r1 where r1:
      "r_CreateStorage repo (first_storage (j_path (jobs k)) (j_now (jobs k)) (j_header (jobs k)) h n) r = (err, r1)"
      "rinv r1" "net_inv path_ok K jobs (us(k := (case err of Some e \<Rightarrow> U_withdraw e | None \<Rightarrow> U_refer h n))) L ids ds F0
        (storages r1) (files r1) (blobs s)" by blast
    then show ?thesis using st U_create inv(1) by (cases err) (simp_all add: defs)
  next
    case (U_withdraw e)
    have crowded: "\<not> alone K jobs k"
      using alone_okD [OF uploads_invD(7) [OF net_invD(1) [OF inv(3)]] ok(3)] U_withdraw by auto
    obtain s1 where "st_Delete st (j_path (jobs k)) s = (None, s1)" "binv s1"
        "net_inv path_ok K jobs (us(k := U_done (Inl e))) L ids ds F0 (storages r) (files r) (blobs s1)"
      using upload_call_drop [OF inv(1,3) ok, of "U_done (Inl e)"] U_withdraw thread crowded by auto
    then show ?thesis using st U_withdraw inv(2) by (simp add: defs)
  next
    case (U_refer h n)
    have "h = job_hash (jobs k)" using thread U_refer by simp
    with upload_call_refer [OF inv(2,3) ok, of "first_file (j_path (jobs k)) (j_id (jobs k)) (j_now (jobs k)) (j_header (jobs k)) h n"]
      st U_refer inv(1) show ?thesis by (auto simp: defs first_file_def)
  next
    case (U_done res)
    then have "p = us k \<and> s' = s \<and> r' = r" using st by (simp add: defs)
    then show ?thesis using inv by simp
  qed (use thread in simp_all)
qed

section \<open>One call of a delete\<close>

text \<open>A record that a file refers to is not dying.\<close>

lemma referred_not_dying:
  assumes inv: "rinv r" "net_inv path_ok K jobs us L ids ds F0 (storages r) (files r) B"
    and "files r j = Some f" and x: "storages r (ref_hash f) = Some x"
  shows "\<not> dying L ds (ref_hash f)"
proof -
  have "j \<in> referrers (files r) (ref_hash f)" using assms(3) by (auto simp: referrers_def)
  then have "0 < card (referrers (files r) (ref_hash f))"
    using finite_referrers [OF finite_files [OF inv(1)]] by (auto simp: card_gt_0_iff)
  then show ?thesis using records_okD(2) [OF uploads_invD(1) [OF net_invD(1) [OF inv(2)]] x] by (simp add: counted_def)
qed

lemma delete_call_start:
  assumes inv: "binv s" "rinv r" "net_inv path_ok K jobs us L ids ds F0 (storages r) (files r) (blobs s)"
    and ids: "ids_ok id_ok K jobs L ids F0" and l: "l \<in> L" and D_start: "ds l = D_start"
    and st: "delete_step (NewStorageService st repo) (ids l) (ds l, s, r) = (q, s', r')"
  shows "binv s' \<and> rinv r' \<and> net_inv path_ok K jobs us L ids (ds(l := q)) F0 (storages r') (files r') (blobs s')"
proof -
  note thread = deletes_invD(1) [OF net_invD(2) [OF inv(3)] l] and defs = NewStorageService_def Let_def
  note i = ids_okD [OF ids] and looks = net_delete_looks [OF inv(3) ids l]
  have F0: "files r (ids l) = F0 (ids l)" using thread D_start by simp
  show ?thesis
  proof (cases "files r (ids l)")
    case None
    from get_hash_miss [OF inv(2) i(3) [OF l] None] st D_start obtain e where "q = D_done (Err e)" "s' = s" "r' = r"
      by (auto simp: defs)
    moreover have "net_inv path_ok K jobs us L ids (ds(l := D_done (Err e))) F0 (storages r) (files r) (blobs s)"
      using D_start None F0 by (intro looks) simp_all
    ultimately show ?thesis using inv by simp
  next
    case (Some f)
    obtain x where x: "storages r (ref_hash f) = Some x" using foreign_key [OF inv(2) Some] by auto
    have live: "\<not> dying L ds (ref_hash f)" by (rule referred_not_dying [OF inv(2,3) Some x])
    from records_okD(4) [OF uploads_invD(1) [OF net_invD(1) [OF inv(3)]] x live]
    have "ref_hash f \<noteq> []" by auto
    from get_hash [OF inv(2) i(3) [OF l] Some this] st D_start have "q = D_remove (ref_hash f) \<and> s' = s \<and> r' = r"
      by (simp add: defs)
    moreover have "net_inv path_ok K jobs us L ids (ds(l := D_remove (ref_hash f))) F0 (storages r) (files r) (blobs s)"
      using D_start Some F0 by (intro looks) simp_all
    ultimately show ?thesis using inv by simp
  qed
qed

lemma delete_call_decrement:
  assumes inv: "binv s" "rinv r" "net_inv path_ok K jobs us L ids ds F0 (storages r) (files r) (blobs s)"
    and ids: "ids_ok id_ok K jobs L ids F0" and l: "l \<in> L" and D_decrement: "ds l = D_decrement h"
    and st: "delete_step (NewStorageService st repo) (ids l) (ds l, s, r) = (q, s', r')"
  shows "binv s' \<and> rinv r' \<and> net_inv path_ok K jobs us L ids (ds(l := q)) F0 (storages r') (files r') (blobs s')"
proof -
  note defs = NewStorageService_def Let_def
  obtain x where x: "storages r h = Some x" "0 < ReferenceCount x"
    using net_decrement_record [OF inv(3) ids l D_decrement] by metis
  have "storage_ok x" using wf [OF inv(2) x(1)] by simp
  then have "count_ok (ReferenceCount x - 1)" using x(2) by (simp add: storage_ok_def count_ok_def)
  from decrement [OF inv(2) x(1) this] obtain r1 t where r1:
      "r_DecrementStorageRef repo h r = ((ReferenceCount x - 1, None), r1)" "rinv r1" "files r1 = files r"
      "storages r1 = (storages r)(h \<mapsto> x\<lparr>ReferenceCount := ReferenceCount x - 1, UpdatedAt := t\<rparr>)" by blast
  from net_delete_count [OF inv(3) ids l D_decrement x(1), of "x\<lparr>ReferenceCount := ReferenceCount x - 1, UpdatedAt := t\<rparr>"]
    r1 st D_decrement inv(1)
  show ?thesis by (auto simp: defs split: if_splits)
qed

lemma delete_call_record:
  assumes inv: "binv s" "rinv r" "net_inv path_ok K jobs us L ids ds F0 (storages r) (files r) (blobs s)"
    and ids: "ids_ok id_ok K jobs L ids F0" and l: "l \<in> L" and D_record: "ds l = D_record h"
    and st: "delete_step (NewStorageService st repo) (ids l) (ds l, s, r) = (q, s', r')"
  shows "binv s' \<and> rinv r' \<and> net_inv path_ok K jobs us L ids (ds(l := q)) F0 (storages r') (files r') (blobs s')"
proof -
  note thread = deletes_invD(1) [OF net_invD(2) [OF inv(3)] l] and defs = NewStorageService_def Let_def
  obtain x where x: "storages r h = Some x" using thread D_record by auto
  have "dying L ds h" using D_record by (intro dyingI [OF l]) simp
  note rec = records_okD [OF uploads_invD(1) [OF net_invD(1) [OF inv(3)]] x]
  have n: "counted (dropped L ds) K jobs us (files r) h = 0" using rec(2) \<open>dying L ds h\<close> by simp
  then have none: "referrers (files r) h = {}"
    using finite_referrers [OF finite_files [OF inv(2)], of h] by (simp add: counted_def)
  have unreferred: "ref_hash f \<noteq> h" if "files r j = Some f" for j f
    using none that by (auto simp: referrers_def)
  have zero: "ReferenceCount x = 0" using rec(1) n by simp
  obtain r1 where r1: "r_DeleteStorage repo h r = (None, r1)" "rinv r1" "files r1 = files r"
      "storages r1 = (storages r)(h := None)"
    using delete_storage [OF inv(2) x zero] unreferred by auto
  from net_delete_record [OF inv(3) ids l D_record] r1 st D_record inv(1) show ?thesis by (simp add: defs)
qed

text \<open>Every call of a delete.\<close>

lemma delete_call:
  assumes inv: "binv s" "rinv r" "net_inv path_ok K jobs us L ids ds F0 (storages r) (files r) (blobs s)"
    and ids: "ids_ok id_ok K jobs L ids F0" and l: "l \<in> L"
    and st: "delete_step (NewStorageService st repo) (ids l) (ds l, s, r) = (q, s', r')"
  shows "binv s' \<and> rinv r' \<and> net_inv path_ok K jobs us L ids (ds(l := q)) F0 (storages r') (files r') (blobs s')"
proof -
  note i = ids_okD [OF ids] and d = deletes_invD [OF net_invD(2) [OF inv(3)]]
  note thread = d(1) [OF l] and defs = NewStorageService_def Let_def
  note looks = net_delete_looks [OF inv(3) ids l]
  show ?thesis
  proof (cases "ds l")
    case D_start
    from delete_call_start [OF inv ids l D_start st] show ?thesis .
  next
    case (D_remove h)
    from delete_file [OF inv(2) i(3) [OF l]] obtain r1 where r1: "r_DeleteByID repo (ids l) r = (None, r1)" "rinv r1"
        "storages r1 = storages r" "files r1 = (files r)(ids l := None)" by blast
    from net_delete_row [OF inv(3) ids l D_remove finite_files [OF inv(2)]] r1 st D_remove inv(1)
    show ?thesis by (simp add: defs)
  next
    case (D_decrement h)
    from delete_call_decrement [OF inv ids l D_decrement st] show ?thesis .
  next
    case (D_lookup h)
    obtain x where x: "storages r h = Some x" "blobs s (StStoragePath x) \<noteq> None" using thread D_lookup by auto
    from get_storage [OF inv(2) x(1)] st D_lookup have "q = D_blob h x \<and> s' = s \<and> r' = r" by (simp add: defs)
    moreover have "net_inv path_ok K jobs us L ids (ds(l := D_blob h x)) F0 (storages r) (files r) (blobs s)"
      using D_lookup thread x by (intro looks) simp_all
    ultimately show ?thesis using inv by simp
  next
    case (D_blob h x)
    obtain c where x: "storages r h = Some x" "blobs s (StStoragePath x) = Some c" using thread D_blob by auto
    have path: "path_ok (StStoragePath x)" using records_okD(3) [OF uploads_invD(1) [OF net_invD(1) [OF inv(3)]] x(1)] .
    from delete_hit [OF inv(1) path x(2)] obtain s1 where s1: "st_Delete st (StStoragePath x) s = (None, s1)" "binv s1"
        "blobs s1 = (blobs s)(StStoragePath x := None)" by blast
    have "net_inv path_ok K jobs us L ids (ds(l := D_record h)) F0 (storages r) (files r) ((blobs s)(StStoragePath x := None))"
      using paths_unique [OF inv(2) _ x(1)] by (intro net_delete_blob [OF inv(3) ids l D_blob]) blast
    then show ?thesis using s1 st D_blob inv(2) by (simp add: defs)
  next
    case (D_record h)
    from delete_call_record [OF inv ids l D_record st] show ?thesis .
  next
    case (D_done res)
    then have "q = ds l \<and> s' = s \<and> r' = r" using st by (simp add: defs)
    then show ?thesis using inv by simp
  qed
qed

section \<open>Every run\<close>

lemma net_run:
  assumes reach: "net_reach (NewStorageService st repo) K jobs L ids (s, r) (us, ds, s', r')"
    and inv: "binv s" "rinv r" "dedup_ok path_ok (storages r) (files r) (blobs s)"
    and ok: "jobs_ok id_ok K jobs" "ids_ok id_ok K jobs L ids (files r)"
    and fresh: "\<And>k. k \<in> K \<Longrightarrow> blobs s (j_path (jobs k)) = None \<and> files r (j_id (jobs k)) = None"
    and room: "int (card (dom (files r)) + card K + card L) < 2147483647"
  shows "binv s' \<and> rinv r' \<and> net_inv path_ok K jobs us L ids ds (files r) (storages r') (files r') (blobs s')"
  using reach
proof (induction "(us, ds, s', r')" arbitrary: us ds s' r')
  case start
  then show ?case
    using net_inv_start [OF inv(3) foreign_key [OF inv(2)] fresh finite_files [OF inv(2)] room] inv(1,2) by simp
next
  case (step w)
  obtain us0 ds0 s0 r0 where w: "w = (us0, ds0, s0, r0)" by (metis surj_pair)
  note IH = step.hyps(2) [OF w]
  from step.hyps(3) [unfolded w] show ?case
  proof (rule net_stepE)
    fix k p s1 r1
    assume "(us, ds, s', r') = (us0(k := p), ds0, s1, r1)" "k \<in> K"
      "job_step (NewStorageService st repo) (jobs k) (us0 k, s0, r0) = (p, s1, r1)"
    with upload_call [of s0 r0 K jobs us0 L ids ds0 "files r" k p s1 r1] IH ok show ?case by simp
  next
    fix l q s1 r1
    assume "(us, ds, s', r') = (us0, ds0(l := q), s1, r1)" "l \<in> L"
      "delete_step (NewStorageService st repo) (ids l) (ds0 l, s0, r0) = (q, s1, r1)"
    with delete_call [of s0 r0 K jobs us0 L ids ds0 "files r" l q s1 r1] IH ok show ?case by simp
  qed
qed

section \<open>Two deletes of one file, two uploads of one content\<close>

text \<open>
  Both deletes read the hash before either drops the row; the second finds no row to drop, which is
  no error, and takes a reference off the count that is not its own.
\<close>

lemma double_delete:
  assumes inv: "binv s" "rinv r" "dedup_ok path_ok (storages r) (files r) (blobs s)"
    and i: "id_ok i" "files r i = Some f" "storages r (ref_hash f) = Some x" "ReferenceCount x = 2"
    and j: "id_ok j" "files r j = Some g" "j \<noteq> i" "ref_hash g = ref_hash f" "cached r j = None"
  shows "\<exists>s' r' e r''.
      net_exec (NewStorageService st repo) jobs (\<lambda>l. i)
        [Inr False, Inr True, Inr False, Inr True, Inr False, Inr True, Inr True, Inr True, Inr True] (net_start (s, r))
      = (\<lambda>k. U_start, \<lambda>l. D_done (Ok ()), s', r') \<and> files r' j = Some g
    \<and> Download (NewStorageService st repo) j (s', r') = (Inl e, s', r'')"
proof -
  let ?h = "ref_hash f"
  have ne: "?h \<noteq> []" using dedup_blob [OF inv(3) i(3)] by auto
  have hash: "r_GetStorageHashByFileID repo i r = (Inr ?h, r)" using get_hash [OF inv(2) i(1,2) ne] .
  obtain r1 where r1: "r_DeleteByID repo i r = (None, r1)" "rinv r1" "storages r1 = storages r"
      "cached r1 = (cached r)(i := None)" "files r1 = (files r)(i := None)"
    using delete_file [OF inv(2) i(1)] by blast
  obtain r2 where r2: "r_DeleteByID repo i r1 = (None, r2)" "rinv r2" "storages r2 = storages r"
      "cached r2 = (cached r)(i := None)" "files r2 = (files r)(i := None)"
    using delete_file [OF r1(2) i(1)] r1(3-5) by auto
  have x2: "storages r2 ?h = Some x" "count_ok (ReferenceCount x - 1)" using r2(3) i(3,4) by (simp_all add: count_ok_def)
  from decrement [OF r2(2) x2] obtain r3 t3 where r3: "r_DecrementStorageRef repo ?h r2 = ((1, None), r3)" "rinv r3"
      "files r3 = files r2" "cached r3 = cached r2"
      "storages r3 = (storages r2)(?h \<mapsto> x\<lparr>ReferenceCount := 1, UpdatedAt := t3\<rparr>)" using i(4) by auto
  define y where "y = x\<lparr>ReferenceCount := 1, UpdatedAt := t3\<rparr>"
  have y: "storages r3 ?h = Some y" "count_ok (ReferenceCount y - 1)" using r3(5) by (simp_all add: y_def count_ok_def)
  from decrement [OF r3(2) y] obtain r4 t4 where r4: "r_DecrementStorageRef repo ?h r3 = ((0, None), r4)" "rinv r4"
      "files r4 = files r3" "cached r4 = cached r3"
      "storages r4 = (storages r3)(?h \<mapsto> y\<lparr>ReferenceCount := 0, UpdatedAt := t4\<rparr>)" by (auto simp: y_def)
  define z where "z = y\<lparr>ReferenceCount := 0, UpdatedAt := t4\<rparr>"
  have z: "storages r4 ?h = Some z" "ReferenceCount z = 0" "StStoragePath z = StStoragePath x"
    using r4(5) by (simp_all add: z_def y_def)
  have g: "files r4 j = Some g" "cached r4 j = None" using r4(3,4) r3(3,4) r2(4,5) j by simp_all
  have look: "r_GetStorageByHash repo ?h r4 = (Inr (Some z), r4)" using get_storage [OF r4(2) z(1)] .
  from dedup_blob [OF inv(3) i(3)] obtain c where c: "path_ok (StStoragePath x)" "blobs s (StStoragePath x) = Some c" by blast
  from delete_hit [OF inv(1) c] obtain s1 where s1: "st_Delete st (StStoragePath x) s = (None, s1)" "binv s1"
      "blobs s1 = (blobs s)(StStoragePath x := None)" by blast
  obtain e0 where kept: "r_DeleteStorage repo ?h r4 = (Some e0, r4)"
    using delete_storage_restricted [OF r4(2) z(1,2) g(1) j(4)] by blast
  have "net_exec (NewStorageService st repo) jobs (\<lambda>l. i)
        [Inr False, Inr True, Inr False, Inr True, Inr False, Inr True, Inr True, Inr True, Inr True] (net_start (s, r))
      = (\<lambda>k. U_start, \<lambda>l. D_done (Ok ()), s1, r4)"
    using hash r1(1) r2(1) r3(1) r4(1) look z(3) s1(1) kept
    by (simp add: net_start_def NewStorageService_def fun_eq_iff)
  moreover have "storages r4 (ref_hash g) = Some z" using z(1) j(4) by simp
  from Download_lost [OF s1(2) r4(2) j(1) g(1) this g(2)] z(3) c(1) s1(3) obtain e r5 where
    "Download (NewStorageService st repo) j (s1, r4) = (Inl e, s1, r5)" by auto
  ultimately show ?thesis using g(1) by blast
qed

text \<open>
  Both uploads find no record of their content; the record of the second is refused, and it answers
  with an error although alone it would have shared the content.
\<close>

lemma same_content:
  assumes inv: "binv s" "rinv r" "dedup_ok path_ok (storages r) (files r) (blobs s)"
    and ok: "jobs_ok id_ok (UNIV :: bool set) jobs" and fresh: "\<And>b. blobs s (j_path (jobs b)) = None \<and> files r (j_id (jobs b)) = None"
    and new: "\<And>b. job_hash (jobs b) = h" "storages r h = None"
  shows "\<exists>s' r' g e.
      net_exec (NewStorageService st repo) jobs ids
        [Inl False, Inl True, Inl False, Inl True, Inl False, Inl False, Inl True, Inl True] (net_start (s, r))
      = ((\<lambda>b. U_done (if b then Inl e else Inr g)), \<lambda>l. D_start, s', r') \<and> ID g = j_id (jobs False)
    \<and> files r' (j_id (jobs True)) = None"
proof -
  note j = jobs_okD [OF ok, simplified]
  let ?j0 = "jobs False" and ?j1 = "jobs True" let ?c0 = "rd_data (j_rd (jobs False))" and ?c1 = "rd_data (j_rd (jobs True))"
  have apart: "j_path ?j1 \<noteq> j_path ?j0" "j_id ?j1 \<noteq> j_id ?j0"
    using j(9) [of True False] j(10) [of True False] by simp_all
  have h: "sha256_hex ?c0 = h" "sha256_hex ?c1 = h" using new(1) by (simp_all add: job_hash_def)
  obtain s1 where s1: "st_Put st (j_path ?j0) (j_rd ?j0) (HSize (j_header ?j0)) s =
        (\<lparr>pr_n = int (length ?c0), pr_err = None, pr_consumed = ?c0\<rparr>, s1)"
      "binv s1" "blobs s1 = (blobs s)(j_path ?j0 \<mapsto> ?c0)" using put_step [OF inv(1) j(7,6)] by blast
  obtain s2 where s2: "st_Put st (j_path ?j1) (j_rd ?j1) (HSize (j_header ?j1)) s1 =
        (\<lparr>pr_n = int (length ?c1), pr_err = None, pr_consumed = ?c1\<rparr>, s2)"
      "binv s2" "blobs s2 = (blobs s1)(j_path ?j1 \<mapsto> ?c1)" using put_step [OF s1(2) j(7,6)] by blast
  obtain e0 where miss: "r_GetStorageByHash repo h r = (Inl e0, r)" using get_storage_miss [OF inv(2) new(2)] by blast
  let ?rec = "\<lambda>b. first_storage (j_path (jobs b)) (j_now (jobs b)) (j_header (jobs b)) h (int (length (rd_data (j_rd (jobs b)))))"
  have sel: "Hash (?rec b) = h" "StStoragePath (?rec b) = j_path (jobs b)" for b by (simp_all add: first_storage_def)
  have fits: "storage_ok (?rec b)" for b
    using ValidateFile_type_ok [OF j(4) [of b]] sha256_hex_ok [of ?c0] h(1) id_path [OF j(7) [of b]]
    by (simp add: storage_ok_def count_ok_def first_storage_def)
  have free: "StStoragePath x \<noteq> j_path (jobs b)" if "storages r g = Some x" for b g x
    using inv(3) fresh [of b] that by (fastforce simp: dedup_ok_def)
  obtain r1 where r1: "r_CreateStorage repo (?rec False) r = (None, r1)" "rinv r1" "files r1 = files r"
      "storages r1 = (storages r)(h \<mapsto> ?rec False)"
    using create_storage [OF inv(2) fits [of False]] new(2) sel free by auto
  let ?g = "first_file (j_path ?j0) (j_id ?j0) (j_now ?j0) (j_header ?j0) h (int (length ?c0))"
  have fid: "ID ?g = j_id ?j0" "Name ?g = HName (j_header ?j0)" "StorageHash ?g = h" by (simp_all add: first_file_def)
  obtain r2 where r2: "r_CreateFileReference repo ?g r1 = (None, r2)" "rinv r2" "storages r2 = storages r1"
      "files r2 (j_id ?j1) = None"
    using create_file [OF r1(2), of ?g] j(8) r1(3,4) ValidateFile_name_ok [OF j(4,5) [of False]] fresh apart(2)
    unfolding fid by auto
  obtain e where taken: "r_CreateStorage repo (?rec True) r2 = (Some e, r2)"
    using create_storage_taken [OF r2(2) fits [of True]] r2(3) r1(4) sel(1) by auto
  have "blobs s2 (j_path ?j1) = Some ?c1" using s2(3) by simp
  from delete_path [OF s2(2) j(7) this] obtain s3 where s3: "st_Delete st (j_path ?j1) s2 = (None, s3)" by blast
  have "net_exec (NewStorageService st repo) jobs ids
        [Inl False, Inl True, Inl False, Inl True, Inl False, Inl False, Inl True, Inl True] (net_start (s, r))
      = ((\<lambda>b. U_done (if b then Inl e else Inr ?g)), \<lambda>l. D_start, s3, r2)"
    using s1(1) s2(1) miss h r1(1) r2(1) taken s3 j(4) apart
    by (simp add: net_start_def job_step_def NewStorageService_def fun_eq_iff)
  then show ?thesis using fid(1) r2(4) by blast
qed

end

section \<open>An example\<close>

text \<open>An upload of the empty content, with the second pair of UUIDs.\<close>

definition demo_job :: job where
  "demo_job = \<lparr>j_path = demo_path2, j_id = demo_id2, j_now = 0, j_rd = reader_of [], j_header = demo_header\<rparr>"

lemma demo_job_simps [simp]:
  "j_path demo_job = demo_path2" "j_id demo_job = demo_id2" "j_rd demo_job = reader_of []" "j_header demo_job = demo_header"
  by (simp_all add: demo_job_def)

lemma demo_job_hash: "job_hash demo_job \<noteq> sha256_hex demo_bytes"
  by (simp add: job_hash_def demo_bytes_def sha256_abc sha256_empty)

lemma demo_jobs_ok: "jobs_ok canonical_uuid (UNIV :: unit set) (\<lambda>k. demo_job)"
  by (simp add: jobs_ok_def demo_uuids2 demo_header_ok inj_on_def)

section \<open>Properties\<close>

text \<open>When all have ended, the invariant of Concurrency says what has become of each.\<close>

lemma net_all_ended:
  assumes run: "local_inv ls s'" "healthy r'"
      "net_inv plain_path K jobs us L ids ds F0 (storages r') (files r') (local_blobs ls s')"
    and ended: "ended K us L ds"
  shows "sys_inv ls (s', r')"
    and "l \<in> L \<Longrightarrow> files r' (ids l) = None \<and> (F0 (ids l) \<noteq> None \<longrightarrow> ds l = D_done (Ok ()))"
    and "k \<in> K \<Longrightarrow> (\<exists>g. us k = U_done (Inr g) \<and> ID g = j_id (jobs k) \<and> files r' (j_id (jobs k)) = Some (job_ref (jobs k)))
         \<or> (\<exists>e. us k = U_done (Inl e) \<and> files r' (j_id (jobs k)) = None \<and> \<not> alone K jobs k)"
    and "i \<notin> (\<lambda>k. j_id (jobs k)) ` K \<Longrightarrow> i \<notin> ids ` L \<Longrightarrow> files r' i = F0 i"
proof -
  note up = uploads_invD [OF net_invD(1) [OF run(3)]] and del = deletes_invD [OF net_invD(2) [OF run(3)]]
  show "sys_inv ls (s', r')"
    using run(1,2) net_inv_end [OF run(3) ended fr.finite_files [OF run(2)]] by (simp add: sys_inv_def)
  show "files r' (ids l) = None \<and> (F0 (ids l) \<noteq> None \<longrightarrow> ds l = D_done (Ok ()))" if l: "l \<in> L"
  proof -
    obtain res where "ds l = D_done res" using ended l by (auto simp: ended_def delete_left_done)
    then show ?thesis using del(1) [OF l] by auto
  qed
  show "(\<exists>g. us k = U_done (Inr g) \<and> ID g = j_id (jobs k) \<and> files r' (j_id (jobs k)) = Some (job_ref (jobs k)))
         \<or> (\<exists>e. us k = U_done (Inl e) \<and> files r' (j_id (jobs k)) = None \<and> \<not> alone K jobs k)" if k: "k \<in> K"
  proof -
    obtain res where "us k = U_done res" using ended k by (auto simp: ended_def upload_left_done)
    then show ?thesis using up(5) [OF k] alone_okD [OF up(7) k] by (cases res) auto
  qed
  show "i \<notin> (\<lambda>k. j_id (jobs k)) ` K \<Longrightarrow> i \<notin> ids ` L \<Longrightarrow> files r' i = F0 i" using del(4) by blast
qed

text \<open>
  Uploads and deletes cannot block each other: under every schedule in which each request has a
  turn again and again, there comes a time from which on all of them have ended, whatever the
  storage and the repository return.
\<close>

theorem fair_requests_end:
  assumes "finite K" and "finite L" and "\<forall>t \<in> K <+> L. infinite {n. sched n = t}"
  shows "\<exists>N. \<forall>n \<ge> N. case net_exec sv jobs ids (map sched [0..<n]) (net_start w) of
    (us, ds, w') \<Rightarrow> ended K us L ds"
proof -
  have "finite (K <+> L)" using assms(1,2) by simp
  moreover have "\<exists>N. \<forall>n \<ge> N. 6 \<le> count_list (map sched [0..<n]) t" if "t \<in> K <+> L" for t
    using assms(3) that by (intro six_turns) blast
  ultimately obtain N where N: "\<forall>n \<ge> N. \<forall>t \<in> K <+> L. 6 \<le> count_list (map sched [0..<n]) t"
    using eventually_all [of "K <+> L" "\<lambda>t n. 6 \<le> count_list (map sched [0..<n]) t"] by blast
  have "ended K us L ds" if "N \<le> n" "net_exec sv jobs ids (map sched [0..<n]) (net_start w) = (us, ds, w')" for n us ds w'
    using N that(1) by (intro net_exec_ended [OF that(2)]) auto
  then show ?thesis by (intro exI [of _ N]) (auto split: prod.split)
qed

theorem fair_requests_end_witness:
  "\<exists>N. \<forall>n \<ge> N. case net_exec (file_service demo_store)
       (\<lambda>k. \<lparr>j_path = demo_path, j_id = demo_id, j_now = 0, j_rd = reader_of demo_bytes, j_header = demo_header\<rparr>)
       (\<lambda>l. demo_id2) (map (\<lambda>n. if even n then Inl () else Inr ()) [0..<n]) (net_start (example_fs, empty_repo)) of
     (us, ds, w') \<Rightarrow> ended UNIV us UNIV ds"
proof (rule fair_requests_end)
  have evens: "infinite {n :: nat. even n}"
    by (rule infinite_super [of "range (\<lambda>n. 2 * n)"]) (auto simp: finite_image_iff inj_on_def)
  have odds: "infinite {n :: nat. odd n}"
    by (rule infinite_super [of "range (\<lambda>n. 2 * n + 1)"]) (auto simp: finite_image_iff inj_on_def)
  have "{n. (if even n then Inl () else Inr ()) = Inl ()} = {n :: nat. even n}"
    "{n. (if even n then Inl () else Inr ()) = Inr ()} = {n :: nat. odd n}" by auto
  with evens odds show "\<forall>t \<in> (UNIV :: unit set) <+> (UNIV :: unit set). infinite {n :: nat. (if even n then Inl () else Inr ()) = t}"
    by (auto simp: Plus_def)
qed simp_all

text \<open>
  C16: A delete sent twice destroys the content of another file. Two deletes of one file that read its
  hash before either drops the row take two references off the count. If one other file shares the
  content, its blob is deleted: both requests answer with success, the other file has its row still,
  and cannot be downloaded.
\<close>

theorem double_delete_destroys_shared:
  assumes "sys_inv ls (s, r)" and "canonical_uuid i" and "files r i = Some f"
    and "storages r (ref_hash f) = Some x" and "ReferenceCount x = 2"
    and "canonical_uuid j" and "files r j = Some g" and "j \<noteq> i" and "ref_hash g = ref_hash f" and "cached_file r j = None"
  shows "\<exists>sched s' r' e w''. net_exec (file_service ls) jobs (\<lambda>l :: bool. i) sched (net_start (s, r))
      = (\<lambda>k. U_start, \<lambda>l. D_done (Ok ()), s', r') \<and> files r' j = Some g
    \<and> Download (file_service ls) j (s', r') = (Inl e, w'')"
  using svc.double_delete [OF sys_invD [OF assms(1)] assms(2-10), of jobs] unfolding file_service_def by blast

theorem double_delete_destroys_shared_witness:
  "\<exists>sched w s' r' e w''. net_exec (file_service demo_store) (\<lambda>k :: unit. demo_job) (\<lambda>l :: bool. demo_id) sched (net_start w)
      = (\<lambda>k. U_start, \<lambda>l. D_done (Ok ()), s', r') \<and> files r' demo_id2 \<noteq> None
    \<and> Download (file_service demo_store) demo_id2 (s', r') = (Inl e, w'')"
proof (rule demo_shared)
  fix s r
  assume inv: "sys_inv demo_store (s, r)" and c: "cached_file r = (\<lambda>i. None)"
    and f: "files r = [demo_id \<mapsto> new_ref 0 demo_bytes demo_header, demo_id2 \<mapsto> new_ref 0 demo_bytes demo_header]"
  have f1: "files r demo_id = Some (new_ref 0 demo_bytes demo_header)" "files r demo_id2 = Some (new_ref 0 demo_bytes demo_header)"
    using f demo_distinct by simp_all
  obtain x where x: "storages r (sha256_hex demo_bytes) = Some x" using view_Some [OF inv f1(1)] by auto
  have "referrers (files r) (sha256_hex demo_bytes) = {demo_id, demo_id2}" using f by (auto simp: referrers_def)
  then have "ReferenceCount x = 2"
    using dedup_count [OF sys_invD(3) [OF inv] x] demo_distinct by simp
  from double_delete_destroys_shared [OF inv demo_uuids(2) f1(1) _ this demo_uuids2(2) f1(2), of "\<lambda>k. demo_job"] x c demo_distinct
  show ?thesis using f1 by simp blast
qed

text \<open>
  C18: Of two uploads of the same new content at a time one can fail although nothing else does: both
  find no record of the content, the record of the second is refused as a duplicate, and it answers
  with an error instead of sharing the content. Nothing is lost otherwise.
\<close>

theorem concurrent_same_content_refused:
  assumes "sys_inv ls (s, r)" and "jobs_ok canonical_uuid (UNIV :: bool set) jobs"
    and "\<And>b. local_blobs ls s (j_path (jobs b)) = None \<and> files r (j_id (jobs b)) = None"
    and "\<And>b. job_hash (jobs b) = h" and "storages r h = None"
  shows "\<exists>sched s' r' g e. net_exec (file_service ls) jobs ids sched (net_start (s, r))
      = ((\<lambda>b. U_done (if b then Inl e else Inr g)), \<lambda>l. D_start, s', r') \<and> ID g = j_id (jobs False)
    \<and> files r' (j_id (jobs True)) = None"
  using svc.same_content [OF sys_invD [OF assms(1)] assms(2-5), of ids] unfolding file_service_def by blast

theorem concurrent_same_content_refused_witness:
  "\<exists>sched s' r' g e. net_exec (file_service demo_store)
       (\<lambda>b. if b then demo_job else demo_job\<lparr>j_path := demo_path, j_id := demo_id\<rparr>) (\<lambda>l :: unit. demo_id) sched
       (net_start (example_fs, empty_repo))
     = ((\<lambda>b. U_done (if b then Inl e else Inr g)), \<lambda>l. D_start, s', r') \<and> ID g = demo_id \<and> files r' demo_id2 = None"
proof -
  let ?jobs = "\<lambda>b. if b then demo_job else demo_job\<lparr>j_path := demo_path, j_id := demo_id\<rparr>"
  have ok: "jobs_ok canonical_uuid UNIV ?jobs"
    using demo_distinct by (auto simp: jobs_ok_def inj_on_def demo_uuids demo_uuids2 demo_header_ok split: if_splits)
  have h: "job_hash (?jobs b) = job_hash demo_job" for b by (simp add: job_hash_def)
  have fresh: "local_blobs demo_store example_fs (j_path (?jobs b)) = None \<and> files empty_repo (j_id (?jobs b)) = None" for b
    by (simp add: demo_blobs demo_files)
  have new: "storages empty_repo (job_hash demo_job) = None" by (simp add: demo_files)
  from concurrent_same_content_refused [OF demo_inv ok fresh h new, of "\<lambda>l. demo_id"] show ?thesis by simp
qed

end
