(* ===== verification/Faults.thy ===== *)
theory Faults
  imports System RepositoryFacts Demo
begin

text \<open>
  How far a failure reaches. Upload and Delete run here over any schedule of failed or lost SQL
  statements, failed cache commands and failed system calls, and the question is what becomes of
  the other files: their rows, their storage records and their blobs. Failures can cost the file
  that is being uploaded, and a delete can cost the files that share its content (see
  \<open>lost_count_destroys_shared_content\<close> in the root theory), but no others.
\<close>

section \<open>The disk\<close>

definition disk_usable :: "LocalStorage \<Rightarrow> localfs \<Rightarrow> bool" where
  "disk_usable ls s \<longleftrightarrow> (\<exists>d. cwd s = Inr d \<and> IsAbs d \<and> basePath ls \<noteq> [] \<and> abs_stack d (basePath ls) \<noteq> [])"

text \<open>From \<open>s\<close> to \<open>s'\<close> every blob is kept, but perhaps the one under \<open>p\<close>.\<close>

definition blobs_kept :: "LocalStorage \<Rightarrow> string \<Rightarrow> localfs \<Rightarrow> localfs \<Rightarrow> bool" where
  "blobs_kept ls p s s' \<longleftrightarrow> disk_usable ls s' \<and>
     (\<forall>q c. q \<noteq> p \<and> local_blobs ls s q = Some c \<longrightarrow> local_blobs ls s' q = Some c)"

lemma local_inv_usable: "local_inv ls s \<Longrightarrow> disk_usable ls s"
  by (auto simp: local_inv_def disk_usable_def root_of_def)

lemma usable_paths:
  assumes "disk_usable ls s" "plain_path p"
  shows "sanitizePath ls p s = Inr p" "resolve (cwd s) (Join (basePath ls) p) = Some (root_of ls s @ [p])"
proof -
  obtain d where d: "cwd s = Inr d" "IsAbs d" and b: "basePath ls \<noteq> []" "abs_stack d (basePath ls) \<noteq> []"
    using assms by (auto simp: disk_usable_def)
  have p: "plain_elem p" "slash \<notin> set p" using assms by (auto simp: plain_path_def plain_elem_def)
  show "sanitizePath ls p s = Inr p" using d b assms(2) by (rule sanitizePath_plain)
  show "resolve (cwd s) (Join (basePath ls) p) = Some (root_of ls s @ [p])"
    using d b p by (simp add: resolve_Inr abs_stack_Join_plain root_of_def)
qed

lemma blobs_kept_nodes:
  assumes "disk_usable ls s" "cwd s' = cwd s" "\<And>q. q \<noteq> root_of ls s @ [p] \<Longrightarrow> kept (nodes s) (nodes s') q"
  shows "blobs_kept ls p s s'"
proof -
  have "root_of ls s' = root_of ls s" using assms(2) by (simp add: root_of_def)
  then have "local_blobs ls s' q = Some c" if "q \<noteq> p" "local_blobs ls s q = Some c" for q c
    using assms(3) [of "root_of ls s @ [q]"] that
    by (auto simp: local_blobs_def kept_def split: option.splits node.splits)
  then show ?thesis using assms(1,2) by (simp add: blobs_kept_def disk_usable_def)
qed

lemma os_Remove_cwd: "os_Remove p fs = (err, fs') \<Longrightarrow> cwd fs' = cwd fs"
  by (auto simp: os_Remove_def next_event_def split: list.splits disk_event.splits option.splits node.splits if_splits)

lemma io_Copy_to_cwd: "io_Copy_to p rd fs = (res, fs') \<Longrightarrow> cwd fs' = cwd fs"
  by (auto simp: io_Copy_to_def next_event_def split: list.splits disk_event.splits option.splits prod.splits)

lemma local_Put_blobs:
  assumes "disk_usable ls s" "plain_path p"
  shows "blobs_kept ls p s (snd (st_Put (local_storage_ops ls) p rd sz s))"
proof -
  let ?full = "Join (basePath ls) p"
  note paths = usable_paths [OF assms]
  obtain e1 s1 where m: "os_MkdirAll (Dir ?full) s = (e1, s1)" by fastforce
  obtain e2 s2 where c: "os_Create ?full s1 = (e2, s2)" by fastforce
  obtain r3 s3 where w: "io_Copy_to ?full rd s2 = (r3, s3)" by fastforce
  have c1: "cwd s1 = cwd s" and c2: "cwd s2 = cwd s" and c3: "cwd s3 = cwd s"
    using os_MkdirAll_keeps(2) [OF m] os_Create_keeps(2) [OF c] io_Copy_to_cwd [OF w] by simp_all
  have k1: "kept (nodes s) (nodes s1) q" for q using os_MkdirAll_keeps(1) [OF m] .
  have k2: "kept (nodes s) (nodes s2) q" and k3: "kept (nodes s) (nodes s3) q" if "q \<noteq> root_of ls s @ [p]" for q
  proof -
    have other: "resolve (cwd s1) ?full \<noteq> Some q" "resolve (cwd s2) ?full \<noteq> Some q" using paths(2) c1 c2 that by simp_all
    show "kept (nodes s) (nodes s2) q" using os_Create_keeps(1) [OF c other(1)] k1 [of q] by (simp add: kept_def)
    then show "kept (nodes s) (nodes s3) q" using io_Copy_to_keeps [OF w other(2)] by (simp add: kept_def)
  qed
  have "blobs_kept ls p s s1" by (rule blobs_kept_nodes [OF assms(1) c1 k1])
  moreover have "blobs_kept ls p s s2" by (rule blobs_kept_nodes [OF assms(1) c2 k2])
  moreover have "blobs_kept ls p s s3" by (rule blobs_kept_nodes [OF assms(1) c3 k3])
  ultimately show ?thesis
    using paths(1) m c w by (auto simp: local_storage_ops_def local_Put_def Let_def split: option.split prod.split)
qed

lemma local_Delete_blobs:
  assumes "disk_usable ls s" "plain_path p"
  shows "blobs_kept ls p s (snd (st_Delete (local_storage_ops ls) p s))"
proof -
  note paths = usable_paths [OF assms]
  obtain e s1 where r: "os_Remove (Join (basePath ls) p) s = (e, s1)" by fastforce
  have "kept (nodes s) (nodes s1) q" if "q \<noteq> root_of ls s @ [p]" for q
    using os_Remove_keeps [OF r, of q] paths(2) that by (simp add: kept_def)
  then have "blobs_kept ls p s s1" using blobs_kept_nodes [OF assms(1) os_Remove_cwd [OF r]] by blast
  then show ?thesis using paths(1) r by (auto simp: local_storage_ops_def local_Delete_def split: option.split)
qed

lemma blobs_kept_refl: "disk_usable ls s \<Longrightarrow> blobs_kept ls p s s"
  by (simp add: blobs_kept_def)

lemma blobs_kept_trans: "blobs_kept ls p s s' \<Longrightarrow> blobs_kept ls p s' s'' \<Longrightarrow> blobs_kept ls p s s''"
  by (simp add: blobs_kept_def)

section \<open>The tables\<close>

text \<open>The row of a file with the path of its record.\<close>

definition file_at :: "db \<Rightarrow> string \<Rightarrow> (file_ref \<times> string) option" where
  "file_at d j =
     (case files_of d j of
        None \<Rightarrow> None
      | Some f \<Rightarrow> map_option (\<lambda>x. (f, StStoragePath x)) (storages_of d (ref_hash f)))"

text \<open>From \<open>d\<close> to \<open>d'\<close> every file is kept, but perhaps those of \<open>X\<close>.\<close>

definition rows_kept :: "string set \<Rightarrow> db \<Rightarrow> db \<Rightarrow> bool" where
  "rows_kept X d d' \<longleftrightarrow> db_wf d' \<and> (\<forall>j v. j \<notin> X \<and> file_at d j = Some v \<longrightarrow> file_at d' j = Some v)"

lemma rows_kept_refl: "db_wf d \<Longrightarrow> rows_kept X d d"
  by (simp add: rows_kept_def)

lemma rows_kept_trans: "rows_kept X d d' \<Longrightarrow> rows_kept X d' d'' \<Longrightarrow> rows_kept X d d''"
  by (simp add: rows_kept_def)

lemma file_at_maps:
  assumes "files_of d' j = files_of d j"
    and "\<And>f x. files_of d j = Some f \<Longrightarrow> storages_of d (ref_hash f) = Some x \<Longrightarrow>
      \<exists>x'. storages_of d' (ref_hash f) = Some x' \<and> StStoragePath x' = StStoragePath x"
    and "file_at d j = Some v"
  shows "file_at d' j = Some v"
  using assms by (fastforce simp: file_at_def split: option.splits)

lemma insert_storage_keeps:
  assumes "db_wf d" shows "rows_kept X d (snd (insert_storage x d))"
proof -
  have "files_of (snd (insert_storage x d)) = files_of d"
    by (auto simp: insert_storage_def files_of_def [abs_def] split: sum.split)
  moreover have "storages_of (snd (insert_storage x d)) h = Some y" if "storages_of d h = Some y" for h y
    using that by (auto simp: insert_storage_def storages_of_def find_append split: sum.split)
  ultimately show ?thesis
    using insert_storage_wf [OF assms] by (auto simp: rows_kept_def intro: file_at_maps)
qed

lemma update_storage_ref_paths:
  assumes "storages_of d g = Some y"
  shows "\<exists>y'. storages_of (snd (update_storage_ref k t h d)) g = Some y' \<and> StStoragePath y' = StStoragePath y"
proof -
  have "find (\<lambda>s. Hash s = g) (map (with_count h n t) (storage_tbl d)) = Some (with_count h n t y)" for n
    using assms find_map_key [of Hash "with_count h n t" g "storage_tbl d"] by (simp add: storages_of_def)
  then show ?thesis using assms
    by (auto simp: update_storage_ref_cases storages_of_def split: option.split sum.split)
qed

lemma update_storage_ref_files: "files_of (snd (update_storage_ref k t h d)) = files_of d"
  by (auto simp: update_storage_ref_cases files_of_def [abs_def] split: option.split sum.split)

lemma delete_storage_files: "files_of (snd (delete_storage h d)) = files_of d"
  by (auto simp: delete_storage_def files_of_def [abs_def] split: sum.split)

lemma update_storage_ref_keeps:
  assumes "db_wf d" shows "rows_kept X d (snd (update_storage_ref k t h d))"
  using update_storage_ref_wf [OF assms] update_storage_ref_paths
  by (auto simp: rows_kept_def update_storage_ref_files intro: file_at_maps)

lemma delete_storage_keeps:
  assumes "db_wf d" shows "rows_kept X d (snd (delete_storage h d))"
proof -
  have "storages_of (snd (delete_storage h d)) (ref_hash f) = Some x"
    if f: "files_of d j = Some f" and x: "storages_of d (ref_hash f) = Some x" for j f x
  proof -
    obtain row where row: "row \<in> set (files_tbl d)" "fr_storage_hash row = ref_hash f"
      using files_of_Some [OF assms, of j f] f by auto
    show ?thesis
    proof (cases "\<exists>s \<in> set (storage_tbl d). Hash s = ref_hash f \<and> ReferenceCount s = 0 \<and> ref_hash f = h")
      case True
      then show ?thesis using row x by (auto simp: delete_storage_def text_param_def list_ex_iff split: sum.split)
    next
      case False
      then have "find (\<lambda>s. Hash s = ref_hash f) (filter (\<lambda>s. \<not> (Hash s = h \<and> ReferenceCount s = 0)) (storage_tbl d))
          = find (\<lambda>s. Hash s = ref_hash f) (storage_tbl d)"
        by (intro find_filter_key) auto
      then show ?thesis using x by (auto simp: delete_storage_def text_param_def storages_of_def split: sum.split)
    qed
  qed
  then show ?thesis using delete_storage_wf [OF assms]
    by (auto simp: rows_kept_def delete_storage_files intro: file_at_maps)
qed

lemma insert_file_keeps:
  assumes "db_wf d" shows "rows_kept X d (snd (insert_file i n h t d))"
proof -
  have "storages_of (snd (insert_file i n h t d)) = storages_of d"
    by (auto simp: insert_file_def storages_of_def [abs_def] split: sum.split)
  moreover have "files_of (snd (insert_file i n h t d)) j = Some f" if "files_of d j = Some f" for j f
    using that by (auto simp: insert_file_def files_of_def find_append split: sum.split)
  ultimately have "file_at (snd (insert_file i n h t d)) j = Some v" if "file_at d j = Some v" for j v
    using that by (auto simp: file_at_def split: option.splits)
  then show ?thesis using insert_file_wf [OF assms] by (simp add: rows_kept_def)
qed

lemma delete_file_keeps:
  assumes "db_wf d" "canonical_uuid i" shows "rows_kept {i} d (snd (delete_file i d))"
proof -
  have "storages_of (snd (delete_file i d)) = storages_of d"
    by (auto simp: delete_file_def storages_of_def [abs_def] split: sum.split)
  moreover have "files_of (snd (delete_file i d)) j = files_of d j" if "j \<noteq> i" for j
  proof -
    have "find (\<lambda>f. fr_id f = j) (filter (\<lambda>f. fr_id f \<noteq> i) (files_tbl d)) = find (\<lambda>f. fr_id f = j) (files_tbl d)"
      using that by (intro find_filter_key) simp
    then show ?thesis using assms(2) by (simp add: delete_file_def files_of_def canonical_uuid_def)
  qed
  ultimately have "file_at (snd (delete_file i d)) j = Some v" if "j \<noteq> i" "file_at d j = Some v" for j v
    using that by (auto simp: file_at_def split: option.splits)
  then show ?thesis using delete_file_wf [OF assms(1)] by (simp add: rows_kept_def)
qed


text \<open>From \<open>d\<close> to \<open>d'\<close> every record stays where it is.\<close>

definition paths_kept :: "db \<Rightarrow> db \<Rightarrow> bool" where
  "paths_kept d d' \<longleftrightarrow> (\<forall>h x. storages_of d h = Some x \<longrightarrow>
     (\<exists>x'. storages_of d' h = Some x' \<and> StStoragePath x' = StStoragePath x))"

lemma paths_kept_refl: "paths_kept d d"
  by (simp add: paths_kept_def)

lemma paths_kept_trans: "paths_kept d d' \<Longrightarrow> paths_kept d' d'' \<Longrightarrow> paths_kept d d''"
  unfolding paths_kept_def by metis

lemma update_storage_ref_paths_kept: "paths_kept d (snd (update_storage_ref k t h d))"
  using update_storage_ref_paths by (simp add: paths_kept_def)

lemma delete_file_paths_kept: "paths_kept d (snd (delete_file i d))"
  by (auto simp: paths_kept_def delete_file_def storages_of_def split: sum.split)

section \<open>The repository\<close>

lemma run_sql_rows:
  assumes "db_wf (db w)" "rows_kept X (db w) (snd (stmt (db w)))" "run_sql stmt w = (r, w')"
  shows "rows_kept X (db w) (db w')"
  using run_sql_db [of stmt w] assms rows_kept_refl by auto

lemma run_sql_paths:
  assumes "paths_kept (db w) (snd (stmt (db w)))" "run_sql stmt w = (r, w')"
  shows "paths_kept (db w) (db w')"
  using run_sql_db [of stmt w] assms paths_kept_refl by auto

lemma run_sql_files:
  assumes "files_of (snd (stmt (db w))) = files_of (db w)" "run_sql stmt w = (r, w')"
  shows "files_of (db w') = files_of (db w)"
  using run_sql_db [of stmt w] assms by auto

text \<open>A statement that reports success has run.\<close>

lemma run_sql_ran:
  assumes "run_sql stmt w = (Inr x, w')" shows "stmt (db w) = (Inr x, db w')"
proof -
  obtain ev w1 where ev: "next_db_event w = (ev, w1)" by fastforce
  have "db w1 = db w" using db_events_simps(1) [of w] ev by simp
  then show ?thesis using assms ev by (auto simp: run_sql_def split: db_event.splits prod.splits)
qed

lemma CreateStorage_rows:
  assumes "db_wf (db w)" "CreateStorage x w = (e, w')" shows "rows_kept X (db w) (db w')"
  using assms run_sql_rows [where stmt = "insert_storage x", OF assms(1) insert_storage_keeps [OF assms(1)]]
  by (auto simp: CreateStorage_def split: prod.splits sum.splits)

lemma IncrementStorageRef_rows:
  assumes "db_wf (db w)" "IncrementStorageRef h w = (e, w')"
  shows "rows_kept X (db w) (db w')" "paths_kept (db w) (db w')"
  using assms
    run_sql_rows [where stmt = "update_storage_ref 1 (clock w) h", OF assms(1) update_storage_ref_keeps [OF assms(1)]]
    run_sql_paths [where stmt = "update_storage_ref 1 (clock w) h", OF update_storage_ref_paths_kept]
  by (auto simp: IncrementStorageRef_def split: prod.splits sum.splits)

lemma DecrementStorageRef_rows:
  assumes "db_wf (db w)" "DecrementStorageRef h w = (e, w')"
  shows "rows_kept X (db w) (db w')" "paths_kept (db w) (db w')" "files_of (db w') = files_of (db w)"
  using assms run_sql_files [where stmt = "update_storage_ref (- 1) (clock w) h", OF update_storage_ref_files]
    run_sql_rows [where stmt = "update_storage_ref (- 1) (clock w) h", OF assms(1) update_storage_ref_keeps [OF assms(1)]]
    run_sql_paths [where stmt = "update_storage_ref (- 1) (clock w) h", OF update_storage_ref_paths_kept]
  by (auto simp: DecrementStorageRef_def Let_def split: prod.splits sum.splits option.splits)

lemma DeleteStorage_rows:
  assumes "db_wf (db w)" "DeleteStorage h w = (e, w')"
  shows "rows_kept X (db w) (db w')" "files_of (db w') = files_of (db w)"
  using assms run_sql_files [where stmt = "delete_storage h", OF delete_storage_files] run_sql_rows [where stmt = "delete_storage h", OF assms(1) delete_storage_keeps [OF assms(1)]]
  by (auto simp: DeleteStorage_def split: prod.splits sum.splits)

lemma CreateFileReference_rows:
  assumes "db_wf (db w)" "CreateFileReference f w = (e, w')" shows "rows_kept X (db w) (db w')"
  using assms run_sql_rows [where stmt = "insert_file (ID f) (Name f) (StorageHash f) (CreatedAt f)",
      OF assms(1) insert_file_keeps [OF assms(1)]]
  by (auto simp: CreateFileReference_def split: prod.splits sum.splits)

lemma DeleteByID_rows:
  assumes "db_wf (db w)" "canonical_uuid i" "DeleteByID i w = (e, w')"
  shows "rows_kept {i} (db w) (db w')" "paths_kept (db w) (db w')" "e = None \<Longrightarrow> files_of (db w') i = None"
proof -
  obtain r w1 where d: "run_sql (delete_file i) w = (r, w1)" by fastforce
  have db': "db w' = db w1" and e: "e = None \<longleftrightarrow> (\<exists>u. r = Inr u)"
    using assms(3) d by (auto simp: DeleteByID_def split: sum.splits)
  show "rows_kept {i} (db w) (db w')"
    using run_sql_rows [OF assms(1) delete_file_keeps [OF assms(1,2)] d] db' by simp
  show "paths_kept (db w) (db w')" using run_sql_paths [OF delete_file_paths_kept d] db' by simp
  assume "e = None"
  then have "db w' = snd (delete_file i (db w))" using run_sql_ran d e db' by fastforce
  then show "files_of (db w') i = None"
    using assms(2) by (simp add: delete_file_def canonical_uuid_def files_of_None)
qed

lemma GetStorageByHash_found:
  assumes "GetStorageByHash h w = (Inr found, w')"
  shows "\<exists>x. found = Some x \<and> storages_of (db w) h = Some x"
proof -
  obtain x where "run_sql (select_storage h) w = (Inr (Some x), w')" "found = Some x"
    using assms by (auto simp: GetStorageByHash_def split: prod.splits sum.splits option.splits)
  then have "select_storage h (db w) = (Inr (Some x), db w')" by (auto dest: run_sql_ran)
  then show ?thesis using \<open>found = Some x\<close>
    by (auto simp: select_storage_def storages_of_def text_param_def split: sum.splits if_splits)
qed

lemma CreateStorage_done:
  assumes "storage_ok x" "CreateStorage x w = (None, w')"
  shows "storages_of (db w') (Hash x) = Some x"
proof -
  obtain d where d: "db w' = d" "insert_storage x (db w) = (Inr (), d)"
    using assms(2) by (auto simp: CreateStorage_def split: prod.splits sum.splits dest: run_sql_ran)
  have "\<forall>y \<in> set (storage_tbl (db w)). Hash y \<noteq> Hash x" "storage_tbl (db w') = storage_tbl (db w) @ [x]"
    unfolding d(1) using assms(1) d(2) by (auto simp: insert_storage_def storage_row_ok list_ex_iff split: if_splits)
  moreover from this(1) have "find (\<lambda>y. Hash y = Hash x) (storage_tbl (db w)) = None" by (simp add: find_None_iff)
  ultimately show ?thesis by (simp add: storages_of_def find_append)
qed

lemma CreateFileReference_done:
  assumes "CreateFileReference f w = (None, w')" "canonical_uuid (ID f)" "text_ok 64 (StorageHash f)"
    and "ValidString (Name f) \<Longrightarrow> text_ok 255 (Name f)"
  shows "files_of (db w') (ID f) =
      Some \<lparr>ref_name = Name f, ref_hash = StorageHash f, ref_created = CreatedAt f\<rparr>"
    "storages_of (db w') = storages_of (db w)"
proof -
  obtain w1 where "run_sql (insert_file (ID f) (Name f) (StorageHash f) (CreatedAt f)) w = (Inr (), w1)"
      "db w' = db w1"
    using assms(1) by (auto simp: CreateFileReference_def split: prod.splits sum.splits)
  then have ins: "insert_file (ID f) (Name f) (StorageHash f) (CreatedAt f) (db w) = (Inr (), db w')"
    by (auto dest: run_sql_ran)
  then have "ValidString (Name f)"
    using insert_file_invalid_name [of "Name f" "ID f" "StorageHash f" "CreatedAt f" "db w"] by auto
  then have vars: "varchar 255 (Name f) = Inr (Name f)" "varchar 64 (StorageHash f) = Inr (StorageHash f)"
    using assms(3,4) varchar_ok by blast+
  have u: "uuid_in (ID f) = Inr (ID f)" using assms(2) by (simp add: canonical_uuid_def)
  have fresh: "files_of (db w) (ID f) = None" and stored: "storages_of (db w) (StorageHash f) \<noteq> None"
    using ins by (auto simp: insert_file_def u vars list_ex_iff files_of_None storages_of_None simp del: not_None_eq
        split: if_splits)
  obtain d where d: "insert_file (ID f) (Name f) (StorageHash f) (CreatedAt f) (db w) = (Inr (), d)"
      "storage_tbl d = storage_tbl (db w)"
      "files_of d = (files_of (db w))(ID f \<mapsto> \<lparr>ref_name = Name f, ref_hash = StorageHash f, ref_created = CreatedAt f\<rparr>)"
    using insert_file_maps [OF assms(2) assms(4) [OF \<open>ValidString (Name f)\<close>] assms(3) stored fresh] by blast
  have eq: "db w' = d" using ins d(1) by simp
  show "files_of (db w') (ID f) =
      Some \<lparr>ref_name = Name f, ref_hash = StorageHash f, ref_created = CreatedAt f\<rparr>"
    unfolding eq d(3) by simp
  show "storages_of (db w') = storages_of (db w)" unfolding eq by (rule storages_of_tbl [OF d(2)])
qed

text \<open>The hash that \<open>Delete\<close> works with is that of the file it was asked to delete.\<close>

lemma GetStorageHashByFileID_true:
  assumes "db_wf (db w)" "canonical_uuid i" "GetStorageHashByFileID i w = (Inr h, w')"
  shows "\<exists>f. files_of (db w) i = Some f \<and> ref_hash f = h"
proof -
  have row: "\<exists>f. files_of (db w) i = Some f \<and> ref_hash f = fr_storage_hash x \<and> fr_checksum x = None"
    if run: "run_sql (select_file i) v = (Inr (Some x), v')" and v: "db v = db w" for x v v'
  proof -
    have "select_file i (db w) = (Inr (Some x), db v')" using run_sql_ran [OF run] v by simp
    then have "fst (select_file i (db w)) = Inr (Some x)" by simp
    then have x: "find (\<lambda>f. fr_id f = i) (files_tbl (db w)) = Some x"
      using assms(2) by (simp add: select_file_def canonical_uuid_def)
    then have "x \<in> set (files_tbl (db w))" by (auto simp: find_Some_iff)
    then have "row_ok x" using assms(1) by (simp add: db_wf_def list_pred_iff)
    with x show ?thesis by (simp add: files_of_def row_ok_legacy)
  qed
  obtain r w1 where one: "run_sql (select_file i) w = (r, w1)" by fastforce
  have db1: "db w1 = db w" using run_sql_reads [OF _ one] by simp
  obtain r2 w2 where two: "run_sql (select_file i) w1 = (r2, w2)" by fastforce
  show ?thesis
    using assms(3) one two row [of w] row [of w1] db1
    by (fastforce simp: GetStorageHashByFileID_def split: sum.splits option.splits if_splits)
qed

section \<open>The service\<close>

lemma file_service_ops:
  "svc_storage (file_service ls) = local_storage_ops ls" "svc_repo (file_service ls) = file_repository"
  by (simp_all add: file_service_def NewStorageService_def)

lemmas service_ops = file_service_ops file_repository_def

lemma rows_wf: "rows_kept X d d' \<Longrightarrow> db_wf d'" and blobs_usable: "blobs_kept ls p s s' \<Longrightarrow> disk_usable ls s'"
  by (simp_all add: rows_kept_def blobs_kept_def)

lemma local_Delete_step:
  "disk_usable ls s \<Longrightarrow> plain_path p \<Longrightarrow> st_Delete (local_storage_ops ls) p s = (e, s') \<Longrightarrow> blobs_kept ls p s s'"
  using local_Delete_blobs [of ls s p] by simp

lemma local_Put_step:
  "disk_usable ls s \<Longrightarrow> plain_path p \<Longrightarrow> st_Put (local_storage_ops ls) p rd sz s = (pr, s') \<Longrightarrow> blobs_kept ls p s s'"
  using local_Put_blobs [of ls s p rd sz] by simp

text \<open>A \<open>Put\<close> that reports success has stored what the reader delivered.\<close>

lemma local_Put_done:
  assumes "disk_usable ls s" "plain_path p"
    and "st_Put (local_storage_ops ls) p rd sz s = (pr, s')" "pr_err pr = None"
  shows "pr_consumed pr = rd_data rd" "pr_n pr = int (length (rd_data rd))"
    "local_blobs ls s' p = Some (rd_data rd)"
proof -
  let ?full = "Join (basePath ls) p"
  note paths = usable_paths [OF assms(1,2)]
  obtain s1 s2 where m: "os_MkdirAll (Dir ?full) s = (None, s1)" and c: "os_Create ?full s1 = (None, s2)"
      and w: "io_Copy_to ?full rd s2 = ((pr_n pr, None), s')" and con: "pr_consumed pr = rd_data rd"
    using assms(3,4) paths(1)
    by (auto simp: local_storage_ops_def local_Put_def Let_def put_error_def split: option.splits prod.splits)
  obtain ev s3 where ev: "next_event s2 = (ev, s3)" by fastforce
  have c2: "cwd s2 = cwd s" using os_MkdirAll_keeps(2) [OF m] os_Create_keeps(2) [OF c] by simp
  have s3: "cwd s3 = cwd s2" "nodes s3 = nodes s2"
    using ev by (auto simp: next_event_def split: list.splits)
  have ok: "ev = DiskOk" "rd_err rd = None"
    using w ev by (auto simp: io_Copy_to_def Let_def split: disk_event.splits prod.splits)
  have res: "resolve (cwd s3) ?full = Some (root_of ls s @ [p])" using paths(2) s3 c2 by simp
  have s': "pr_n pr = int (length (rd_data rd))"
      "s' = s3\<lparr>nodes := put_node (nodes s3) (root_of ls s @ [p]) (FileNode (rd_data rd))\<rparr>"
    using w ev ok res by (simp_all add: io_Copy_to_def)
  have "root_of ls s' = root_of ls s" using s' s3 c2 by (simp add: root_of_def)
  then show "local_blobs ls s' p = Some (rd_data rd)"
    using s' by (simp add: local_blobs_def lookup_node_def put_node_def)
  show "pr_consumed pr = rd_data rd" "pr_n pr = int (length (rd_data rd))" using con s' by simp_all
qed

lemma upload_new_kept:
  assumes "db_wf (db r)" "disk_usable ls s" "plain_path path"
    and "upload_new (file_service ls) path fileID now header h n (s, r) = (res, s', r')"
  shows "blobs_kept ls path s s'" "rows_kept {} (db r) (db r')"
proof -
  let ?x = "\<lparr>Hash = h, StSize = n, StContentType = HContentType header,
    StStoragePath = path, ReferenceCount = 1, StCreatedAt = now, UpdatedAt = now\<rparr>"
  let ?f = "\<lparr>ID = fileID, Name = HName header, StorageHash = h, CreatedAt = now, FStorage = Some ?x, Size = n,
    ContentType = HContentType header, StoragePath = path, Checksum = h\<rparr>"
  obtain e1 r1 where one: "CreateStorage ?x r = (e1, r1)" by fastforce
  obtain e2 r2 where two: "CreateFileReference ?f r1 = (e2, r2)" by fastforce
  obtain e3 r3 where three: "DeleteStorage h r2 = (e3, r3)" by fastforce
  obtain e4 s4 where four: "st_Delete (local_storage_ops ls) path s = (e4, s4)" by fastforce
  have k1: "rows_kept {} (db r) (db r1)" by (rule CreateStorage_rows [OF assms(1) one])
  have k2: "rows_kept {} (db r) (db r2)"
    using k1 by (rule rows_kept_trans) (rule CreateFileReference_rows [OF rows_wf [OF k1] two])
  have k3: "rows_kept {} (db r) (db r3)"
    using k2 by (rule rows_kept_trans) (rule DeleteStorage_rows(1) [OF rows_wf [OF k2] three])
  have b: "blobs_kept ls path s s" "blobs_kept ls path s s4"
    using blobs_kept_refl [OF assms(2)] local_Delete_step [OF assms(2,3) four] by simp_all
  have "s' \<in> {s, s4} \<and> r' \<in> {r1, r2, r3}"
    using assms(4) one two three four
    by (auto simp: upload_new_def service_ops split: option.splits)
  then show "blobs_kept ls path s s'" "rows_kept {} (db r) (db r')" using k1 k2 k3 b by auto
qed

lemma upload_new_done:
  assumes "canonical_uuid path" "canonical_uuid fileID" "ValidateFile (Some header) = None"
    and "upload_new (file_service ls) path fileID now header (sha256_hex c) (int (length c)) (s, r) = (Inr f, s', r')"
  shows "s' = s \<and> files_of (db r') fileID = Some (new_ref now c header) \<and>
    storages_of (db r') (sha256_hex c) = Some (new_storage path now c header)"
proof -
  let ?x = "new_storage path now c header"
  let ?f = "joined fileID (new_ref now c header) ?x"
  have fits: "storage_ok ?x"
    using ValidateFile_type_ok [OF assms(3)] sha256_hex_ok canonical_uuid_path [OF assms(1)]
    by (simp add: storage_ok_def count_ok_def)
  obtain r1 where one: "CreateStorage ?x r = (None, r1)" and two: "CreateFileReference ?f r1 = (None, r')"
      and s': "s' = s"
    using assms(4)
    by (auto simp: upload_new_def service_ops Let_def new_storage_def new_ref_def joined_def split: prod.splits option.splits)
  have fid: "ID ?f = fileID" "Name ?f = HName header" "StorageHash ?f = sha256_hex c" "CreatedAt ?f = now"
    by (simp_all add: joined_def new_ref_def)
  show ?thesis
    using CreateStorage_done [OF fits one] CreateFileReference_done [OF two] ValidateFile_name_ok [OF assms(3)]
      sha256_hex_ok assms(2) s' unfolding fid by (simp add: new_ref_def)
qed

lemma upload_duplicate_kept:
  assumes "db_wf (db r)" "disk_usable ls s" "plain_path path"
    and "upload_duplicate (file_service ls) path fileID now header h x (s, r) = (res, s', r')"
  shows "blobs_kept ls path s s'" "rows_kept {} (db r) (db r')"
proof -
  let ?f = "\<lparr>ID = fileID, Name = HName header, StorageHash = h, CreatedAt = now,
    FStorage = Some x, Size = StSize x, ContentType = StContentType x,
    StoragePath = StStoragePath x, Checksum = Hash x\<rparr>"
  obtain e1 s1 where del: "st_Delete (local_storage_ops ls) path s = (e1, s1)" by fastforce
  obtain e2 r1 where one: "IncrementStorageRef h r = (e2, r1)" by fastforce
  obtain e3 r2 where two: "CreateFileReference ?f r1 = (e3, r2)" by fastforce
  obtain e4 r3 where three: "DecrementStorageRef h r2 = (e4, r3)" by fastforce
  have k1: "rows_kept {} (db r) (db r1)" by (rule IncrementStorageRef_rows(1) [OF assms(1) one])
  have k2: "rows_kept {} (db r) (db r2)"
    using k1 by (rule rows_kept_trans) (rule CreateFileReference_rows [OF rows_wf [OF k1] two])
  have k3: "rows_kept {} (db r) (db r3)"
    using k2 by (rule rows_kept_trans) (rule DecrementStorageRef_rows(1) [OF rows_wf [OF k2] three])
  have "s' = s1 \<and> r' \<in> {r1, r2, r3}"
    using assms(4) del one two three
    by (auto simp: upload_duplicate_def service_ops split: option.splits)
  then show "blobs_kept ls path s s'" "rows_kept {} (db r) (db r')"
    using k1 k2 k3 local_Delete_step [OF assms(2,3) del] by auto
qed

lemma upload_duplicate_done:
  assumes "db_wf (db r)" "canonical_uuid fileID" "ValidateFile (Some header) = None"
    and "upload_duplicate (file_service ls) path fileID now header (sha256_hex c) x (s, r) = (Inr f, s', r')"
  shows "files_of (db r') fileID = Some (new_ref now c header)" "paths_kept (db r) (db r')"
proof -
  let ?f = "joined fileID (new_ref now c header) x"
  obtain r1 where one: "IncrementStorageRef (sha256_hex c) r = (None, r1)"
      and two: "CreateFileReference ?f r1 = (None, r')"
    using assms(4)
    by (auto simp: upload_duplicate_def service_ops Let_def new_ref_def joined_def split: prod.splits option.splits)
  have fid: "ID ?f = fileID" "Name ?f = HName header" "StorageHash ?f = sha256_hex c" "CreatedAt ?f = now"
    by (simp_all add: joined_def new_ref_def)
  have created: "files_of (db r') fileID = Some (new_ref now c header)" "storages_of (db r') = storages_of (db r1)"
    using CreateFileReference_done [OF two] ValidateFile_name_ok [OF assms(3)] sha256_hex_ok assms(2)
    unfolding fid by (simp_all add: new_ref_def)
  show "files_of (db r') fileID = Some (new_ref now c header)" by (rule created(1))
  show "paths_kept (db r) (db r')"
    using IncrementStorageRef_rows(2) [OF assms(1) one] created(2) by (simp add: paths_kept_def)
qed

text \<open>The runs of \<open>Upload\<close>: it stops early, or it ends in one of the two branches.\<close>

lemma Upload_cases:
  assumes "Upload (file_service ls) path fileID now rd header (s0, r0) = (res, s', r')"
    and "st_Put (local_storage_ops ls) path rd (HSize header) s0 = (put, s1)"
    and "GetStorageByHash (sha256_hex (pr_consumed put)) r0 = (found, r1)"
  obtains
    (stopped) "s' \<in> {s0, s1}" "r' = r0" "\<And>f. res \<noteq> Inr f"
  | (duplicate) x where "ValidateFile (Some header) = None" "pr_err put = None" "found = Inr (Some x)"
      "upload_duplicate (file_service ls) path fileID now header (sha256_hex (pr_consumed put)) x (s1, r1) = (res, s', r')"
  | (new) "ValidateFile (Some header) = None" "pr_err put = None"
      "upload_new (file_service ls) path fileID now header (sha256_hex (pr_consumed put)) (pr_n put) (s1, r1) = (res, s', r')"
  using assms by (auto simp: Upload_def service_ops Let_def split: sum.splits option.splits)

lemma Upload_kept:
  assumes "db_wf (db r0)" "disk_usable ls s0" "plain_path path"
    and "Upload (file_service ls) path fileID now rd header (s0, r0) = (res, s', r')"
  shows "blobs_kept ls path s0 s' \<and> rows_kept {} (db r0) (db r')"
proof -
  obtain put s1 where put: "st_Put (local_storage_ops ls) path rd (HSize header) s0 = (put, s1)" by fastforce
  note b1 = local_Put_step [OF assms(2,3) put]
  obtain found r1 where get: "GetStorageByHash (sha256_hex (pr_consumed put)) r0 = (found, r1)" by fastforce
  have r1: "db r1 = db r0" using reads_keep_db(1) [of "sha256_hex (pr_consumed put)" r0] get by simp
  have wf1: "db_wf (db r1)" using assms(1) r1 by simp
  from assms(4) put get show ?thesis
  proof (cases rule: Upload_cases)
    case stopped
    then show ?thesis using b1 blobs_kept_refl [OF assms(2)] rows_kept_refl [OF assms(1)] by auto
  next
    case (duplicate x)
    from upload_duplicate_kept [OF wf1 blobs_usable [OF b1] assms(3) duplicate(4)] r1
    show ?thesis using blobs_kept_trans [OF b1] by auto
  next
    case new
    from upload_new_kept [OF wf1 blobs_usable [OF b1] assms(3) new(3)] r1
    show ?thesis using blobs_kept_trans [OF b1] by auto
  qed
qed

text \<open>An upload that reports success refers to a record, old or new, of its content.\<close>

lemma Upload_done:
  assumes "db_wf (db r0)" "disk_usable ls s0" "canonical_uuid path" "canonical_uuid fileID"
    and "Upload (file_service ls) path fileID now rd header (s0, r0) = (Inr f, s', r')"
  shows "\<exists>x. files_of (db r') fileID = Some (new_ref now (rd_data rd) header) \<and>
    storages_of (db r') (sha256_hex (rd_data rd)) = Some x \<and>
    (StStoragePath x = path \<and> local_blobs ls s' path = Some (rd_data rd) \<or>
     (\<exists>y. storages_of (db r0) (sha256_hex (rd_data rd)) = Some y \<and> StStoragePath y = StStoragePath x))"
proof -
  let ?c = "rd_data rd"
  have path: "plain_path path" using canonical_uuid_path [OF assms(3)] by simp
  obtain put s1 where put: "st_Put (local_storage_ops ls) path rd (HSize header) s0 = (put, s1)" by fastforce
  obtain found r1 where get: "GetStorageByHash (sha256_hex (pr_consumed put)) r0 = (found, r1)" by fastforce
  have r1: "db r1 = db r0" using reads_keep_db(1) [of "sha256_hex (pr_consumed put)" r0] get by simp
  have wf1: "db_wf (db r1)" using assms(1) r1 by simp
  from assms(5) put get show ?thesis
  proof (cases rule: Upload_cases)
    case stopped
    then show ?thesis using stopped(3) [of f] by simp
  next
    case (duplicate y)
    note put_done = local_Put_done [OF assms(2) path put duplicate(2)]
    note made = upload_duplicate_done [OF wf1 assms(4) duplicate(1) duplicate(4) [unfolded put_done(1)]]
    have y: "storages_of (db r0) (sha256_hex ?c) = Some y"
      using GetStorageByHash_found [of _ r0 "Some y" r1] get duplicate(3) put_done(1) by auto
    then show ?thesis using made r1 unfolding paths_kept_def by metis
  next
    case new
    note put_done = local_Put_done [OF assms(2) path put new(2)]
    from upload_new_done [OF assms(3,4) new(1) new(3) [unfolded put_done(1,2)]] put_done(3) show ?thesis
      by simp
  qed
qed

lemma cleanup_kept:
  assumes "db_wf (db r)" "disk_usable ls s" "storages_of (db r) h = Some x" "plain_path (StStoragePath x)"
    and "cleanup_storage (file_service ls) h (s, r) = (res, s', r')"
  shows "blobs_kept ls (StStoragePath x) s s'" "rows_kept {i} (db r) (db r')" "files_of (db r') = files_of (db r)"
proof -
  obtain found r1 where get: "GetStorageByHash h r = (found, r1)" by fastforce
  have r1: "db r1 = db r" using reads_keep_db(1) [of h r] get by simp
  obtain e2 s2 where del: "st_Delete (local_storage_ops ls) (StStoragePath x) s = (e2, s2)" by fastforce
  obtain e3 r3 where row: "DeleteStorage h r1 = (e3, r3)" by fastforce
  have found: "found = Inr y \<Longrightarrow> y = Some x" for y using GetStorageByHash_found [of h r y r1] get assms(3) by auto
  have "s' \<in> {s, s2} \<and> r' \<in> {r1, r3}"
    using assms(5) get del row found
    by (auto simp: cleanup_storage_def service_ops Let_def split: sum.splits option.splits prod.splits)
  then show "blobs_kept ls (StStoragePath x) s s'" "rows_kept {i} (db r) (db r')" "files_of (db r') = files_of (db r)"
    using blobs_kept_refl [OF assms(2)] rows_kept_refl [OF assms(1)] local_Delete_step [OF assms(2,4) del]
      DeleteStorage_rows [of r1 h e3 r3] row r1 assms(1) by auto
qed

lemma Delete_kept:
  assumes wf: "db_wf (db r)" and i: "canonical_uuid i" and use: "disk_usable ls s"
    and f: "files_of (db r) i = Some f" and x: "storages_of (db r) (ref_hash f) = Some x" "plain_path (StStoragePath x)"
    and run: "Delete (file_service ls) i (s, r) = (res, s', r')"
  shows "blobs_kept ls (StStoragePath x) s s'" "rows_kept {i} (db r) (db r')"
    "res = Ok () \<Longrightarrow> files_of (db r') i = None"
proof -
  let ?h = "ref_hash f"
  obtain found r1 where get: "GetStorageHashByFileID i r = (found, r1)" by fastforce
  have r1: "db r1 = db r" using reads_keep_db(5) [of i r] get by simp
  have h: "found = Inr h \<Longrightarrow> h = ?h" for h using GetStorageHashByFileID_true [OF wf i] get f by fastforce
  obtain e2 r2 where del: "DeleteByID i r1 = (e2, r2)" by fastforce
  have wf1: "db_wf (db r1)" using wf r1 by simp
  note k2 = DeleteByID_rows [OF wf1 i del, unfolded r1]
  obtain n e3 r3 where dec: "DecrementStorageRef ?h r2 = ((n, e3), r3)" by (metis surj_pair)
  note k3 = DecrementStorageRef_rows [OF rows_wf [OF k2(1)] dec]
  have rows3: "rows_kept {i} (db r) (db r3)" using k2(1) k3(1) by (rule rows_kept_trans)
  obtain y where y: "storages_of (db r3) ?h = Some y" "StStoragePath y = StStoragePath x"
    using paths_kept_trans [OF k2(2) k3(2)] x(1) unfolding paths_kept_def by blast
  obtain res4 s4 r4 where cl: "cleanup_storage (file_service ls) ?h (s, r3) = (res4, s4, r4)" by (metis surj_pair)
  have py: "plain_path (StStoragePath y)" using y(2) x(2) by simp
  note clean = cleanup_kept [OF rows_wf [OF rows3] use y(1) py cl]
  have k4: "blobs_kept ls (StStoragePath x) s s4" "rows_kept {i} (db r3) (db r4)" "files_of (db r4) = files_of (db r3)"
    using clean(1,3) y(2) by simp_all (rule clean(2))
  have cases: "s' = s \<and> r' = r1 \<and> res \<noteq> Ok () \<or> s' = s \<and> r' = r2 \<and> e2 \<noteq> None \<and> res \<noteq> Ok () \<or>
      e2 = None \<and> s' = s \<and> r' = r3 \<or> e2 = None \<and> s' = s4 \<and> r' = r4"
    using run get h del dec cl
    by (auto simp: Delete_def service_ops Let_def split: sum.splits option.splits prod.splits if_splits)
  then show "blobs_kept ls (StStoragePath x) s s'" using blobs_kept_refl [OF use] k4(1) by auto
  show "rows_kept {i} (db r) (db r')"
    using cases k2(1) rows3 rows_kept_trans [OF rows3 k4(2)] rows_kept_refl [OF wf] r1 by auto
  show "files_of (db r') i = None" if "res = Ok ()" using that cases k2(3) k3(3) k4(3) by auto
qed

lemma Delete_unknown:
  assumes "db_wf (db r)" "canonical_uuid i" "files_of (db r) i = None"
    and "Delete (file_service ls) i (s, r) = (res, s', r')"
  shows "s' = s" "db r' = db r"
proof -
  obtain found r1 where get: "GetStorageHashByFileID i r = (found, r1)" by fastforce
  have "\<nexists>h. found = Inr h" using GetStorageHashByFileID_true [OF assms(1,2)] get assms(3) by fastforce
  then show "s' = s" "db r' = db r"
    using assms(4) get reads_keep_db(5) [of i r] by (auto simp: Delete_def service_ops split: sum.splits)
qed

section \<open>The users' view\<close>

lemma view_file_at:
  "view ls (s, r) j =
     (case file_at (db r) j of
        None \<Rightarrow> None
      | Some (f, p) \<Rightarrow> map_option (\<lambda>c. (ref_name f, ref_created f, c)) (local_blobs ls s p))"
  by (auto simp: view_def file_at_def files_def storages_def split: option.split)

lemma view_kept:
  assumes "rows_kept X (db r) (db r')" "blobs_kept ls p s s'" "j \<notin> X"
    and "\<And>f q. file_at (db r) j = Some (f, q) \<Longrightarrow> q \<noteq> p" and "view ls (s, r) j = Some v"
  shows "view ls (s', r') j = Some v"
proof -
  obtain f q c where f: "file_at (db r) j = Some (f, q)" "local_blobs ls s q = Some c"
      "v = (ref_name f, ref_created f, c)"
    using assms(5) by (auto simp: view_file_at split: option.splits)
  have "file_at (db r') j = Some (f, q)" "local_blobs ls s' q = Some c"
    using assms(1-4) f(1,2) by (auto simp: rows_kept_def blobs_kept_def)
  with f(3) show ?thesis by (simp add: view_file_at)
qed

text \<open>The same state, and from here on any schedule of failures.\<close>

definition with_failures :: "disk_event list \<Rightarrow> db_event list \<Rightarrow> bool list \<Rightarrow> sys \<Rightarrow> sys" where
  "with_failures ds bs cs w =
     (case w of (s, r) \<Rightarrow> (s\<lparr>disk := ds\<rparr>, r\<lparr>db_events := bs, cache_events := cs\<rparr>))"

lemma with_failures_same:
  assumes "with_failures ds bs cs (s, r) = (s0, r0)"
  shows "local_blobs ls s0 = local_blobs ls s" "db r0 = db r" "disk_usable ls s0 = disk_usable ls s"
    "view ls (s0, r0) = view ls (s, r)"
proof -
  have e: "s0 = s\<lparr>disk := ds\<rparr>" "r0 = r\<lparr>db_events := bs, cache_events := cs\<rparr>"
    using assms by (auto simp: with_failures_def)
  show b: "local_blobs ls s0 = local_blobs ls s" by (auto simp: e local_blobs_def root_of_def fun_eq_iff)
  show d: "db r0 = db r" by (simp add: e)
  show "disk_usable ls s0 = disk_usable ls s" by (simp add: e disk_usable_def)
  show "view ls (s0, r0) = view ls (s, r)" by (rule ext) (simp only: view_file_at b d)
qed

lemma sys_inv_plain:
  "sys_inv ls (s, r) \<Longrightarrow> storages r h = Some x \<Longrightarrow> plain_path (StStoragePath x)"
  using dedup_blob sys_invD(3) by blast

text \<open>
  C8: Whatever fails while a file is uploaded - any system call, any SQL statement, with or without
  its effect, any cache command, the request's body - every file that was there is still there
  under its name and with its content; and if the upload reports success all the same, then the
  new file is there with all its content.
\<close>

theorem upload_under_faults:
  assumes "sys_inv ls (s, r)" "canonical_uuid path" "canonical_uuid fileID"
    and "local_blobs ls s path = None" "no_collision ls s (rd_data rd)"
    and "Upload (file_service ls) path fileID now rd header (with_failures ds bs cs (s, r)) = (res, w')"
  shows "(\<forall>j v. view ls (s, r) j = Some v \<longrightarrow> view ls w' j = Some v)
    \<and> (\<forall>f. res = Inr f \<longrightarrow> view ls w' fileID = Some (HName header, now, rd_data rd))"
proof -
  note inv = sys_invD [OF assms(1)]
  let ?c = "rd_data rd"
  obtain s0 r0 where w0: "with_failures ds bs cs (s, r) = (s0, r0)" by fastforce
  obtain s' r' where w': "w' = (s', r')" by fastforce
  note same = with_failures_same [OF w0]
  have use: "disk_usable ls s0" using local_inv_usable [OF inv(1)] same(3) by blast
  have wf: "db_wf (db r0)" unfolding same(2) by (rule healthy_simps(3) [OF inv(2)])
  have path: "plain_path path" using canonical_uuid_path [OF assms(2)] by simp
  have content: "\<exists>c. local_blobs ls s (StStoragePath x) = Some c \<and> sha256_hex c = h"
    if "storages_of (db r0) h = Some x" for h x
    using dedup_blob [OF inv(3)] that same(2) by (auto simp: storages_def)
  then have apart: "StStoragePath x \<noteq> path" if "storages_of (db r0) h = Some x" for h x
    using assms(4) that by fastforce
  note run = assms(6) [unfolded w0 w']
  note kept = Upload_kept [OF wf use path run]
  have "view ls (s', r') j = Some v" if "view ls (s, r) j = Some v" for j v
    using kept [THEN conjunct2] kept [THEN conjunct1]
  proof (rule view_kept)
    show "view ls (s0, r0) j = Some v" using that same(4) by simp
    show "q \<noteq> path" if "file_at (db r0) j = Some (f, q)" for f q
      using that apart by (auto simp: file_at_def split: option.splits)
  qed simp
  moreover have "view ls (s', r') fileID = Some (HName header, now, ?c)" if f: "res = Inr f" for f
  proof -
    obtain x where x: "files_of (db r') fileID = Some (new_ref now ?c header)"
        "storages_of (db r') (sha256_hex ?c) = Some x"
        "StStoragePath x = path \<and> local_blobs ls s' path = Some ?c \<or>
         (\<exists>y. storages_of (db r0) (sha256_hex ?c) = Some y \<and> StStoragePath y = StStoragePath x)"
      using Upload_done [OF wf use assms(2,3) run [unfolded f]] by blast
    have "local_blobs ls s' (StStoragePath x) = Some ?c"
    proof (cases "StStoragePath x = path \<and> local_blobs ls s' path = Some ?c")
      case False
      then obtain y where y: "storages_of (db r0) (sha256_hex ?c) = Some y" "StStoragePath y = StStoragePath x"
        using x(3) by blast
      obtain c where c: "local_blobs ls s (StStoragePath y) = Some c" "sha256_hex c = sha256_hex ?c"
        using content [OF y(1)] by blast
      then have "c = ?c" using assms(5) unfolding no_collision_def by blast
      then show ?thesis using kept c(1) same(1) apart [OF y(1)] y(2) by (auto simp: blobs_kept_def)
    qed simp
    then show ?thesis using x(1,2) by (simp add: view_file_at file_at_def new_ref_def)
  qed
  ultimately show ?thesis unfolding w' by blast
qed

theorem upload_under_faults_witness:
  "\<exists>s r. sys_inv demo_store (s, r) \<and>
    view demo_store (snd (Upload (file_service demo_store) demo_path2 demo_id2 0 (reader_of demo_bytes) demo_header
      (with_failures [DiskOk, DiskOk, DiskErr 1 ErrNoRows] [DbLost ErrNoRows] [True] (s, r)))) demo_id
      = Some (''a.txt'', 0, demo_bytes)"
proof (rule demo_uploaded)
  fix s r
  assume inv: "sys_inv demo_store (s, r)"
    and f: "files r = [demo_id \<mapsto> new_ref 0 demo_bytes demo_header]"
    and st: "storages r = [sha256_hex demo_bytes \<mapsto> new_storage demo_path 0 demo_bytes demo_header]"
    and bl: "local_blobs demo_store s = [demo_path \<mapsto> demo_bytes]"
  obtain res w' where run: "Upload (file_service demo_store) demo_path2 demo_id2 0 (reader_of demo_bytes) demo_header
      (with_failures [DiskOk, DiskOk, DiskErr 1 ErrNoRows] [DbLost ErrNoRows] [True] (s, r)) = (res, w')" by (metis surj_pair)
  have "local_blobs demo_store s demo_path2 = None" using demo_distinct by (simp add: bl)
  moreover have "no_collision demo_store s (rd_data (reader_of demo_bytes))"
    by (simp add: no_collision_def bl)
  moreover have "view demo_store (s, r) demo_id = Some (''a.txt'', 0, demo_bytes)"
    by (simp add: view_def f st bl new_ref_def new_storage_def demo_header_def)
  ultimately have "view demo_store w' demo_id = Some (''a.txt'', 0, demo_bytes)"
    using upload_under_faults [OF inv demo_uuids2 _ _ run] by blast
  then show ?thesis using inv run by (intro exI conjI) auto
qed

text \<open>
  C9: Whatever fails while a file is deleted, every file with another content is still there under
  its name and with its content; and if the deletion reports success, the file is gone.
\<close>

theorem delete_under_faults:
  assumes "sys_inv ls (s, r)" "canonical_uuid i"
    and "Delete (file_service ls) i (with_failures ds bs cs (s, r)) = (res, w')"
  shows "(\<forall>j n t c. view ls (s, r) j = Some (n, t, c) \<and> (\<nexists>n' t'. view ls (s, r) i = Some (n', t', c)) \<longrightarrow>
      view ls w' j = Some (n, t, c))
    \<and> (res = Ok () \<longrightarrow> view ls w' i = None)"
proof -
  note inv = sys_invD [OF assms(1)]
  obtain s0 r0 where w0: "with_failures ds bs cs (s, r) = (s0, r0)" by fastforce
  obtain s' r' where w': "w' = (s', r')" by fastforce
  note same = with_failures_same [OF w0]
  have use: "disk_usable ls s0" using local_inv_usable [OF inv(1)] same(3) by blast
  have wf: "db_wf (db r0)" unfolding same(2) by (rule healthy_simps(3) [OF inv(2)])
  note run = assms(3) [unfolded w0 w']
  show ?thesis
  proof (cases "files_of (db r0) i")
    case None
    note gone = Delete_unknown [OF wf assms(2) None run]
    have "view ls (s', r') = view ls (s, r)"
      using gone same(4) by (auto simp: view_file_at fun_eq_iff)
    moreover have "view ls (s, r) i = None" using None same(2) by (simp add: view_file_at file_at_def)
    ultimately show ?thesis unfolding w' by simp
  next
    case (Some f)
    then have fi: "files r i = Some f" using same(2) by (simp add: files_def)
    obtain x c where x: "storages r (ref_hash f) = Some x" "local_blobs ls s (StStoragePath x) = Some c"
        "view ls (s, r) i = Some (ref_name f, ref_created f, c)"
      using view_Some [OF assms(1) fi] by blast
    have x0: "storages_of (db r0) (ref_hash f) = Some x" using x(1) same(2) by (simp add: storages_def)
    note kept = Delete_kept [OF wf assms(2) use Some x0 sys_inv_plain [OF assms(1) x(1)] run]
    have "view ls (s', r') j = Some (n, t, c')"
      if j: "view ls (s, r) j = Some (n, t, c')" "\<nexists>n' t'. view ls (s, r) i = Some (n', t', c')" for j n t c'
      using kept(2,1)
    proof (rule view_kept)
      show "j \<notin> {i}" using j by auto
      show "view ls (s0, r0) j = Some (n, t, c')" using j(1) same(4) by simp
      show "q \<noteq> StStoragePath x" if "file_at (db r0) j = Some (g, q)" for g q
        using that j x(2,3) same(2,1) by (auto simp: view_file_at split: option.splits)
    qed
    moreover have "view ls (s', r') i = None" if "res = Ok ()"
      using kept(3) [OF that] by (simp add: view_file_at file_at_def)
    ultimately show ?thesis unfolding w' by blast
  qed
qed

theorem delete_under_faults_witness:
  "\<exists>s r. sys_inv demo_store (s, r) \<and>
    view demo_store (snd (Delete (file_service demo_store) demo_id2
      (with_failures [] [DbFail ErrNoRows, DbLost ErrNoRows] [True] (s, r)))) demo_id
      = Some (''a.txt'', 0, demo_bytes)"
proof (rule demo_uploaded)
  fix s r
  assume inv: "sys_inv demo_store (s, r)"
    and f: "files r = [demo_id \<mapsto> new_ref 0 demo_bytes demo_header]"
    and st: "storages r = [sha256_hex demo_bytes \<mapsto> new_storage demo_path 0 demo_bytes demo_header]"
    and bl: "local_blobs demo_store s = [demo_path \<mapsto> demo_bytes]"
  obtain res w' where run: "Delete (file_service demo_store) demo_id2
      (with_failures [] [DbFail ErrNoRows, DbLost ErrNoRows] [True] (s, r)) = (res, w')" by (metis surj_pair)
  have "view demo_store (s, r) demo_id = Some (''a.txt'', 0, demo_bytes)"
      "view demo_store (s, r) demo_id2 = None"
    using demo_distinct by (simp_all add: view_def f st bl new_ref_def new_storage_def demo_header_def)
  then have "view demo_store w' demo_id = Some (''a.txt'', 0, demo_bytes)"
    using delete_under_faults [OF inv demo_uuids2(2) run] by simp
  then show ?thesis using inv run by (intro exI conjI) auto
qed

end
