(* ===== verification/ConcurrentReads.thy ===== *)
theory ConcurrentReads
  imports ConcurrentRequests Faults
begin

text \<open>
  Downloads and listings beside the uploads and deletes of Concurrency, all in steps as fine as their
  commands to Redis and PostgreSQL: \<open>GetByID\<close> reads the row and writes the cache in two commands, a
  delete drops the row and the cached entries in three, and others can come in between. Run alone the
  steps of a download are \<open>Download\<close>, and a call of an upload or delete is its statement followed by
  its cache commands (\<open>upload_rows\<close>, \<open>delete_rows\<close>). The
  lemmas of Faults say what each call of the others leaves alone, so that a file that nobody deletes
  is there at every moment with its name and content, and is what a download delivers.
\<close>

section \<open>What a call leaves alone\<close>

text \<open>Entries are only removed from the cache.\<close>

definition cache_shrinks :: "repo_state \<Rightarrow> repo_state \<Rightarrow> bool" where
  "cache_shrinks w w' \<longleftrightarrow> clock w' = clock w \<and> (\<forall>k. cache w' k = cache w k \<or> cache w' k = None)"

lemma cache_shrinks_refl: "cache_shrinks w w"
  by (simp add: cache_shrinks_def)

lemma cache_shrinks_trans: "cache_shrinks w w' \<Longrightarrow> cache_shrinks w' w'' \<Longrightarrow> cache_shrinks w w''"
  unfolding cache_shrinks_def by metis

lemma cached_file_shrinks: "cache_shrinks w w' \<Longrightarrow> cached_file w i = None \<Longrightarrow> cached_file w' i = None"
  unfolding cache_shrinks_def cached_file_def by (metis option.simps(4))

lemma run_sql_shrinks: "run_sql stmt w = (r, w') \<Longrightarrow> cache_shrinks w w'"
  by (auto simp: run_sql_def next_db_event_def cache_shrinks_def split: list.splits db_event.splits prod.splits if_splits)

lemma cache_del_shrinks: "cache_shrinks w (cache_del k w)"
  by (auto simp: cache_del_def next_cache_event_def cache_shrinks_def split: list.splits)

lemma repository_shrinks:
  "CreateStorage x w = (e1, w') \<Longrightarrow> cache_shrinks w w'"
  "IncrementStorageRef h w = (e1, w') \<Longrightarrow> cache_shrinks w w'"
  "DecrementStorageRef h w = (e2, w') \<Longrightarrow> cache_shrinks w w'"
  "DeleteStorage h w = (e1, w') \<Longrightarrow> cache_shrinks w w'"
  "GetStorageByHash h w = (e3, w') \<Longrightarrow> cache_shrinks w w'"
  by (auto simp: CreateStorage_def IncrementStorageRef_def DecrementStorageRef_def DeleteStorage_def GetStorageByHash_def
      Let_def dest: run_sql_shrinks split: prod.splits sum.splits option.splits)

lemma CreateFileReference_shrinks:
  assumes "CreateFileReference f w = (e, w')" shows "cache_shrinks w w'"
proof -
  obtain r w1 where "run_sql (insert_file (ID f) (Name f) (StorageHash f) (CreatedAt f)) w = (r, w1)" by fastforce
  then show ?thesis using assms run_sql_shrinks cache_shrinks_trans [OF _ cache_del_shrinks]
    by (fastforce simp: CreateFileReference_def split: sum.splits)
qed

lemma DeleteByID_shrinks:
  assumes "DeleteByID i w = (e, w')" shows "cache_shrinks w w'"
proof -
  obtain r w1 where d: "run_sql (delete_file i) w = (r, w1)" by fastforce
  then have "w' = cache_del list_key (cache_del (file_key i) w1)" using assms by (simp add: DeleteByID_def)
  then show ?thesis
    using cache_shrinks_trans [OF cache_shrinks_trans [OF run_sql_shrinks [OF d] cache_del_shrinks] cache_del_shrinks]
    by simp
qed

lemma GetStorageHashByFileID_shrinks:
  assumes "GetStorageHashByFileID i w = (e, w')" shows "cache_shrinks w w'"
proof -
  obtain r1 w1 where one: "run_sql (select_file i) w = (r1, w1)" by fastforce
  obtain r2 w2 where two: "run_sql (select_file i) w1 = (r2, w2)" by fastforce
  have "w' \<in> {w1, w2}"
    using assms one two by (auto simp: GetStorageHashByFileID_def split: sum.splits option.splits if_splits)
  then show ?thesis using run_sql_shrinks [OF one] cache_shrinks_trans [OF run_sql_shrinks [OF one] run_sql_shrinks [OF two]]
    by auto
qed

text \<open>Every call of the repository keeps the rows, but for one a delete drops, and removes cached entries at most.\<close>

lemma repository_frame:
  assumes "db_wf (db w)"
  shows "CreateStorage x w = (e1, w') \<Longrightarrow> rows_kept X (db w) (db w') \<and> cache_shrinks w w'"
    "IncrementStorageRef h w = (e1, w') \<Longrightarrow> rows_kept X (db w) (db w') \<and> cache_shrinks w w'"
    "DecrementStorageRef h w = (e2, w') \<Longrightarrow> rows_kept X (db w) (db w') \<and> cache_shrinks w w'"
    "DeleteStorage h w = (e1, w') \<Longrightarrow> rows_kept X (db w) (db w') \<and> cache_shrinks w w'"
    "GetStorageByHash h w = (e3, w') \<Longrightarrow> rows_kept X (db w) (db w') \<and> cache_shrinks w w'"
    "CreateFileReference f w = (e1, w') \<Longrightarrow> rows_kept X (db w) (db w') \<and> cache_shrinks w w'"
    "GetStorageHashByFileID i w = (e4, w') \<Longrightarrow> rows_kept X (db w) (db w') \<and> cache_shrinks w w'"
    "canonical_uuid i \<Longrightarrow> DeleteByID i w = (e1, w') \<Longrightarrow> rows_kept {i} (db w) (db w') \<and> cache_shrinks w w'"
  using CreateStorage_rows [OF assms] IncrementStorageRef_rows(1) [OF assms] DecrementStorageRef_rows(1) [OF assms]
    DeleteStorage_rows(1) [OF assms] CreateFileReference_rows [OF assms] DeleteByID_rows(1) [OF assms]
    repository_shrinks CreateFileReference_shrinks GetStorageHashByFileID_shrinks DeleteByID_shrinks
    rows_kept_refl [OF assms] reads_keep_db(1) [of h w] reads_keep_db(5) [of i w]
  by auto

text \<open>One call of an upload: the pcs at which it works on the repository, and those on the storage.\<close>

fun on_storage :: "upload_pc \<Rightarrow> bool" where
  "on_storage U_start = True"
| "on_storage (U_discard c x) = True"
| "on_storage (U_withdraw e) = True"
| "on_storage p = False"

lemma upload_frame:
  assumes run: "job_step (file_service ls) j (p, s, r) = (p', s', r')"
    and inv: "db_wf (db r)" "disk_usable ls s" "plain_path (j_path j)"
  shows "rows_kept {} (db r) (db r')" "cache_shrinks r r'"
    "s' = s \<or> (p = U_start \<or> holds p) \<and> blobs_kept ls (j_path j) s s'"
proof -
  have "rows_kept {} (db r) (db r') \<and> cache_shrinks r r' \<and> (s' = s \<or> (p = U_start \<or> holds p) \<and> blobs_kept ls (j_path j) s s')"
  proof (cases "on_storage p")
    case True
    then have "r' = r \<and> (p = U_start \<or> holds p) \<and> (s' = s \<or> blobs_kept ls (j_path j) s s')"
      using run local_Put_step [OF inv(2,3)] local_Delete_step [OF inv(2,3)]
      by (cases p) (auto simp: job_step_def service_ops Let_def split: prod.splits option.splits)
    then show ?thesis using rows_kept_refl [OF inv(1)] cache_shrinks_refl by auto
  next
    case False
    then have "s' = s \<and> rows_kept {} (db r) (db r') \<and> cache_shrinks r r'"
      using run rows_kept_refl [OF inv(1)] cache_shrinks_refl
      by (cases p) (auto simp: job_step_def service_ops Let_def split: prod.splits option.splits sum.splits
          dest: repository_frame [OF inv(1)])
    then show ?thesis by blast
  qed
  then show "rows_kept {} (db r) (db r')" "cache_shrinks r r'"
    "s' = s \<or> (p = U_start \<or> holds p) \<and> blobs_kept ls (j_path j) s s'" by blast+
qed

text \<open>One call of a delete.\<close>

lemma delete_frame:
  assumes run: "delete_step (file_service ls) i (q, s, r) = (q', s', r')"
    and inv: "db_wf (db r)" "disk_usable ls s" "canonical_uuid i"
  shows "rows_kept {i} (db r) (db r')" "cache_shrinks r r'"
    "s' = s \<or> (\<exists>h x. q = D_blob h x \<and> (plain_path (StStoragePath x) \<longrightarrow> blobs_kept ls (StStoragePath x) s s'))"
proof -
  have "rows_kept {i} (db r) (db r') \<and> cache_shrinks r r' \<and>
    (s' = s \<or> (\<exists>h x. q = D_blob h x \<and> (plain_path (StStoragePath x) \<longrightarrow> blobs_kept ls (StStoragePath x) s s')))"
  proof (cases "\<exists>h x. q = D_blob h x")
    case True
    then obtain h x where q: "q = D_blob h x" by blast
    then have "r' = r" "plain_path (StStoragePath x) \<longrightarrow> blobs_kept ls (StStoragePath x) s s'"
      using run local_Delete_step [OF inv(2)] by (auto simp: service_ops split: prod.splits)
    then show ?thesis using q rows_kept_refl [OF inv(1)] cache_shrinks_refl by auto
  next
    case False
    then have "s' = s \<and> rows_kept {i} (db r) (db r') \<and> cache_shrinks r r'"
      using run rows_kept_refl [OF inv(1)] cache_shrinks_refl
      by (cases q) (auto simp: service_ops Let_def split: prod.splits option.splits sum.splits if_splits
          dest: repository_frame [OF inv(1)] repository_frame(8) [OF inv(1,3)])
    then show ?thesis by blast
  qed
  then show "rows_kept {i} (db r) (db r')" "cache_shrinks r r'"
    "s' = s \<or> (\<exists>h x. q = D_blob h x \<and> (plain_path (StStoragePath x) \<longrightarrow> blobs_kept ls (StStoragePath x) s s'))" by blast+
qed

section \<open>A download in steps\<close>

datatype read_pc =
    R_start
  | R_query
  | R_legacy
  | R_keep File
  | R_open File
  | R_done "(reader \<times> File) result"

text \<open>\<open>GetByID\<close>, one command at a time: it ends with a file to open, or with an error.\<close>

fun find_step :: "string \<Rightarrow> read_pc \<times> repo_state \<Rightarrow> read_pc \<times> repo_state" where
  "find_step i (R_start, r) =
     (let (val, r) = cache_get (file_key i) r
      in case Option.bind val unmarshal_File of Some f \<Rightarrow> (R_open f, r) | None \<Rightarrow> (R_query, r))"
| "find_step i (R_query, r) =
     (case run_sql (select_join_by_id i) r of
        (Inr (Some (f, x)), r) \<Rightarrow> (R_keep (join_file f x), r)
      | (_, r) \<Rightarrow> (R_legacy, r))"
| "find_step i (R_legacy, r) =
     (case run_sql (select_file i) r of
        (Inl e, r) \<Rightarrow> (R_done (Inl e), r)
      | (Inr None, r) \<Rightarrow> (R_done (Inl ErrNoRows), r)
      | (Inr (Some f), r) \<Rightarrow>
          (case legacy_file f of Inl e \<Rightarrow> (R_done (Inl e), r) | Inr file \<Rightarrow> (R_keep file, r)))"
| "find_step i (R_keep f, r) = (R_open f, cache_file (file_key i) f r)"
| "find_step i (p, r) = (p, r)"

text \<open>\<open>Download\<close>: the commands of \<open>GetByID\<close>, then the call of the storage.\<close>

fun read_step ::
  "'s storage_ops \<Rightarrow> string \<Rightarrow> read_pc \<times> 's \<times> repo_state \<Rightarrow> read_pc \<times> 's \<times> repo_state" where
  "read_step st i (R_open f, s, r) =
     (let (got, s) = st_Get st (GetStoragePath f) s
      in case got of Inl e \<Rightarrow> (R_done (Inl e), s, r) | Inr rd \<Rightarrow> (R_done (Inr (rd, f)), s, r))"
| "read_step st i (p, s, r) = (let (p, r) = find_step i (p, r) in (p, s, r))"

text \<open>A download makes at most five calls, and run alone it is \<open>Download\<close>.\<close>

fun read_left :: "read_pc \<Rightarrow> nat" where
  "read_left R_start = 5"
| "read_left R_query = 4"
| "read_left R_legacy = 3"
| "read_left (R_keep f) = 2"
| "read_left (R_open f) = 1"
| "read_left (R_done res) = 0"

lemma read_left_step:
  assumes "read_step st i (p, s, r) = (p', w')" shows "read_left p' \<le> read_left p - 1"
  using assms by (cases p) (auto simp: Let_def split: prod.splits option.splits sum.splits)

lemma read_steps_done: "(read_step st i ^^ k) (R_done res, w) = (R_done res, w)"
  by (induction k) (cases w; auto)+

lemma read_run:
  "(read_step st i ^^ 5) (R_start, s, r) =
     (case Download (NewStorageService st file_repository) i (s, r) of (res, w') \<Rightarrow> (R_done res, w'))"
proof -
  have five: "f ^^ 5 = f \<circ> f \<circ> f \<circ> f \<circ> f" for f :: "read_pc \<times> 'a \<times> repo_state \<Rightarrow> read_pc \<times> 'a \<times> repo_state"
    by (simp add: numeral_eq_Suc comp_assoc)
  show ?thesis
    by (simp add: five Download_def NewStorageService_def file_repository_def GetByID_def Let_def
        split: prod.split option.split sum.split)
qed

section \<open>Uploads and deletes command by command\<close>

text \<open>
  \<open>CreateFileReference\<close> and \<open>DeleteByID\<close> send a statement to PostgreSQL and then DEL commands to Redis,
  so other requests can come in between. Here are their statements alone; what an upload and a
  delete then still have to delete from the cache is a list of keys.
\<close>

definition CreateFileReference_row :: "File \<Rightarrow> repo_state \<Rightarrow> goerr option \<times> repo_state" where
  "CreateFileReference_row file w =
     (case run_sql (insert_file (ID file) (Name file) (StorageHash file) (CreatedAt file)) w of
        (Inl e, w) \<Rightarrow> (Some e, w)
      | (Inr u, w) \<Rightarrow> (None, w))"

definition DeleteByID_row :: "string \<Rightarrow> repo_state \<Rightarrow> goerr option \<times> repo_state" where
  "DeleteByID_row i w =
     (case run_sql (delete_file i) w of (r, w) \<Rightarrow> (case r of Inl e \<Rightarrow> Some e | Inr u \<Rightarrow> None, w))"

definition row_service :: "LocalStorage \<Rightarrow> (localfs, repo_state) StorageService" where
  "row_service ls = NewStorageService (local_storage_ops ls)
     (file_repository\<lparr>r_CreateFileReference := CreateFileReference_row, r_DeleteByID := DeleteByID_row\<rparr>)"

fun upload_dels :: "upload_pc \<Rightarrow> upload_pc \<Rightarrow> string list" where
  \<comment> \<open>\<open>if err == nil\<close>: the list of files\<close>
  "upload_dels (U_share c x) (U_done (Inr f)) = [list_key]"
| "upload_dels (U_refer c n) (U_done (Inr f)) = [list_key]"
| "upload_dels p p' = []"

fun delete_dels :: "string \<Rightarrow> delete_pc \<Rightarrow> string list" where
  \<comment> \<open>whether the statement failed or not: the file and the list of files\<close>
  "delete_dels i (D_remove h) = [file_key i, list_key]"
| "delete_dels i q = []"

lemma CreateFileReference_split:
  "CreateFileReference f w = (case CreateFileReference_row f w of
     (Some e, w) \<Rightarrow> (Some e, w) | (None, w) \<Rightarrow> (None, cache_del list_key w))"
  by (auto simp: CreateFileReference_def CreateFileReference_row_def split: prod.split sum.split)

lemma DeleteByID_split:
  "DeleteByID i w = (case DeleteByID_row i w of (e, w) \<Rightarrow> (e, fold cache_del [file_key i, list_key] w))"
  by (auto simp: DeleteByID_def DeleteByID_row_def split: prod.split)

lemma row_service_ops:
  "svc_storage (row_service ls) = local_storage_ops ls"
  "svc_repo (row_service ls) =
     file_repository\<lparr>r_CreateFileReference := CreateFileReference_row, r_DeleteByID := DeleteByID_row\<rparr>"
  by (simp_all add: row_service_def NewStorageService_def)

lemmas row_ops = row_service_ops service_ops

text \<open>A statement and the keys that go with it make up the call.\<close>

lemma upload_rows:
  assumes "job_step (row_service ls) j (p, s, r) = (p', s', r')"
  shows "job_step (file_service ls) j (p, s, r) = (p', s', fold cache_del (upload_dels p p') r')"
  using assms
  by (cases p) (auto simp: job_step_def row_ops Let_def
      CreateFileReference_split split: prod.splits option.splits sum.splits)

lemma delete_rows:
  assumes "delete_step (row_service ls) i (q, s, r) = (q', s', r')"
  shows "delete_step (file_service ls) i (q, s, r) = (q', s', fold cache_del (delete_dels i q) r')"
  using assms
  by (cases q) (auto simp: row_ops Let_def
      DeleteByID_split split: prod.splits option.splits sum.splits if_splits)

text \<open>The calls of the service over the statements leave the cache alone.\<close>

definition cache_same :: "repo_state \<Rightarrow> repo_state \<Rightarrow> bool" where
  "cache_same w w' \<longleftrightarrow> cache w' = cache w \<and> cache_events w' = cache_events w \<and> clock w' = clock w"

lemma cache_same_refl: "cache_same w w"
  by (simp add: cache_same_def)

lemma run_sql_cache: "run_sql stmt w = (r, w') \<Longrightarrow> cache_same w w'"
  by (auto simp: run_sql_def next_db_event_def cache_same_def split: list.splits db_event.splits prod.splits)

lemma rows_cache:
  "CreateStorage x w = (e1, w') \<Longrightarrow> cache_same w w'" "IncrementStorageRef h w = (e1, w') \<Longrightarrow> cache_same w w'"
  "DecrementStorageRef h w = (e2, w') \<Longrightarrow> cache_same w w'" "DeleteStorage h w = (e1, w') \<Longrightarrow> cache_same w w'"
  "GetStorageByHash h w = (e3, w') \<Longrightarrow> cache_same w w'" "CreateFileReference_row f w = (e1, w') \<Longrightarrow> cache_same w w'"
  "DeleteByID_row i w = (e1, w') \<Longrightarrow> cache_same w w'"
  by (auto simp: CreateStorage_def IncrementStorageRef_def DecrementStorageRef_def DeleteStorage_def GetStorageByHash_def
      CreateFileReference_row_def DeleteByID_row_def Let_def
      dest: run_sql_cache split: prod.splits sum.splits option.splits)

lemma GetStorageHashByFileID_cache: "GetStorageHashByFileID i w = (e, w') \<Longrightarrow> cache_same w w'"
proof -
  assume get: "GetStorageHashByFileID i w = (e, w')"
  obtain r1 w1 where one: "run_sql (select_file i) w = (r1, w1)" by fastforce
  obtain r2 w2 where two: "run_sql (select_file i) w1 = (r2, w2)" by fastforce
  have "w' \<in> {w1, w2}"
    using get one two by (auto simp: GetStorageHashByFileID_def split: sum.splits option.splits if_splits)
  then show ?thesis using run_sql_cache [OF one] run_sql_cache [OF two] by (auto simp: cache_same_def)
qed

lemma upload_row_cache:
  "job_step (row_service ls) j (p, s, r) = (p', s', r') \<Longrightarrow> cache_same r r'"
  by (cases p) (auto simp: job_step_def row_ops Let_def cache_same_refl dest: rows_cache
      split: prod.splits option.splits sum.splits)

lemma delete_row_cache:
  "delete_step (row_service ls) i (q, s, r) = (q', s', r') \<Longrightarrow> cache_same r r'"
  by (cases q) (auto simp: row_ops Let_def cache_same_refl dest: rows_cache GetStorageHashByFileID_cache
      split: prod.splits option.splits sum.splits if_splits)

lemma cache_same_shrinks: "cache_same w w' \<Longrightarrow> cache_shrinks w w'"
  by (simp add: cache_same_def cache_shrinks_def)

lemma cache_dels:
  "db (fold cache_del ks w) = db w" "db_events (fold cache_del ks w) = db_events w"
proof (induction ks arbitrary: w)
  case (Cons k ks)
  case 2
  have "db_events (cache_del k w) = db_events w"
    by (auto simp: cache_del_def next_cache_event_def split: list.split)
  then show ?case using Cons(2) by simp
qed simp_all

lemma healthy_before_dels:
  assumes "healthy (fold cache_del ks w)" "cache_events w = []" shows "healthy w"
  using assms(1) [unfolded healthy_def cache_dels] assms(2) unfolding healthy_def by blast

section \<open>The crowd\<close>

text \<open>
  Uploads \<open>K\<close>, deletes \<open>L\<close>, downloads \<open>M\<close>, listings and the time. A request that has cache entries to
  delete does that, one at a time, before its next call.
\<close>

type_synonym ('k, 'l, 'm) crowd =
  "('m \<Rightarrow> read_pc) \<times> ('k + 'l \<Rightarrow> string list) \<times> ('k, 'l, localfs, repo_state) net"

inductive crowd_step ::
  "LocalStorage \<Rightarrow> 'k set \<Rightarrow> ('k \<Rightarrow> job) \<Rightarrow> 'l set \<Rightarrow> ('l \<Rightarrow> string) \<Rightarrow> 'm set \<Rightarrow> ('m \<Rightarrow> string)
     \<Rightarrow> ('k, 'l, 'm) crowd \<Rightarrow> ('k, 'l, 'm) crowd \<Rightarrow> bool" for ls K jobs L ids M rids where
  upload_turn: "k \<in> K \<Longrightarrow> qs (Inl k) = [] \<Longrightarrow> job_step (row_service ls) (jobs k) (us k, s, r) = (p, s', r') \<Longrightarrow>
    crowd_step ls K jobs L ids M rids (rs, qs, us, ds, s, r)
      (rs, qs(Inl k := upload_dels (us k) p), us(k := p), ds, s', r')"
| delete_turn: "l \<in> L \<Longrightarrow> qs (Inr l) = [] \<Longrightarrow> delete_step (row_service ls) (ids l) (ds l, s, r) = (q, s', r') \<Longrightarrow>
    crowd_step ls K jobs L ids M rids (rs, qs, us, ds, s, r)
      (rs, qs(Inr l := delete_dels (ids l) (ds l)), us, ds(l := q), s', r')"
| del_turn: "t \<in> K <+> L \<Longrightarrow> qs t = key # keys \<Longrightarrow>
    crowd_step ls K jobs L ids M rids (rs, qs, us, ds, s, r) (rs, qs(t := keys), us, ds, s, cache_del key r)"
| read_turn: "m \<in> M \<Longrightarrow> read_step (local_storage_ops ls) (rids m) (rs m, s, r) = (p, s', r') \<Longrightarrow>
    crowd_step ls K jobs L ids M rids (rs, qs, us, ds, s, r) (rs(m := p), qs, us, ds, s', r')"
| list_turn: "ListFiles r = (res, r') \<Longrightarrow> crowd_step ls K jobs L ids M rids (rs, qs, us, ds, s, r) (rs, qs, us, ds, s, r')"
| tick: "0 \<le> d \<Longrightarrow>
    crowd_step ls K jobs L ids M rids (rs, qs, us, ds, s, r) (rs, qs, us, ds, s, r\<lparr>clock := clock r + d\<rparr>)"

definition crowd_start :: "sys \<Rightarrow> ('k, 'l, 'm) crowd" where
  "crowd_start w = (\<lambda>m. R_start, \<lambda>t. [], \<lambda>k. U_start, \<lambda>l. D_start, w)"

inductive crowd_reach ::
  "LocalStorage \<Rightarrow> 'k set \<Rightarrow> ('k \<Rightarrow> job) \<Rightarrow> 'l set \<Rightarrow> ('l \<Rightarrow> string) \<Rightarrow> 'm set \<Rightarrow> ('m \<Rightarrow> string)
     \<Rightarrow> sys \<Rightarrow> ('k, 'l, 'm) crowd \<Rightarrow> bool" for ls K jobs L ids M rids w where
  start: "crowd_reach ls K jobs L ids M rids w (crowd_start w)"
| step: "crowd_reach ls K jobs L ids M rids w c \<Longrightarrow> crowd_step ls K jobs L ids M rids c c' \<Longrightarrow>
    crowd_reach ls K jobs L ids M rids w c'"

inductive_cases crowd_stepE: "crowd_step ls K jobs L ids M rids (rs, qs, us, ds, s, r) c'"

text \<open>The same as a function of the schedule.\<close>

fun crowd_turn ::
  "LocalStorage \<Rightarrow> ('k \<Rightarrow> job) \<Rightarrow> ('l \<Rightarrow> string) \<Rightarrow> ('m \<Rightarrow> string) \<Rightarrow> 'm + 'k + 'l \<Rightarrow> ('k, 'l, 'm) crowd \<Rightarrow> ('k, 'l, 'm) crowd"
where
  "crowd_turn ls jobs ids rids (Inl m) (rs, qs, us, ds, s, r) =
     (case read_step (local_storage_ops ls) (rids m) (rs m, s, r) of (p, s, r) \<Rightarrow> (rs(m := p), qs, us, ds, s, r))"
| "crowd_turn ls jobs ids rids (Inr t) (rs, qs, us, ds, s, r) =
     (case qs t of
        key # keys \<Rightarrow> (rs, qs(t := keys), us, ds, s, cache_del key r)
      | [] \<Rightarrow>
          (case t of
             Inl k \<Rightarrow> (case job_step (row_service ls) (jobs k) (us k, s, r) of
               (p, s, r) \<Rightarrow> (rs, qs(t := upload_dels (us k) p), us(k := p), ds, s, r))
           | Inr l \<Rightarrow> (case delete_step (row_service ls) (ids l) (ds l, s, r) of
               (q, s, r) \<Rightarrow> (rs, qs(t := delete_dels (ids l) (ds l)), us, ds(l := q), s, r))))"

fun crowd_exec ::
  "LocalStorage \<Rightarrow> ('k \<Rightarrow> job) \<Rightarrow> ('l \<Rightarrow> string) \<Rightarrow> ('m \<Rightarrow> string) \<Rightarrow> ('m + 'k + 'l) list \<Rightarrow> ('k, 'l, 'm) crowd
     \<Rightarrow> ('k, 'l, 'm) crowd" where
  "crowd_exec ls jobs ids rids [] c = c"
| "crowd_exec ls jobs ids rids (t # ts) c = crowd_exec ls jobs ids rids ts (crowd_turn ls jobs ids rids t c)"

lemma crowd_turn_step:
  assumes "t \<in> M <+> (K <+> L)"
  shows "crowd_step ls K jobs L ids M rids (rs, qs, us, ds, s, r) (crowd_turn ls jobs ids rids t (rs, qs, us, ds, s, r))"
proof (cases t)
  case (Inl m)
  obtain p s' r' where "read_step (local_storage_ops ls) (rids m) (rs m, s, r) = (p, s', r')" by (metis surj_pair)
  then show ?thesis using Inl assms by (auto intro: crowd_step.read_turn)
next
  case (Inr u)
  then have u: "u \<in> K <+> L" using assms by auto
  show ?thesis
  proof (cases "qs u")
    case (Cons key keys)
    then show ?thesis using Inr crowd_step.del_turn [where t = u and qs = qs, OF u Cons] by simp
  next
    case Nil
    show ?thesis
    proof (cases u)
      case (Inl k)
      obtain p s' r' where run: "job_step (row_service ls) (jobs k) (us k, s, r) = (p, s', r')" by (metis surj_pair)
      have "k \<in> K" "qs (Inl k) = []" using u Nil Inl by auto
      from crowd_step.upload_turn [where jobs = jobs and us = us and qs = qs and k = k, OF this run] show ?thesis using \<open>t = Inr u\<close> Nil Inl run by simp
    next
      case (Inr l)
      obtain q s' r' where run: "delete_step (row_service ls) (ids l) (ds l, s, r) = (q, s', r')" by (metis surj_pair)
      have "l \<in> L" "qs (Inr l) = []" using u Nil Inr by auto
      from crowd_step.delete_turn [where ids = ids and ds = ds and qs = qs and l = l, OF this run] show ?thesis using \<open>t = Inr u\<close> Nil Inr run by simp
    qed
  qed
qed

lemma crowd_exec_reach:
  assumes "crowd_reach ls K jobs L ids M rids w c" "set ts \<subseteq> M <+> (K <+> L)"
  shows "crowd_reach ls K jobs L ids M rids w (crowd_exec ls jobs ids rids ts c)"
  using assms
proof (induction ts arbitrary: c)
  case (Cons t ts)
  obtain rs qs us ds s r where c: "c = (rs, qs, us, ds, s, r)" by (metis surj_pair)
  have "t \<in> M <+> (K <+> L)" using Cons.prems(2) by simp
  from crowd_reach.step [OF Cons.prems(1)] crowd_turn_step [OF this] have
    "crowd_reach ls K jobs L ids M rids w (crowd_turn ls jobs ids rids t c)" unfolding c by blast
  then show ?case using Cons.IH Cons.prems(2) by simp
qed simp

lemma crowd_exec_append: "crowd_exec ls jobs ids rids (ts @ us) c = crowd_exec ls jobs ids rids us (crowd_exec ls jobs ids rids ts c)"
  by (induction ts arbitrary: c) simp_all

lemma crowd_exec_reads:
  "crowd_exec ls jobs ids rids (replicate k (Inl m)) (rs, qs, us, ds, s, r) =
     (case (read_step (local_storage_ops ls) (rids m) ^^ k) (rs m, s, r) of (p, s, r) \<Rightarrow> (rs(m := p), qs, us, ds, s, r))"
  by (induction k arbitrary: rs s r) (auto simp: funpow_swap1 split: prod.split)

text \<open>A delete that succeeds, undisturbed: eight commands, and the effect is that of \<open>Delete\<close>.\<close>

lemma eight_turns: "replicate 8 x = replicate 5 x @ replicate 3 x"
  by (simp add: numeral_eq_Suc)

lemma crowd_exec_delete:
  assumes "Delete (file_service ls) (ids l) (s, r) = (Ok (), s1, r1)" "ds l = D_start" "qs (Inr l) = []"
  shows "crowd_exec ls jobs ids rids (replicate 8 (Inr (Inr l))) (rs, qs, us, ds, s, r)
    = (rs, qs, us, ds(l := D_done (Ok ())), s1, r1)"
proof -
  let ?i = "ids l"
  obtain h r2 where hash: "GetStorageHashByFileID ?i r = (Inr h, r2)"
    using assms(1) by (auto simp: Delete_def service_ops split: prod.splits sum.splits)
  obtain r3 where row: "DeleteByID_row ?i r2 = (None, r3)"
    using assms(1) hash by (auto simp: Delete_def service_ops DeleteByID_split split: prod.splits sum.splits option.splits)
  let ?r4 = "cache_del list_key (cache_del (file_key ?i) r3)"
  have del: "DeleteByID ?i r2 = (None, ?r4)" using row by (simp add: DeleteByID_split)
  have qs: "qs(Inr l := []) = qs" using assms(3) by auto
  obtain n e r5 where dec: "DecrementStorageRef h ?r4 = ((n, e), r5)" by (metis surj_pair)
  have "crowd_exec ls jobs ids rids (replicate 5 (Inr (Inr l))) (rs, qs, us, ds, s, r)
      = (rs, qs, us, ds(l := if n = 0 then D_lookup h else D_done (Ok ())), s, r5)"
    using assms(2,3) hash row dec qs by (simp add: numeral_eq_Suc row_ops)
  moreover have "crowd_exec ls jobs ids rids (replicate 3 (Inr (Inr l)))
        (rs, qs, us, ds(l := if n = 0 then D_lookup h else D_done (Ok ())), s, r5)
      = (rs, qs, us, ds(l := D_done (Ok ())), s1, r1)"
    using assms(1,3) hash del dec qs
    by (auto simp: numeral_eq_Suc row_ops Delete_def cleanup_storage_def split: prod.splits sum.splits option.splits)
  ultimately show ?thesis unfolding eight_turns crowd_exec_append by simp
qed

text \<open>Five turns are enough for a download.\<close>

lemma crowd_exec_read_left:
  assumes "crowd_exec ls jobs ids rids ts (rs, n) = (rs', n')"
  shows "read_left (rs' m) \<le> read_left (rs m) - count_list ts (Inl m)"
  using assms
proof (induction ts arbitrary: rs n)
  case (Cons t ts)
  obtain rs1 n1 where turn: "crowd_turn ls jobs ids rids t (rs, n) = (rs1, n1)" by (rule prod.exhaust)
  obtain qs us ds s r where n: "n = (qs, us, ds, s, r)" by (metis surj_pair)
  have "read_left (rs1 m) \<le> read_left (rs m) - (if t = Inl m then 1 else 0)"
  proof (cases t)
    case (Inl i)
    obtain p w where p: "read_step (local_storage_ops ls) (rids i) (rs i, s, r) = (p, w)" by (rule prod.exhaust)
    from read_left_step [OF this] show ?thesis using turn p Inl n by (auto split: prod.splits)
  next
    case (Inr u)
    then have "rs1 = rs" using turn n by (auto split: list.splits sum.splits prod.splits)
    then show ?thesis using Inr by simp
  qed
  then show ?case using Cons.IH [of rs1 n1] Cons.prems turn by (cases "t = Inl m") auto
qed simp

text \<open>Eighteen turns are enough for an upload or a delete: six calls, each with up to two cache commands.\<close>

definition work :: "('k \<Rightarrow> upload_pc) \<Rightarrow> ('l \<Rightarrow> delete_pc) \<Rightarrow> ('k + 'l \<Rightarrow> string list) \<Rightarrow> 'k + 'l \<Rightarrow> nat" where
  "work us ds qs t = 3 * (case t of Inl k \<Rightarrow> upload_left (us k) | Inr l \<Rightarrow> delete_left (ds l)) + length (qs t)"

lemma upload_dels_left:
  "upload_left p' \<le> upload_left p - 1 \<Longrightarrow> 3 * upload_left p' + length (upload_dels p p') \<le> 3 * upload_left p - 1"
  by (cases "(p, p')" rule: upload_dels.cases) auto

lemma delete_dels_left:
  "delete_left q' \<le> delete_left q - 1 \<Longrightarrow> 3 * delete_left q' + length (delete_dels i q) \<le> 3 * delete_left q - 1"
  by (cases q) auto

lemma crowd_turn_work:
  assumes "crowd_turn ls jobs ids rids t (rs, qs, us, ds, s, r) = (rs', qs', us', ds', w')"
  shows "work us' ds' qs' u \<le> work us ds qs u - (if t = Inr u then 1 else 0)"
proof (cases t)
  case (Inl m)
  then show ?thesis using assms by (auto split: prod.splits)
next
  case (Inr v)
  show ?thesis
  proof (cases "qs v")
    case (Cons key keys)
    then show ?thesis using assms Inr by (auto simp: work_def)
  next
    case Nil
    show ?thesis
    proof (cases v)
      case (Inl k)
      obtain p x where p: "job_step (row_service ls) (jobs k) (us k, s, r) = (p, x)" by (rule prod.exhaust)
      have "upload_left p \<le> upload_left (us k) - 1" using upload_left_step [OF p [unfolded job_step_def]] .
      from upload_dels_left [OF this] show ?thesis
        using assms \<open>t = Inr v\<close> Inl Nil p by (cases u) (auto simp: work_def split: prod.splits)
    next
      case (Inr l)
      obtain q x where q: "delete_step (row_service ls) (ids l) (ds l, s, r) = (q, x)" by (rule prod.exhaust)
      from delete_dels_left [OF delete_left_step [OF q]] show ?thesis
        using assms \<open>t = Inr v\<close> Inr Nil q by (cases u) (auto simp: work_def split: prod.splits)
    qed
  qed
qed

lemma crowd_exec_work:
  assumes "crowd_exec ls jobs ids rids ts (rs, qs, us, ds, w) = (rs', qs', us', ds', w')"
  shows "work us' ds' qs' u \<le> work us ds qs u - count_list ts (Inr u)"
  using assms
proof (induction ts arbitrary: rs qs us ds w)
  case (Cons t ts)
  obtain s r where w: "w = (s, r)" by (rule prod.exhaust)
  obtain rs1 qs1 us1 ds1 w1 where turn: "crowd_turn ls jobs ids rids t (rs, qs, us, ds, s, r) = (rs1, qs1, us1, ds1, w1)"
    by (metis surj_pair)
  then show ?case using Cons.IH [of rs1 qs1 us1 ds1 w1] Cons.prems crowd_turn_work [OF turn, of u] w
    by (cases "t = Inr u") auto
qed simp

lemma crowd_exec_ended:
  assumes "crowd_exec ls jobs ids rids ts (crowd_start w) = (rs, qs, us, ds, w')"
    and "\<And>t. t \<in> K <+> L \<Longrightarrow> 18 \<le> count_list ts (Inr t)"
  shows "ended K us L ds"
proof -
  have "work us ds qs t = 0" if "t \<in> K <+> L" for t
    using crowd_exec_work [OF assms(1) [unfolded crowd_start_def], of t] assms(2) [OF that]
    by (cases t) (simp_all add: work_def)
  then show ?thesis by (force simp: ended_def work_def)
qed

section \<open>Each turn\<close>

text \<open>What is kept of the files \<open>A\<close>: their rows, the paths of their records, and the contents there.\<close>

definition contents_kept :: "LocalStorage \<Rightarrow> string set \<Rightarrow> sys \<Rightarrow> sys \<Rightarrow> bool" where
  "contents_kept ls A w w' \<longleftrightarrow>
     (\<forall>j f p c. j \<in> A \<and> file_at (db (snd w)) j = Some (f, p) \<and> local_blobs ls (fst w) p = Some c \<longrightarrow>
        file_at (db (snd w')) j = Some (f, p) \<and> local_blobs ls (fst w') p = Some c)"

lemma contents_kept_refl: "db r' = db r \<Longrightarrow> contents_kept ls A (s, r) (s, r')"
  by (simp add: contents_kept_def)

lemma contents_kept_trans: "contents_kept ls A u v \<Longrightarrow> contents_kept ls A v w \<Longrightarrow> contents_kept ls A u w"
  unfolding contents_kept_def by blast

lemma contents_keptI:
  assumes "rows_kept X (db r) (db r')" "A \<inter> X = {}"
    and "s' = s \<or> (\<exists>p. blobs_kept ls p s s' \<and> (\<forall>j f q. j \<in> A \<longrightarrow> file_at (db r) j = Some (f, q) \<longrightarrow> q \<noteq> p))"
  shows "contents_kept ls A (s, r) (s', r')"
  unfolding contents_kept_def
proof (intro allI impI)
  fix j f q c
  assume a: "j \<in> A \<and> file_at (db (snd (s, r))) j = Some (f, q) \<and> local_blobs ls (fst (s, r)) q = Some c"
  then have "file_at (db r') j = Some (f, q)" using assms(1,2) by (auto simp: rows_kept_def)
  moreover have "local_blobs ls s' q = Some c"
    using assms(3) a unfolding blobs_kept_def by fastforce
  ultimately show "file_at (db (snd (s', r'))) j = Some (f, q) \<and> local_blobs ls (fst (s', r')) q = Some c" by simp
qed

lemma contents_kept_view:
  assumes "contents_kept ls A (s, r) (s', r')" "j \<in> A" "view ls (s, r) j = Some v"
  shows "view ls (s', r') j = Some v"
proof -
  obtain f p c where "file_at (db r) j = Some (f, p)" "local_blobs ls s p = Some c" "v = (ref_name f, ref_created f, c)"
    using assms(3) by (auto simp: view_file_at split: option.splits)
  then show ?thesis using assms(1,2) by (auto simp: contents_kept_def view_file_at)
qed

text \<open>The invariant of the uploads and deletes, with that of the disk and the repository.\<close>

definition writes_ok ::
  "LocalStorage \<Rightarrow> 'k set \<Rightarrow> ('k \<Rightarrow> job) \<Rightarrow> 'l set \<Rightarrow> ('l \<Rightarrow> string) \<Rightarrow> (string \<Rightarrow> file_ref option)
     \<Rightarrow> ('k, 'l, localfs, repo_state) net \<Rightarrow> bool" where
  "writes_ok ls K jobs L ids F0 n \<longleftrightarrow>
     (case n of (us, ds, s, r) \<Rightarrow> local_inv ls s \<and> healthy r \<and>
        net_inv plain_path K jobs us L ids ds F0 (storages r) (files r) (local_blobs ls s))"

lemma writes_okD:
  assumes "writes_ok ls K jobs L ids F0 (us, ds, s, r)"
  shows "local_inv ls s" "healthy r" "db_wf (db r)" "disk_usable ls s"
    "net_inv plain_path K jobs us L ids ds F0 (storages r) (files r) (local_blobs ls s)"
  using assms healthy_simps(3) [of r] local_inv_usable [of ls s] by (auto simp: writes_ok_def simp del: healthy_simps)

lemma writes_ok_same:
  assumes "writes_ok ls K jobs L ids F0 (us, ds, s, r)" "healthy r'" "db r' = db r"
  shows "writes_ok ls K jobs L ids F0 (us, ds, s, r')"
  using assms by (simp add: writes_ok_def storages_def files_def del: healthy_simps)

lemma file_at_record:
  "file_at (db r) j = Some (f, p) \<longleftrightarrow> files r j = Some f \<and> (\<exists>x. storages r (ref_hash f) = Some x \<and> StStoragePath x = p)"
  by (auto simp: file_at_def files_def storages_def split: option.splits)

text \<open>A record that a file refers to is not dying, so its blob is there with the recorded size.\<close>

lemma referred_record:
  assumes "writes_ok ls K jobs L ids F0 (us, ds, s, r)" "files r j = Some f" "storages r (ref_hash f) = Some x"
  shows "\<not> dying L ds (ref_hash f)"
    "\<exists>c. local_blobs ls s (StStoragePath x) = Some c \<and> StSize x = int (length c)"
proof -
  note w = writes_okD [OF assms(1)]
  show live: "\<not> dying L ds (ref_hash f)" by (rule svc.referred_not_dying [OF w(2,5) assms(2,3)])
  show "\<exists>c. local_blobs ls s (StStoragePath x) = Some c \<and> StSize x = int (length c)"
    using records_okD(4) [OF uploads_invD(1) [OF net_invD(1) [OF w(5)]] assms(3) live] by blast
qed

lemma upload_turn_ok:
  assumes "writes_ok ls K jobs L ids F0 (us, ds, s, r)" and ok: "jobs_ok canonical_uuid K jobs"
    and "ids_ok canonical_uuid K jobs L ids F0" "k \<in> K"
    and run: "job_step (file_service ls) (jobs k) (us k, s, r) = (p, s', r')"
  shows "writes_ok ls K jobs L ids F0 (us(k := p), ds, s', r')" "cache_shrinks r r'"
    "contents_kept ls UNIV (s, r) (s', r')"
proof -
  note w = writes_okD [OF assms(1)]
  show "writes_ok ls K jobs L ids F0 (us(k := p), ds, s', r')"
    using svc.upload_call [OF w(1,2,5) ok assms(3,4)] run unfolding file_service_def by (simp add: writes_ok_def)
  have path: "plain_path (j_path (jobs k))" using canonical_uuid_path jobs_okD(7) [OF ok assms(4)] by blast
  note frame = upload_frame [OF run w(3,4) path]
  show "cache_shrinks r r'" by (rule frame(2))
  have held: "q \<noteq> j_path (jobs k)" if "us k = U_start \<or> holds (us k)" "file_at (db r) j = Some (f, q)" for j f q
    using uploads_invD(4) [OF net_invD(1) [OF w(5)]] that assms(4) unfolding held_ok_def file_at_record by metis
  show "contents_kept ls UNIV (s, r) (s', r')"
  proof (rule contents_keptI [OF frame(1)])
    show "s' = s \<or> (\<exists>p. blobs_kept ls p s s' \<and> (\<forall>j f q. j \<in> UNIV \<longrightarrow> file_at (db r) j = Some (f, q) \<longrightarrow> q \<noteq> p))"
      using frame(3) held by blast
  qed simp
qed

lemma delete_turn_ok:
  assumes "writes_ok ls K jobs L ids F0 (us, ds, s, r)" and ids: "ids_ok canonical_uuid K jobs L ids F0" "l \<in> L"
    and run: "delete_step (file_service ls) (ids l) (ds l, s, r) = (q, s', r')"
  shows "writes_ok ls K jobs L ids F0 (us, ds(l := q), s', r')" "cache_shrinks r r'"
    "contents_kept ls (- ids ` L) (s, r) (s', r')"
proof -
  note w = writes_okD [OF assms(1)]
  show "writes_ok ls K jobs L ids F0 (us, ds(l := q), s', r')"
    using svc.delete_call [OF w(1,2,5) ids] run unfolding file_service_def by (simp add: writes_ok_def)
  note frame = delete_frame [OF run w(3,4) ids_okD(3) [OF ids]]
  show "cache_shrinks r r'" by (rule frame(2))
  have "s' = s \<or> (\<exists>p. blobs_kept ls p s s' \<and> (\<forall>j f q. j \<in> - ids ` L \<longrightarrow> file_at (db r) j = Some (f, q) \<longrightarrow> q \<noteq> p))"
  proof (cases "s' = s")
    case False
    then obtain h x where d: "ds l = D_blob h x" "plain_path (StStoragePath x) \<Longrightarrow> blobs_kept ls (StStoragePath x) s s'"
      using frame(3) by blast
    have x: "storages r h = Some x" using deletes_invD(1) [OF net_invD(2) [OF w(5)] ids(2)] d(1) by simp
    then have "plain_path (StStoragePath x)"
      using uploads_invD(1) [OF net_invD(1) [OF w(5)]] unfolding records_ok_def by blast
    moreover have "p \<noteq> StStoragePath x" if j: "file_at (db r) j = Some (f, p)" for j f p
    proof
      assume "p = StStoragePath x"
      then obtain y where y: "files r j = Some f" "storages r (ref_hash f) = Some y" "StStoragePath y = StStoragePath x"
        using j unfolding file_at_record by blast
      then have "ref_hash f = h" using fr.paths_unique [OF w(2) y(2) x] by blast
      moreover have "dying L ds h" using d(1) by (intro dyingI [OF ids(2)]) simp
      ultimately show False using referred_record(1) [OF assms(1) y(1,2)] by simp
    qed
    ultimately show ?thesis using d(2) by blast
  qed blast
  then show "contents_kept ls (- ids ` L) (s, r) (s', r')"
    using ids(2) by (intro contents_keptI [OF frame(1)]) auto
qed

text \<open>The same of their statements alone, and of the deletion of a cached entry.\<close>

lemma upload_row_ok:
  assumes "writes_ok ls K jobs L ids F0 (us, ds, s, r)" and ok: "jobs_ok canonical_uuid K jobs"
    and "ids_ok canonical_uuid K jobs L ids F0" "k \<in> K"
    and run: "job_step (row_service ls) (jobs k) (us k, s, r) = (p, s', r')"
  shows "writes_ok ls K jobs L ids F0 (us(k := p), ds, s', r')" "cache_shrinks r r'"
    "contents_kept ls UNIV (s, r) (s', r')"
proof -
  let ?r = "fold cache_del (upload_dels (us k) p) r'"
  note t = upload_turn_ok [OF assms(1-4) upload_rows [OF run]]
  have same: "cache_same r r'" by (rule upload_row_cache [OF run])
  then have "cache_events r' = []" using healthy_simps(2) [OF writes_okD(2) [OF assms(1)]] by (simp add: cache_same_def)
  then have "healthy r'" by (rule healthy_before_dels [OF writes_okD(2) [OF t(1)]])
  then show "writes_ok ls K jobs L ids F0 (us(k := p), ds, s', r')"
    by (rule writes_ok_same [OF t(1)]) (simp only: cache_dels)
  show "cache_shrinks r r'" by (rule cache_same_shrinks [OF same])
  show "contents_kept ls UNIV (s, r) (s', r')" using t(3) unfolding contents_kept_def fst_conv snd_conv cache_dels .
qed

lemma delete_row_ok:
  assumes "writes_ok ls K jobs L ids F0 (us, ds, s, r)" and ids: "ids_ok canonical_uuid K jobs L ids F0" "l \<in> L"
    and run: "delete_step (row_service ls) (ids l) (ds l, s, r) = (q, s', r')"
  shows "writes_ok ls K jobs L ids F0 (us, ds(l := q), s', r')" "cache_shrinks r r'"
    "contents_kept ls (- ids ` L) (s, r) (s', r')"
proof -
  note t = delete_turn_ok [OF assms(1-3) delete_rows [OF run]]
  have same: "cache_same r r'" by (rule delete_row_cache [OF run])
  then have "cache_events r' = []" using healthy_simps(2) [OF writes_okD(2) [OF assms(1)]] by (simp add: cache_same_def)
  then have "healthy r'" by (rule healthy_before_dels [OF writes_okD(2) [OF t(1)]])
  then show "writes_ok ls K jobs L ids F0 (us, ds(l := q), s', r')"
    by (rule writes_ok_same [OF t(1)]) (simp only: cache_dels)
  show "cache_shrinks r r'" by (rule cache_same_shrinks [OF same])
  show "contents_kept ls (- ids ` L) (s, r) (s', r')" using t(3) unfolding contents_kept_def fst_conv snd_conv cache_dels .
qed

lemma del_turn_ok:
  assumes "healthy r" shows "healthy (cache_del k r)" "db (cache_del k r) = db r"
  using cache_healthy(2) [OF healthy_simps(2) [OF assms]] healthy_simps(5) [OF assms] by simp_all

text \<open>A reader's turn changes the cache only, and there the entry of its file only.\<close>

lemma read_turn_ok:
  assumes "read_step (local_storage_ops ls) i (p, s, r) = (p', s', r')" "local_inv ls s" "healthy r"
  shows "s' = s" "healthy r'" "db r' = db r" "j \<noteq> i \<Longrightarrow> cached_file r' j = cached_file r j"
proof -
  note h = healthy_simps(1,2) [OF assms(3)]
  have run: "run_sql stmt r = (x, r1) \<Longrightarrow> snd (stmt (db r)) = db r \<Longrightarrow> r1 = r" for stmt :: "db \<Rightarrow> 'x result \<times> db" and x r1
    using h(1) by (simp add: run_sql_healthy)
  have get: "snd (cache_get k r) = r" for k by (rule cache_healthy(3) [OF h(2)])
  have keep: "cached_file (cache_file (file_key i) f r) j = cached_file r j" if "j \<noteq> i" for f
    using that assms(3) by (auto simp: cache_file_healthy cached_file_def split: option.split simp del: healthy_simps)
  have "s' = s \<and> (r' = r \<or> (\<exists>f. r' = cache_file (file_key i) f r))"
  proof (cases p)
    case R_start
    then show ?thesis using assms(1) get [of "file_key i"]
      by (auto simp: Let_def split: prod.splits option.splits) 
  next
    case R_query
    then show ?thesis using assms(1) run [where stmt = "select_join_by_id i"]
      by (auto split: prod.splits sum.splits option.splits)
  next
    case R_legacy
    then show ?thesis using assms(1) run [where stmt = "select_file i"]
      by (auto split: prod.splits sum.splits option.splits)
  next
    case (R_keep f)
    then show ?thesis using assms(1) by auto
  next
    case (R_open f)
    then show ?thesis using assms(1) local_Get_same [OF assms(2), of "GetStoragePath f"]
      by (auto simp: Let_def split: prod.splits sum.splits)
  next
    case (R_done res)
    then show ?thesis using assms(1) by simp
  qed
  then show "s' = s" "healthy r'" "db r' = db r" "j \<noteq> i \<Longrightarrow> cached_file r' j = cached_file r j"
    using cache_file_keeps(1) [OF assms(3)] assms(3) keep by (auto simp del: healthy_simps)
qed

lemma list_turn_ok:
  assumes "ListFiles r = (res, r')" "healthy r"
  shows "healthy r'" "db r' = db r" "cached_file r' = cached_file r"
proof -
  note h = healthy_simps(1,2) [OF assms(2)]
  have get: "snd (cache_get list_key r) = r" by (rule cache_healthy(3) [OF h(2)])
  have "r' = r \<or> (\<exists>fs. r' = cache_list fs r)"
    using assms(1) get by (auto simp: ListFiles_def Let_def run_query_healthy [OF h(1)] split: prod.splits option.splits sum.splits)
  moreover have "cached_file (cache_list fs r) = cached_file r" for fs
    using assms(2) by (auto simp: cache_list_healthy cached_file_def fun_eq_iff split: option.split simp del: healthy_simps)
  ultimately show "cached_file r' = cached_file r" by auto
  show "db r' = db r" using reads_keep_db(6) [of r] assms(1) by simp
  show "healthy r'" using ListFiles_same_tables [OF assms(2)] assms by (simp add: same_tables_def del: healthy_simps)
qed

section \<open>Every run\<close>

text \<open>
  Where a reader is that asked for the file \<open>j\<close>, whose row is \<open>f\<close>, whose record has the path \<open>p\<close> and whose
  content is \<open>c\<close>.
\<close>

fun read_ok :: "string \<Rightarrow> file_ref \<Rightarrow> string \<Rightarrow> bytes \<Rightarrow> repo_state \<Rightarrow> read_pc \<Rightarrow> bool" where
  "read_ok j f p c r R_start \<longleftrightarrow> cached_file r j = None"
| "read_ok j f p c r R_query \<longleftrightarrow> True"
| "read_ok j f p c r R_legacy \<longleftrightarrow> False"
| "read_ok j f p c r (R_keep g) \<longleftrightarrow> (\<exists>x. g = joined j f x \<and> StStoragePath x = p \<and> StSize x = int (length c))"
| "read_ok j f p c r (R_open g) \<longleftrightarrow> (\<exists>x. g = joined j f x \<and> StStoragePath x = p \<and> StSize x = int (length c))"
| "read_ok j f p c r (R_done res) \<longleftrightarrow> (\<exists>x. res = Inr (reader_of c, joined j f x) \<and> StSize x = int (length c))"

lemma read_ok_mono:
  "read_ok j f p c r pc \<Longrightarrow> (cached_file r j = None \<Longrightarrow> cached_file r' j = None) \<Longrightarrow> read_ok j f p c r' pc"
  by (cases pc) auto

lemma read_ok_step:
  assumes ok: "read_ok j f p c r pc" and run: "read_step (local_storage_ops ls) j (pc, s, r) = (pc', s', r')"
    and inv: "writes_ok ls K jobs L ids F0 (us, ds, s, r)" and id: "canonical_uuid j"
    and there: "file_at (db r) j = Some (f, p)" "local_blobs ls s p = Some c"
  shows "read_ok j f p c r' pc'"
proof -
  note w = writes_okD [OF inv]
  note h = healthy_simps(1,2) [OF w(2)]
  obtain x where x: "files r j = Some f" "storages r (ref_hash f) = Some x" "StStoragePath x = p"
    using there(1) unfolding file_at_record by blast
  have "StSize x = int (length c)" using referred_record(2) [OF inv x(1,2)] there(2) x(3) by simp
  moreover have "plain_path p"
    using uploads_invD(1) [OF net_invD(1) [OF w(5)], unfolded records_ok_def, rule_format, OF x(2)] x(3) by simp
  moreover have "st_Get (local_storage_ops ls) p s = (Inr (reader_of c), s)"
    using lfs.get_hit [OF w(1) calculation(2) there(2)] .
  moreover have "GetStoragePath (joined j f y) = StStoragePath y" for y
    by (simp add: GetStoragePath_def joined_def)
  moreover have "joined j f y = joined j f z \<longleftrightarrow> y = z" for y z
    by (auto simp: joined_def)
  moreover obtain row where "run_sql (select_join_by_id j) r = (Inr (Some (row, x)), r)" "join_file row x = joined j f x"
    using select_join_hit [OF w(3) id] x(1,2) run_sql_query [OF h(1)] unfolding files_def storages_def by metis
  moreover have "cache_get (file_key j) r = (fst (cache_get (file_key j) r), r)"
    using cache_healthy(3) [OF h(2)] by (metis prod.collapse)
  moreover have "Option.bind (fst (cache_get (file_key j) r)) unmarshal_File = cached_file r j"
    by (rule cache_healthy(4) [OF h(2)])
  ultimately show ?thesis using ok run x(3)
    by (cases pc) (auto simp: Let_def split: prod.splits)
qed

text \<open>The reader \<open>m\<close> reads a file that exists, that nobody deletes, and that no other reader reads.\<close>

definition reads_kept ::
  "'l set \<Rightarrow> ('l \<Rightarrow> string) \<Rightarrow> 'm set \<Rightarrow> ('m \<Rightarrow> string) \<Rightarrow> 'm \<Rightarrow> bool" where
  "reads_kept L ids M rids m \<longleftrightarrow> m \<in> M \<and> canonical_uuid (rids m) \<and> rids m \<notin> ids ` L \<and>
     (\<forall>m' \<in> M. m' \<noteq> m \<longrightarrow> rids m' \<noteq> rids m)"

definition crowd_inv ::
  "LocalStorage \<Rightarrow> 'k set \<Rightarrow> ('k \<Rightarrow> job) \<Rightarrow> 'l set \<Rightarrow> ('l \<Rightarrow> string) \<Rightarrow> 'm set \<Rightarrow> ('m \<Rightarrow> string)
     \<Rightarrow> sys \<Rightarrow> ('k, 'l, 'm) crowd \<Rightarrow> bool" where
  "crowd_inv ls K jobs L ids M rids w0 c \<longleftrightarrow>
     (case c of (rs, qs, us, ds, w) \<Rightarrow>
        writes_ok ls K jobs L ids (files (snd w0)) (us, ds, w) \<and> contents_kept ls (- ids ` L) w0 w \<and>
        (\<forall>m f p b. reads_kept L ids M rids m \<and> cached_file (snd w0) (rids m) = None \<and>
           file_at (db (snd w0)) (rids m) = Some (f, p) \<and> local_blobs ls (fst w0) p = Some b \<longrightarrow>
           read_ok (rids m) f p b (snd w) (rs m)))"

text \<open>A turn that is no reader's keeps the invariant.\<close>

lemma crowd_inv_other:
  assumes "crowd_inv ls K jobs L ids M rids w0 (rs, qs, us, ds, s, r)"
    and "writes_ok ls K jobs L ids (files (snd w0)) (us', ds', s', r')"
    and "contents_kept ls (- ids ` L) (s, r) (s', r')"
    and "\<And>j. cached_file r j = None \<Longrightarrow> cached_file r' j = None"
  shows "crowd_inv ls K jobs L ids M rids w0 (rs, qs', us', ds', s', r')"
  using assms contents_kept_trans [of ls "- ids ` L" w0 "(s, r)" "(s', r')"]
    read_ok_mono [where r = r and r' = r', OF _ assms(4)]
  unfolding crowd_inv_def by simp

text \<open>A turn of a reader keeps it, for that reader and for the others.\<close>

lemma crowd_inv_read:
  assumes inv: "crowd_inv ls K jobs L ids M rids w0 (rs, qs, us, ds, s, r)" and m: "m \<in> M"
    and run: "read_step (local_storage_ops ls) (rids m) (rs m, s, r) = (p, s', r')"
  shows "crowd_inv ls K jobs L ids M rids w0 (rs(m := p), qs, us, ds, s', r')"
proof -
  have net: "writes_ok ls K jobs L ids (files (snd w0)) (us, ds, s, r)" and
    kept: "contents_kept ls (- ids ` L) w0 (s, r)" using inv by (simp_all add: crowd_inv_def)
  note t = read_turn_ok [OF run writes_okD(1,2) [OF net]]
  have net': "writes_ok ls K jobs L ids (files (snd w0)) (us, ds, s, r')" by (rule writes_ok_same [OF net t(2,3)])
  have kept': "contents_kept ls (- ids ` L) w0 (s, r')"
    by (rule contents_kept_trans [OF kept contents_kept_refl [OF t(3)]])
  have "read_ok (rids m') f q b r' ((rs(m := p)) m')"
    if m': "reads_kept L ids M rids m'" "cached_file (snd w0) (rids m') = None"
      "file_at (db (snd w0)) (rids m') = Some (f, q)" "local_blobs ls (fst w0) q = Some b" for m' f q b
  proof -
    have old: "read_ok (rids m') f q b r (rs m')" using inv m' by (simp add: crowd_inv_def)
    have there: "file_at (db r) (rids m') = Some (f, q)" "local_blobs ls s q = Some b"
      using kept m' by (auto simp: contents_kept_def reads_kept_def)
    show ?thesis
    proof (cases "m' = m")
      case True
      have "canonical_uuid (rids m)" using m'(1) True by (simp add: reads_kept_def)
      from read_ok_step [OF _ run net this] old there True show ?thesis by simp
    next
      case False
      then have "rids m' \<noteq> rids m" using m'(1) m by (auto simp: reads_kept_def)
      then show ?thesis using read_ok_mono [OF old] t(4) [of "rids m'"] False by simp
    qed
  qed
  then show ?thesis using net' kept' unfolding t(1) by (simp add: crowd_inv_def)
qed

lemma crowd_inv_step:
  assumes step: "crowd_step ls K jobs L ids M rids (rs, qs, us, ds, s, r) c'"
    and inv: "crowd_inv ls K jobs L ids M rids w0 (rs, qs, us, ds, s, r)"
    and ok: "jobs_ok canonical_uuid K jobs" "ids_ok canonical_uuid K jobs L ids (files (snd w0))"
  shows "crowd_inv ls K jobs L ids M rids w0 c'"
proof -
  have net: "writes_ok ls K jobs L ids (files (snd w0)) (us, ds, s, r)" using inv by (simp add: crowd_inv_def)
  note w = writes_okD [OF net]
  from step show ?thesis
  proof (rule crowd_stepE)
    fix k p s' r' assume c': "c' = (rs, qs(Inl k := upload_dels (us k) p), us(k := p), ds, s', r')" and k: "k \<in> K"
      and run: "job_step (row_service ls) (jobs k) (us k, s, r) = (p, s', r')"
    note t = upload_row_ok [OF net ok k run]
    have "contents_kept ls (- ids ` L) (s, r) (s', r')" using t(3) by (auto simp: contents_kept_def)
    then show ?thesis unfolding c' by (rule crowd_inv_other [OF inv t(1)]) (rule cached_file_shrinks [OF t(2)])
  next
    fix l q s' r' assume c': "c' = (rs, qs(Inr l := delete_dels (ids l) (ds l)), us, ds(l := q), s', r')" and l: "l \<in> L"
      and run: "delete_step (row_service ls) (ids l) (ds l, s, r) = (q, s', r')"
    note t = delete_row_ok [OF net ok(2) l run]
    show ?thesis unfolding c'
      by (rule crowd_inv_other [OF inv t(1,3)]) (rule cached_file_shrinks [OF t(2)])
  next
    fix u key keys assume c': "c' = (rs, qs(u := keys), us, ds, s, cache_del key r)"
    note t = del_turn_ok [OF w(2), of key]
    show ?thesis unfolding c'
      by (rule crowd_inv_other [OF inv writes_ok_same [OF net t] contents_kept_refl [OF t(2)]])
        (rule cached_file_shrinks [OF cache_del_shrinks])
  next
    fix m p s' r' assume c': "c' = (rs(m := p), qs, us, ds, s', r')" and m: "m \<in> M"
      and run: "read_step (local_storage_ops ls) (rids m) (rs m, s, r) = (p, s', r')"
    show ?thesis unfolding c' by (rule crowd_inv_read [OF inv m run])
  next
    fix res r' assume c': "c' = (rs, qs, us, ds, s, r')" and run: "ListFiles r = (res, r')"
    note t = list_turn_ok [OF run w(2)]
    show ?thesis unfolding c'
      by (rule crowd_inv_other [OF inv writes_ok_same [OF net t(1,2)] contents_kept_refl [OF t(2)]]) (simp add: t(3))
  next
    fix d :: time assume c': "c' = (rs, qs, us, ds, s, r\<lparr>clock := clock r + d\<rparr>)" and d: "0 \<le> d"
    have "healthy (r\<lparr>clock := clock r + d\<rparr>)" using w(2) by simp
    from writes_ok_same [OF net this] have "writes_ok ls K jobs L ids (files (snd w0)) (us, ds, s, r\<lparr>clock := clock r + d\<rparr>)"
      by simp
    then show ?thesis unfolding c'
    proof (rule crowd_inv_other [OF inv])
      show "contents_kept ls (- ids ` L) (s, r) (s, r\<lparr>clock := clock r + d\<rparr>)" by (rule contents_kept_refl) simp
      show "cached_file (r\<lparr>clock := clock r + d\<rparr>) j = None" if "cached_file r j = None" for j
        using that d by (auto simp: cached_file_def split: option.splits if_splits)
    qed
  qed
qed

lemma crowd_run:
  assumes reach: "crowd_reach ls K jobs L ids M rids (s0, r0) c" and inv: "sys_inv ls (s0, r0)"
    and ok: "jobs_ok canonical_uuid K jobs" "ids_ok canonical_uuid K jobs L ids (files r0)"
    and fresh: "\<And>k. k \<in> K \<Longrightarrow> local_blobs ls s0 (j_path (jobs k)) = None \<and> files r0 (j_id (jobs k)) = None"
    and room: "int (card (dom (files r0)) + card K + card L) < 2147483647"
  shows "crowd_inv ls K jobs L ids M rids (s0, r0) c"
  using reach
proof induction
  case start
  note i = sys_invD [OF inv]
  have "writes_ok ls K jobs L ids (files r0) (\<lambda>k. U_start, \<lambda>l. D_start, s0, r0)"
    using net_inv_start [OF i(3) fr.foreign_key [OF i(2)] fresh fr.finite_files [OF i(2)] room] i(1,2)
    by (simp add: writes_ok_def)
  then show ?case using contents_kept_refl [of r0 r0 ls "- ids ` L" s0] by (simp add: crowd_inv_def crowd_start_def)
next
  case (step c c')
  obtain rs qs us ds s r where c: "c = (rs, qs, us, ds, s, r)" by (metis surj_pair)
  show ?case using crowd_inv_step [OF step.hyps(2) [unfolded c] step.IH [unfolded c] ok(1)] ok(2) by simp
qed

section \<open>Properties\<close>

text \<open>
  C6: Any number of uploads and deletes run side by side, one SQL statement, storage call or cache
  command at a time in any order, with any downloads, listings (each in one step) and passing of time
  in between, no call fails, and all uploads and deletes have made their calls. Under these
  conditions - every upload has an acceptable header, a name in UTF-8, a whole body and new UUIDs of
  its own, no file is deleted twice at a time, no upload has the content of a file that is being
  deleted, and there are fewer than 2147483647 files - the deduplication invariant holds again, the
  deleted files are gone and each delete of a file that was there has answered with success, an
  upload that answered with a file has its row, an upload fails only if another one has the same
  content, and no other file has been touched.
\<close>

theorem concurrent_requests_safe:
  assumes "sys_inv ls (s, r)" and "jobs_ok canonical_uuid K jobs" and "ids_ok canonical_uuid K jobs L ids (files r)"
    and "\<And>k. k \<in> K \<Longrightarrow> local_blobs ls s (j_path (jobs k)) = None \<and> files r (j_id (jobs k)) = None"
    and "int (card (dom (files r)) + card K + card L) < 2147483647"
    and "crowd_reach ls K jobs L ids M rids (s, r) (rs, qs, us, ds, s', r')" and "ended K us L ds"
  shows "sys_inv ls (s', r')
    \<and> (\<forall>l \<in> L. files r' (ids l) = None \<and> (files r (ids l) \<noteq> None \<longrightarrow> ds l = D_done (Ok ())))
    \<and> (\<forall>k \<in> K. (\<exists>g. us k = U_done (Inr g) \<and> ID g = j_id (jobs k) \<and> files r' (j_id (jobs k)) = Some (job_ref (jobs k)))
         \<or> (\<exists>e. us k = U_done (Inl e) \<and> files r' (j_id (jobs k)) = None \<and> \<not> alone K jobs k))
    \<and> (\<forall>i. i \<notin> (\<lambda>k. j_id (jobs k)) ` K \<and> i \<notin> ids ` L \<longrightarrow> files r' i = files r i)"
proof -
  have "writes_ok ls K jobs L ids (files r) (us, ds, s', r')"
    using crowd_run [OF assms(6,1-5)] by (simp add: crowd_inv_def)
  note ends = net_all_ended [OF writes_okD(1,2,5) [OF this] assms(7)]
  show ?thesis using ends by blast
qed

theorem concurrent_requests_safe_witness:
  "\<exists>s r rs qs us ds s' r'. crowd_exec demo_store (\<lambda>k :: unit. demo_job) (\<lambda>l :: unit. demo_id) (\<lambda>m :: unit. demo_id)
       (concat (replicate 18 [Inl (), Inr (Inl ()), Inr (Inr ())])) (crowd_start (s, r)) = (rs, qs, us, ds, s', r')
     \<and> files r demo_id \<noteq> None \<and> sys_inv demo_store (s', r') \<and> files r' demo_id = None \<and> ds () = D_done (Ok ())
     \<and> files r' demo_id2 = Some (job_ref demo_job)"
proof (rule demo_uploaded)
  fix s r
  assume inv: "sys_inv demo_store (s, r)"
    and f: "files r = [demo_id \<mapsto> new_ref 0 demo_bytes demo_header]"
    and bl: "local_blobs demo_store s = [demo_path \<mapsto> demo_bytes]"
  let ?ts = "concat (replicate 18 [Inl (), Inr (Inl ()), Inr (Inr ())]) :: (unit + unit + unit) list"
  obtain rs qs us ds s' r' where ex: "crowd_exec demo_store (\<lambda>k :: unit. demo_job) (\<lambda>l :: unit. demo_id) (\<lambda>m :: unit. demo_id)
      ?ts (crowd_start (s, r)) = (rs, qs, us, ds, s', r')" by (metis surj_pair)
  have reach: "crowd_reach demo_store UNIV (\<lambda>k :: unit. demo_job) UNIV (\<lambda>l :: unit. demo_id) UNIV (\<lambda>m :: unit. demo_id)
      (s, r) (rs, qs, us, ds, s', r')"
    unfolding ex [symmetric] by (rule crowd_exec_reach [OF crowd_reach.start]) auto
  have "18 \<le> count_list ?ts (Inr t)" for t by (cases t) (simp_all add: numeral_eq_Suc)
  then have ended: "ended UNIV us UNIV ds" using crowd_exec_ended [OF ex] by blast
  have ids: "ids_ok canonical_uuid UNIV (\<lambda>k :: unit. demo_job) UNIV (\<lambda>l :: unit. demo_id) (files r)"
    using demo_job_hash demo_distinct by (auto simp: ids_ok_def demo_uuids f inj_on_def)
  from concurrent_requests_safe [OF inv demo_jobs_ok ids _ _ reach ended] f bl demo_distinct
  have "sys_inv demo_store (s', r') \<and> files r' demo_id = None \<and> ds () = D_done (Ok ())
      \<and> files r' demo_id2 = Some (job_ref demo_job)" by (auto simp: alone_def)
  moreover have "files r demo_id \<noteq> None" using f by simp
  ultimately show ?thesis using ex by blast
qed

text \<open>
  C7: Downloads, listings and the time beside uploads and deletes, in any order of their commands, while
  no call fails. The uploads and deletes meet these conditions: every upload has an acceptable header, a
  name in UTF-8, a whole body and new UUIDs of its own, no file is deleted twice at a time, no upload has the
  content of a file that is being deleted, and there are fewer than 2147483647 files. At every moment each file that was there and that none of the deletes
  deletes is there, under its name and with its content. A download of such a file, if the
  file has no cached entry at the start and no other download of it runs, delivers when it ends the
  content, with the name, the time and the size of the file. When the uploads and deletes have made
  their calls, the invariant of the whole holds. (What a cached entry does to a download is
  \<open>second_download_fails\<close>, what happens outside the conditions are \<open>race_loses_content\<close> and
  \<open>double_delete_destroys_shared\<close>.)
\<close>

theorem reads_beside_writes:
  assumes "sys_inv ls (s, r)" and "jobs_ok canonical_uuid K jobs" and "ids_ok canonical_uuid K jobs L ids (files r)"
    and "\<And>k. k \<in> K \<Longrightarrow> local_blobs ls s (j_path (jobs k)) = None \<and> files r (j_id (jobs k)) = None"
    and "int (card (dom (files r)) + card K + card L) < 2147483647"
    and "crowd_reach ls K jobs L ids M rids (s, r) (rs, qs, us, ds, s', r')"
  shows "(\<forall>j v. j \<notin> ids ` L \<and> view ls (s, r) j = Some v \<longrightarrow> view ls (s', r') j = Some v)
    \<and> (\<forall>m n t b. reads_kept L ids M rids m \<and> cached_file r (rids m) = None \<and> view ls (s, r) (rids m) = Some (n, t, b)
         \<and> read_left (rs m) = 0 \<longrightarrow>
         (\<exists>g. rs m = R_done (Inr (reader_of b, g)) \<and> ID g = rids m \<and> Name g = n \<and> CreatedAt g = t
            \<and> GetSize g = int (length b)))
    \<and> (ended K us L ds \<longrightarrow> sys_inv ls (s', r'))"
proof (intro conjI allI impI; (elim conjE)?)
  note run = crowd_run [OF assms(6,1-5)]
  have net: "writes_ok ls K jobs L ids (files r) (us, ds, s', r')" and kept: "contents_kept ls (- ids ` L) (s, r) (s', r')"
    using run by (simp_all add: crowd_inv_def)
  show "view ls (s', r') j = Some v" if "j \<notin> ids ` L" "view ls (s, r) j = Some v" for j v
    using contents_kept_view [OF kept _ that(2)] that(1) by simp
  show "sys_inv ls (s', r')" if "ended K us L ds"
    using writes_okD(1,2) [OF net] net_inv_end [OF writes_okD(5) [OF net] that fr.finite_files [OF writes_okD(2) [OF net]]]
    by (simp add: sys_inv_def)
  fix m n t b
  assume m: "reads_kept L ids M rids m" "cached_file r (rids m) = None" "view ls (s, r) (rids m) = Some (n, t, b)"
    and stopped: "read_left (rs m) = 0"
  obtain f p where f: "file_at (db r) (rids m) = Some (f, p)" "local_blobs ls s p = Some b"
      "n = ref_name f" "t = ref_created f"
    using m(3) by (auto simp: view_file_at split: option.splits)
  have "read_ok (rids m) f p b r' (rs m)" using run m(1,2) f(1,2) by (simp add: crowd_inv_def)
  then show "\<exists>g. rs m = R_done (Inr (reader_of b, g)) \<and> ID g = rids m \<and> Name g = n \<and> CreatedAt g = t \<and>
      GetSize g = int (length b)"
    using stopped f(3,4) by (cases "rs m") (auto simp: joined_def GetSize_def)
qed

theorem reads_beside_writes_witness:
  "\<exists>s r rs qs us ds s' r' g. crowd_exec demo_store (\<lambda>k :: unit. demo_job) (\<lambda>l :: unit. demo_path) (\<lambda>m :: unit. demo_id)
       (concat (replicate 8 [Inl (), Inr (Inr ()), Inr (Inl ())])) (crowd_start (s, r)) = (rs, qs, us, ds, s', r')
     \<and> view demo_store (s', r') demo_id = Some (''a.txt'', 0, demo_bytes)
     \<and> rs () = R_done (Inr (reader_of demo_bytes, g)) \<and> Name g = ''a.txt'' \<and> GetSize g = 3"
proof (rule demo_uploaded)
  fix s r
  assume inv: "sys_inv demo_store (s, r)"
    and f: "files r = [demo_id \<mapsto> new_ref 0 demo_bytes demo_header]" and c: "cached_file r = (\<lambda>i. None)"
    and st: "storages r = [sha256_hex demo_bytes \<mapsto> new_storage demo_path 0 demo_bytes demo_header]"
    and bl: "local_blobs demo_store s = [demo_path \<mapsto> demo_bytes]"
  let ?ts = "concat (replicate 8 [Inl (), Inr (Inr ()), Inr (Inl ())]) :: (unit + unit + unit) list"
  obtain rs qs us ds s' r' where ex: "crowd_exec demo_store (\<lambda>k :: unit. demo_job) (\<lambda>l :: unit. demo_path) (\<lambda>m :: unit. demo_id)
      ?ts (crowd_start (s, r)) = (rs, qs, us, ds, s', r')" by (metis surj_pair)
  have reach: "crowd_reach demo_store UNIV (\<lambda>k :: unit. demo_job) UNIV (\<lambda>l :: unit. demo_path) UNIV (\<lambda>m :: unit. demo_id)
      (s, r) (rs, qs, us, ds, s', r')"
    unfolding ex [symmetric] by (rule crowd_exec_reach [OF crowd_reach.start]) auto
  have apart: "demo_id2 \<noteq> demo_path" "demo_id \<noteq> demo_path" by (simp_all add: demo_id2_def demo_id_def demo_path_def)
  have ids: "ids_ok canonical_uuid UNIV (\<lambda>k :: unit. demo_job) UNIV (\<lambda>l :: unit. demo_path) (files r)"
    using apart by (auto simp: ids_ok_def demo_uuids f inj_on_def)
  have old: "view demo_store (s, r) demo_id = Some (''a.txt'', 0, demo_bytes)"
    by (simp add: view_def f st bl new_ref_def new_storage_def demo_header_def)
  have "read_left (rs ()) = 0"
    using crowd_exec_read_left [OF ex [unfolded crowd_start_def], of "()"] by (simp add: numeral_eq_Suc)
  moreover have "reads_kept UNIV (\<lambda>l :: unit. demo_path) UNIV (\<lambda>m :: unit. demo_id) ()"
    using apart by (auto simp: reads_kept_def demo_uuids)
  moreover note all = reads_beside_writes [OF inv demo_jobs_ok ids _ _ reach]
  ultimately have "\<exists>g. rs () = R_done (Inr (reader_of demo_bytes, g)) \<and> Name g = ''a.txt'' \<and> GetSize g = 3"
    using old f bl c demo_distinct by (fastforce simp: demo_bytes_def)
  moreover have "view demo_store (s', r') demo_id = Some (''a.txt'', 0, demo_bytes)"
    using all old f bl demo_distinct apart by simp
  ultimately show ?thesis using ex by blast
qed

text \<open>
  C17: A delete that comes between the two commands of a download leaves the deleted file in the cache: the
  download has read the row, the delete removes row, blob and cached entry and answers with success, and
  then the download caches what it has read. From then on \<open>GetByID\<close> answers for an hour with a file
  that is gone.
\<close>

theorem late_cache_write_keeps_deleted:
  assumes "sys_inv ls (s, r)" and "canonical_uuid i" and "cached_file r i = None"
    and "files r i = Some f" and "storages r (ref_hash f) = Some x"
    and "json_time_ok (ref_created f) \<and> json_time_ok (StCreatedAt x) \<and> json_time_ok (UpdatedAt x)"
  shows "\<exists>sched rs qs us ds s' r' g. crowd_exec ls jobs (\<lambda>l :: unit. i) (\<lambda>m :: unit. i) sched (crowd_start (s, r))
      = (rs, qs, us, ds, s', r') \<and> ds () = D_done (Ok ()) \<and> view ls (s', r') i = None
    \<and> (\<forall>dt. 0 \<le> dt \<and> dt < one_hour \<longrightarrow>
        fst (GetByID i (r'\<lparr>clock := clock r' + dt\<rparr>)) = Inr g)"
proof -
  note inv = sys_invD [OF assms(1)]
  note h = healthy_simps(1,2,3) [OF inv(2)]
  obtain row where row: "run_sql (select_join_by_id i) r = (Inr (Some (row, x)), r)" "join_file row x = joined i f x"
    using select_join_hit [OF h(3) assms(2)] assms(4,5) run_sql_query [OF h(1)] unfolding files_def storages_def by metis
  obtain val where get: "cache_get (file_key i) r = (val, r)" using cache_healthy(3) [OF h(2)] by (metis prod.collapse)
  then have miss: "Option.bind val unmarshal_File = None"
    using cache_healthy(4) [OF h(2), of i] assms(3) by simp
  have read2: "(read_step (local_storage_ops ls) i ^^ 2) (R_start, s, r) = (R_keep (joined i f x), s, r)"
    using get miss row by (simp add: numeral_eq_Suc Let_def)
  have "view ls (s, r) i \<noteq> None" using view_None_iff [OF assms(1)] assms(4) by simp
  from Delete_view [OF assms(1,2) this] obtain s1 r1 where del: "Delete (file_service ls) i (s, r) = (Ok (), s1, r1)"
      "view ls (s1, r1) = (view ls (s, r))(i := None)" by auto
  have inv1: "sys_inv ls (s1, r1)" by (rule clean_step_inv [OF clean_step.delete [OF assms(2) del(1)] assms(1)])
  let ?r = "cache_file (file_key i) (joined i f x) r1"
  let ?sched = "replicate 2 (Inl ()) @ replicate 8 (Inr (Inr ())) @ replicate 1 (Inl ())"
  have delete: "crowd_exec ls jobs (\<lambda>l. i) (\<lambda>m. i) (replicate 8 (Inr (Inr ()))) (rs, \<lambda>t. [], us, \<lambda>l. D_start, s, r)
      = (rs, \<lambda>t. [], us, \<lambda>l. D_done (Ok ()), s1, r1)" for rs :: "unit \<Rightarrow> read_pc" and us
    using crowd_exec_delete [where ids = "\<lambda>l :: unit. i" and ds = "\<lambda>l. D_start" and qs = "\<lambda>t. []", OF del(1)]
    by (simp add: fun_upd_def)
  have run: "crowd_exec ls jobs (\<lambda>l :: unit. i) (\<lambda>m :: unit. i) ?sched (crowd_start (s, r))
      = ((\<lambda>m. R_open (joined i f x)), \<lambda>t. [], \<lambda>k. U_start, (\<lambda>l. D_done (Ok ())), s1, ?r)"
    unfolding crowd_exec_append crowd_start_def crowd_exec_reads read2 prod.case delete by (simp add: fun_eq_iff)
  have gone: "view ls (s1, ?r) i = None"
    using del(2) view_cong [of ?r r1 ls s1] sys_invD(2) [OF inv1] by simp
  have answer: "fst (GetByID i (?r\<lparr>clock := clock ?r + dt\<rparr>)) = Inr (strip_File (joined i f x))"
    if "0 \<le> dt \<and> dt < one_hour" for dt
  proof -
    obtain j where j: "marshal_File (joined i f x) = Some j"
      using assms(6) by (auto simp: marshal_File_def marshal_Storage_def joined_def)
    note h1 = healthy_simps(2) [OF sys_invD(2) [OF inv1]]
    have r: "?r = r1\<lparr>cache := (cache r1)(file_key i \<mapsto> (j, clock r1 + one_hour))\<rparr>"
      using cache_file_healthy [OF sys_invD(2) [OF inv1]] j by simp
    have "cached_file (?r\<lparr>clock := clock ?r + dt\<rparr>) i = Some (strip_File (joined i f x))"
      using that unmarshal_marshal_File [OF j] by (simp add: r cached_file_def)
    moreover have "cache_events (?r\<lparr>clock := clock ?r + dt\<rparr>) = []" using h1 by (simp add: r)
    ultimately show ?thesis using GetByID_cached by simp
  qed
  show ?thesis by (intro exI conjI, rule run, simp, rule gone, intro allI impI, rule answer)
qed

theorem late_cache_write_keeps_deleted_witness:
  "\<exists>w sched rs qs us ds s' r' g. crowd_exec demo_store (\<lambda>k :: unit. demo_job) (\<lambda>l :: unit. demo_id) (\<lambda>m :: unit. demo_id)
       sched (crowd_start w) = (rs, qs, us, ds, s', r')
     \<and> view demo_store w demo_id \<noteq> None \<and> view demo_store (s', r') demo_id = None
     \<and> fst (GetByID demo_id (r'\<lparr>clock := clock r' + 1\<rparr>)) = Inr g"
proof (rule demo_uploaded)
  fix s r
  assume inv: "sys_inv demo_store (s, r)" and c: "cached_file r = (\<lambda>i. None)"
    and f: "files r = [demo_id \<mapsto> new_ref 0 demo_bytes demo_header]"
    and st: "storages r = [sha256_hex demo_bytes \<mapsto> new_storage demo_path 0 demo_bytes demo_header]"
  let ?f = "new_ref 0 demo_bytes demo_header" and ?x = "new_storage demo_path 0 demo_bytes demo_header"
  have "json_time_ok 0" by code_simp
  then have "json_time_ok (ref_created ?f) \<and> json_time_ok (StCreatedAt ?x) \<and> json_time_ok (UpdatedAt ?x)"
    by (simp add: new_storage_def)
  then have ex: "\<exists>sched rs qs us ds s' r' g. crowd_exec demo_store (\<lambda>k :: unit. demo_job) (\<lambda>l :: unit. demo_id)
      (\<lambda>m :: unit. demo_id) sched (crowd_start (s, r)) = (rs, qs, us, ds, s', r') \<and> ds () = D_done (Ok ())
      \<and> view demo_store (s', r') demo_id = None
      \<and> (\<forall>dt. 0 \<le> dt \<and> dt < one_hour \<longrightarrow> fst (GetByID demo_id (r'\<lparr>clock := clock r' + dt\<rparr>)) = Inr g)"
    using late_cache_write_keeps_deleted [OF inv demo_uuids(2), of ?f ?x "\<lambda>k :: unit. demo_job"] c f st by simp
  have "view demo_store (s, r) demo_id \<noteq> None" using view_None_iff [OF inv] f by simp
  moreover have "(0 :: time) \<le> 1 \<and> (1 :: time) < one_hour" by (simp add: one_hour_def)
  ultimately show ?thesis using ex by blast
qed

end
