(* ===== verification/Lifecycle.thy ===== *)
theory Lifecycle
  imports Prelude
begin

text \<open>
  The end of cmd/main.go: an error group runs \<open>ListenAndServe\<close> and a function that waits for SIGINT or
  SIGTERM and then calls \<open>Shutdown\<close>; main waits for both and returns. The server of net/http and the
  channel of os/signal are part of Go's library and modelled as documented: \<open>Shutdown\<close> closes the
  listener, makes \<open>ListenAndServe\<close> return \<open>ErrServerClosed\<close> at once, closes the connections on which no
  request is active, and returns when there is no connection left; a signal is kept in a channel of
  size one, and kills the process before \<open>Notify\<close>. \<open>Shutdown\<close> is called with a context that never ends,
  and the server is set up without timeouts, so a request ends only when its handler does.

  The package errgroup is a parameter. Its contract is the locale \<open>errgroup\<close>: the group keeps the first
  error that is not nil, its context is done when there is one, and \<open>Wait\<close> returns it.
\<close>

section \<open>The error group\<close>

record 'g group_ops =
  g_returned :: "goerr option \<Rightarrow> 'g \<Rightarrow> 'g"  \<comment> \<open>a function of the group has returned\<close>
  g_done :: "'g \<Rightarrow> bool"                    \<comment> \<open>\<open>ctx.Done()\<close> is closed\<close>
  g_Wait :: "'g \<Rightarrow> goerr option"           \<comment> \<open>when all functions have returned\<close>

locale errgroup =
  fixes G :: "'g group_ops"
    and first :: "'g \<Rightarrow> goerr option"
  assumes returned: "first (g_returned G e g) = (case first g of Some x \<Rightarrow> Some x | None \<Rightarrow> e)"
    and done_iff: "g_done G g \<longleftrightarrow> first g \<noteq> None"
    and Wait: "g_Wait G g = first g"
begin

lemma returned_error: "first (g_returned G (Some e) g) \<noteq> None"
  by (simp add: returned split: option.split)

lemma returned_keeps: "first g \<noteq> None \<Longrightarrow> first (g_returned G e g) = first g"
  by (auto simp: returned)

end

section \<open>The process\<close>

datatype serving = Listening | ServeReturned
datatype waiter = NotYet | Waiting | ShuttingDown | WaiterReturned
datatype process = Serving | Exited "goerr option" | Killed

record 'g life =
  lf_main :: process
  lf_serve :: serving
  lf_waiter :: waiter
  lf_open :: bool      \<comment> \<open>the listener accepts\<close>
  lf_closing :: bool   \<comment> \<open>\<open>Shutdown\<close> has been called\<close>
  lf_conns :: nat      \<comment> \<open>connections without an active request: new ones and idle ones\<close>
  lf_active :: nat     \<comment> \<open>connections with an active request\<close>
  lf_signal :: bool    \<comment> \<open>a signal is in the channel\<close>
  lf_group :: 'g

datatype event =
    Bind
  | Accept   \<comment> \<open>of a connection\<close>
  | Request  \<comment> \<open>its first byte is read\<close>
  | Finish   \<comment> \<open>the handler has returned and the answer is written\<close>
  | Hangup   \<comment> \<open>the client, or a shutting down server, closes a connection without a request\<close>
  | Signal
  | Notify
  | ListenFails goerr
  | SeesDone
  | SeesSignal
  | ServeClosed
  | Drained "goerr option"
  | WaitReturns

definition ErrServerClosed :: goerr where
  "ErrServerClosed = ErrorString ''http: Server closed''"

definition Canceled :: goerr where
  "Canceled = ErrorString ''context canceled''"

definition life_start :: "'g \<Rightarrow> 'g life" where
  "life_start g = \<lparr>lf_main = Serving, lf_serve = Listening, lf_waiter = NotYet, lf_open = False, lf_closing = False,
     lf_conns = 0, lf_active = 0,
     lf_signal = False, lf_group = g\<rparr>"

text \<open>One event, when it can happen.\<close>

fun life_event :: "'g group_ops \<Rightarrow> event \<Rightarrow> 'g life \<Rightarrow> 'g life option" where
  "life_event G Bind w =
     (if lf_serve w = Listening \<and> \<not> lf_closing w \<and> \<not> lf_open w then Some (w\<lparr>lf_open := True\<rparr>) else None)"
| "life_event G Accept w = (if lf_open w then Some (w\<lparr>lf_conns := lf_conns w + 1\<rparr>) else None)"
| "life_event G Request w =
     (if 0 < lf_conns w then Some (w\<lparr>lf_conns := lf_conns w - 1, lf_active := lf_active w + 1\<rparr>) else None)"
| "life_event G Finish w =
     (if 0 < lf_active w
      then Some (w\<lparr>lf_active := lf_active w - 1, lf_conns := lf_conns w + (if lf_closing w then 0 else 1)\<rparr>)
      else None)"
| "life_event G Hangup w = (if 0 < lf_conns w then Some (w\<lparr>lf_conns := lf_conns w - 1\<rparr>) else None)"
| "life_event G Signal w =
     (if lf_waiter w = NotYet then Some (w\<lparr>lf_main := Killed\<rparr>) else Some (w\<lparr>lf_signal := True\<rparr>))"
| "life_event G Notify w = (if lf_waiter w = NotYet then Some (w\<lparr>lf_waiter := Waiting\<rparr>) else None)"
| "life_event G (ListenFails e) w =
     (if lf_serve w = Listening \<and> \<not> lf_closing w
      then Some (w\<lparr>lf_serve := ServeReturned, lf_open := False, lf_group := g_returned G (Some e) (lf_group w)\<rparr>)
      else None)"
| "life_event G SeesDone w =
     (if lf_waiter w = Waiting \<and> g_done G (lf_group w)
      then Some (w\<lparr>lf_waiter := WaiterReturned, lf_group := g_returned G (Some Canceled) (lf_group w)\<rparr>)
      else None)"
| "life_event G SeesSignal w =
     (if lf_waiter w = Waiting \<and> lf_signal w
      then Some (w\<lparr>lf_waiter := ShuttingDown, lf_signal := False, lf_closing := True, lf_open := False\<rparr>)
      else None)"
| "life_event G ServeClosed w =
     (if lf_serve w = Listening \<and> lf_closing w
      then Some (w\<lparr>lf_serve := ServeReturned, lf_group := g_returned G (Some ErrServerClosed) (lf_group w)\<rparr>)
      else None)"
| "life_event G (Drained res) w =
     (if lf_waiter w = ShuttingDown \<and> lf_active w = 0 \<and> lf_conns w = 0
      then Some (w\<lparr>lf_waiter := WaiterReturned, lf_group := g_returned G res (lf_group w)\<rparr>)
      else None)"
| "life_event G WaitReturns w =
     (if lf_serve w = ServeReturned \<and> lf_waiter w = WaiterReturned
      then Some (w\<lparr>lf_main := Exited (g_Wait G (lf_group w))\<rparr>)
      else None)"

definition life_step :: "'g group_ops \<Rightarrow> event \<Rightarrow> 'g life \<Rightarrow> 'g life option" where
  "life_step G e w = (if lf_main w = Serving then life_event G e w else None)"

fun life_run :: "'g group_ops \<Rightarrow> event list \<Rightarrow> 'g life \<Rightarrow> 'g life option" where
  "life_run G [] w = Some w"
| "life_run G (e # es) w = (case life_step G e w of None \<Rightarrow> None | Some w \<Rightarrow> life_run G es w)"

text \<open>\<open>logger.Error("server exit")\<close>, when main ends with an error.\<close>

definition logged :: "'g life \<Rightarrow> goerr option" where
  "logged w = (case lf_main w of Exited e \<Rightarrow> e | _ \<Rightarrow> None)"

section \<open>Invariant\<close>

text \<open>\<open>Shutdown\<close> was called and the process has not ended.\<close>

definition stopping :: "'g life \<Rightarrow> bool" where
  "stopping w \<longleftrightarrow> lf_main w = Serving \<and> lf_closing w"

definition life_inv :: "('g \<Rightarrow> goerr option) \<Rightarrow> 'g life \<Rightarrow> bool" where
  "life_inv first w \<longleftrightarrow>
     (lf_open w \<longrightarrow> lf_serve w = Listening \<and> \<not> lf_closing w)
   \<and> (lf_serve w = ServeReturned \<longrightarrow> first (lf_group w) \<noteq> None)
   \<and> (first (lf_group w) \<noteq> None \<longrightarrow> lf_serve w = ServeReturned \<or> lf_closing w)
   \<and> (lf_waiter w = ShuttingDown \<longrightarrow> lf_closing w)
   \<and> (lf_closing w \<longrightarrow> lf_waiter w = ShuttingDown \<or> lf_waiter w = WaiterReturned)
   \<and> (lf_waiter w = WaiterReturned \<longrightarrow> lf_closing w \<or> lf_serve w = ServeReturned)
   \<and> (lf_closing w \<and> lf_waiter w = WaiterReturned \<longrightarrow> lf_active w = 0 \<and> lf_conns w = 0)
   \<and> (\<forall>e. lf_main w = Exited e \<longrightarrow> lf_serve w = ServeReturned \<and> lf_waiter w = WaiterReturned \<and> e = first (lf_group w))"

fun is_signal :: "event \<Rightarrow> bool" where
  "is_signal Signal = True"
| "is_signal e = False"

text \<open>What the process does by itself, without a client and without a handler that returns.\<close>

fun is_own :: "event \<Rightarrow> bool" where
  "is_own Hangup = True"
| "is_own Notify = True"
| "is_own SeesDone = True"
| "is_own SeesSignal = True"
| "is_own ServeClosed = True"
| "is_own (Drained res) = True"
| "is_own WaitReturns = True"
| "is_own e = False"

fun waiter_left :: "waiter \<Rightarrow> nat" where
  "waiter_left NotYet = 3"
| "waiter_left Waiting = 2"
| "waiter_left ShuttingDown = 1"
| "waiter_left WaiterReturned = 0"

definition life_left :: "'g life \<Rightarrow> nat" where
  "life_left w = 2 * lf_conns w + lf_active w + waiter_left (lf_waiter w) + (if lf_serve w = Listening then 1 else 0)
     + (if lf_main w = Serving then 1 else 0)"

context errgroup
begin

lemma life_inv_start: "first g = None \<Longrightarrow> life_inv first (life_start g)"
  by (simp add: life_inv_def life_start_def)

lemma life_inv_step:
  assumes "life_inv first w" "life_step G e w = Some w'"
  shows "life_inv first w'"
  using assms
proof (cases e)
  case Bind then show ?thesis using assms by (auto simp: life_step_def life_inv_def split: if_splits)
next
  case Accept then show ?thesis using assms by (auto simp: life_step_def life_inv_def split: if_splits)
next
  case Request then show ?thesis using assms by (auto simp: life_step_def life_inv_def split: if_splits)
next
  case Finish then show ?thesis using assms by (auto simp: life_step_def life_inv_def split: if_splits)
next
  case Hangup then show ?thesis using assms by (auto simp: life_step_def life_inv_def split: if_splits)
next
  case Signal
  then have "w' = w\<lparr>lf_main := Killed\<rparr> \<or> w' = w\<lparr>lf_signal := True\<rparr>"
    using assms(2) by (simp add: life_step_def split: if_splits)
  then show ?thesis
  proof
    assume "w' = w\<lparr>lf_main := Killed\<rparr>"
    with assms(1) show ?thesis by (simp add: life_inv_def)
  next
    assume "w' = w\<lparr>lf_signal := True\<rparr>"
    with assms(1) show ?thesis by (simp add: life_inv_def)
  qed
next
  case Notify then show ?thesis using assms by (auto simp: life_step_def life_inv_def split: if_splits)
next
  case (ListenFails x) then show ?thesis using assms by (auto simp: life_step_def life_inv_def returned split: if_splits option.splits)
next
  case SeesDone then show ?thesis using assms by (auto simp: life_step_def life_inv_def returned done_iff split: if_splits option.splits)
next
  case SeesSignal then show ?thesis using assms by (auto simp: life_step_def life_inv_def split: if_splits)
next
  case ServeClosed then show ?thesis using assms by (auto simp: life_step_def life_inv_def returned split: if_splits option.splits)
next
  case (Drained x) then show ?thesis using assms by (auto simp: life_step_def life_inv_def returned split: if_splits option.splits)
next
  case WaitReturns then show ?thesis using assms by (auto simp: life_step_def life_inv_def Wait split: if_splits)
qed

lemma life_inv_run: "life_inv first w \<Longrightarrow> life_run G es w = Some w' \<Longrightarrow> life_inv first w'"
  by (induction es arbitrary: w) (auto split: option.splits intro: life_inv_step)

text \<open>
  While the server is stopping and no request is active, the process can go on by itself; every event
  other than a signal uses up the measure; and requests become fewer only by \<open>Finish\<close>.
\<close>

lemma stopping_enabled:
  assumes "life_inv first w" "stopping w" "lf_active w = 0"
  shows "\<exists>e. is_own e \<and> life_step G e w \<noteq> None"
proof (cases "lf_waiter w")
  case ShuttingDown
  show ?thesis
  proof (cases "lf_conns w = 0")
    case True
    then show ?thesis using assms(2,3) ShuttingDown by (intro exI [of _ "Drained None"]) (simp add: stopping_def life_step_def)
  next
    case False
    then show ?thesis using assms(2) by (intro exI [of _ Hangup]) (simp add: stopping_def life_step_def)
  qed
next
  case WaiterReturned
  show ?thesis
  proof (cases "lf_serve w")
    case Listening
    then show ?thesis using assms by (intro exI [of _ ServeClosed]) (simp add: stopping_def life_step_def)
  next
    case ServeReturned
    then show ?thesis using assms(2) WaiterReturned by (intro exI [of _ WaitReturns]) (simp add: stopping_def life_step_def)
  qed
qed (use assms in \<open>auto simp: stopping_def life_inv_def\<close>)

lemma stopping_step:
  assumes "life_inv first w" "stopping w" "life_step G e w = Some w'"
  shows "(stopping w' \<or> lf_main w' \<noteq> Serving) \<and> life_left w' + (if is_signal e then 0 else 1) \<le> life_left w"
proof -
  have w: "\<not> lf_open w" "lf_main w = Serving" "lf_closing w" "lf_waiter w = ShuttingDown \<or> lf_waiter w = WaiterReturned"
    using assms(1,2) by (auto simp: life_inv_def stopping_def)
  show ?thesis
  proof (cases "is_signal e")
    case True
    then have "w' = w\<lparr>lf_main := Killed\<rparr> \<or> w' = w\<lparr>lf_signal := True\<rparr>"
      using assms(3) by (cases e) (simp_all add: life_step_def split: if_splits)
    then show ?thesis using w True by (elim disjE) (simp_all add: stopping_def life_left_def)
  next
    case False
    then show ?thesis using w assms(3)
      by (cases e) (auto simp: life_step_def stopping_def life_left_def split: if_splits)
  qed
qed

lemma active_step: "life_step G e w = Some w' \<Longrightarrow> lf_active w \<le> lf_active w' + (if e = Finish then 1 else 0)"
  by (cases e) (auto simp: life_step_def split: if_splits)

lemma active_run: "life_run G es w = Some w' \<Longrightarrow> lf_active w \<le> lf_active w' + count_list es Finish"
proof (induction es arbitrary: w)
  case (Cons e es)
  then obtain v where v: "life_step G e w = Some v" "life_run G es v = Some w'" by (auto split: option.splits)
  from active_step [OF v(1)] Cons.IH [OF v(2)] show ?case by (auto split: if_splits)
qed simp

lemma closing_step: "life_step G e w = Some w' \<Longrightarrow> lf_closing w \<Longrightarrow> lf_closing w'"
  by (cases e) (auto simp: life_step_def split: if_splits)

lemma closing_run: "life_run G es w = Some w' \<Longrightarrow> lf_closing w \<Longrightarrow> lf_closing w'"
  by (induction es arbitrary: w) (auto split: option.splits dest: closing_step)

lemma stopping_run:
  "life_inv first w \<Longrightarrow> stopping w \<or> lf_main w \<noteq> Serving \<Longrightarrow> life_run G es w = Some w' \<Longrightarrow>
   length (filter (\<lambda>e. \<not> is_signal e) es) + life_left w' \<le> life_left w"
proof (induction es arbitrary: w)
  case (Cons e es)
  then obtain v where v: "life_step G e w = Some v" "life_run G es v = Some w'" by (auto split: option.splits)
  then have "stopping w" using Cons.prems(2) by (auto simp: life_step_def)
  from stopping_step [OF Cons.prems(1) this v(1)] Cons.IH [OF life_inv_step [OF Cons.prems(1) v(1)] _ v(2)]
  show ?case by (cases "is_signal e") auto
qed simp

end

section \<open>The instance\<close>

text \<open>The documented group: its state is the first error.\<close>

definition first_error :: "goerr option group_ops" where
  "first_error = \<lparr>g_returned = (\<lambda>e g. case g of Some x \<Rightarrow> Some x | None \<Rightarrow> e), g_done = (\<lambda>g. g \<noteq> None), g_Wait = id\<rparr>"

interpretation fe: errgroup first_error id
  by unfold_locales (simp_all add: first_error_def split: option.split)

section \<open>Properties\<close>

text \<open>
  C21: \<open>Shutdown\<close> ends if the active requests do, and waits for them without a deadline. Once it was called no
  connection is accepted any more; at most three events more than the active requests and twice the
  other connections can happen, signals apart; when no request is active the process can always go
  on by itself until it has ended; and it cannot end before every active request has finished, so that one
  handler that does not return keeps it waiting for ever, since the program sets no timeout anywhere.
\<close>

theorem shutdown_ends:
  assumes "errgroup G first" and "first g = None" and "life_run G es (life_start g) = Some w" and "stopping w"
  shows "life_step G Accept w = None
    \<and> (\<forall>es' w'. life_run G es' w = Some w' \<longrightarrow>
        length (filter (\<lambda>e. \<not> is_signal e) es') \<le> lf_active w + 2 * lf_conns w + 3)
    \<and> (lf_active w = 0 \<longrightarrow> (\<exists>e. is_own e \<and> life_step G e w \<noteq> None))
    \<and> (\<forall>es' w' x. life_run G es' w = Some w' \<and> lf_main w' = Exited x \<longrightarrow> lf_active w \<le> count_list es' Finish)"
proof -
  have inv: "life_inv first w"
    using errgroup.life_inv_run [OF assms(1) errgroup.life_inv_start [OF assms(1,2)] assms(3)] .
  have "lf_waiter w = ShuttingDown \<or> lf_waiter w = WaiterReturned" using inv assms(4) by (simp add: life_inv_def stopping_def)
  then have "life_left w \<le> lf_active w + 2 * lf_conns w + 3" by (auto simp: life_left_def)
  then have "length (filter (\<lambda>e. \<not> is_signal e) es') \<le> lf_active w + 2 * lf_conns w + 3"
    if "life_run G es' w = Some w'" for es' w'
    using errgroup.stopping_run [OF assms(1) inv _ that] assms(4) by fastforce
  moreover have "life_step G Accept w = None"
    using inv assms(4) by (auto simp: life_step_def life_inv_def stopping_def)
  moreover have "lf_active w \<le> count_list es' Finish" if "life_run G es' w = Some w'" "lf_main w' = Exited x" for es' w' x
  proof -
    have "lf_closing w" using assms(4) by (simp add: stopping_def)
    then have "lf_closing w'" by (rule errgroup.closing_run [OF assms(1) that(1)])
    then have "lf_active w' = 0" using errgroup.life_inv_run [OF assms(1) inv that(1)] that(2) by (auto simp: life_inv_def)
    then show ?thesis using errgroup.active_run [OF assms(1) that(1)] by simp
  qed
  ultimately show ?thesis using errgroup.stopping_enabled [OF assms(1) inv assms(4)] by blast
qed

theorem shutdown_ends_witness:
  "\<exists>w. life_run first_error [Notify, Bind, Accept, Request, Signal, SeesSignal] (life_start None) = Some w \<and> lf_active w = 1
     \<and> (\<forall>es' w' x. life_run first_error es' w = Some w' \<and> lf_main w' = Exited x \<longrightarrow> 1 \<le> count_list es' Finish)"
proof -
  let ?es = "[Notify, Bind, Accept, Request, Signal, SeesSignal]"
  obtain w where w: "life_run first_error ?es (life_start None) = Some w" "stopping w" "lf_active w = 1"
    by (simp add: life_step_def life_start_def stopping_def)
  from shutdown_ends [OF fe.errgroup_axioms _ w(1,2)] w(1,3) show ?thesis by auto
qed

text \<open>
  C22: A shutdown on a signal cuts off no request: when the process has ended after \<open>Shutdown\<close> was called,
  no request is active. And whatever ended the server, an error is logged, after a clean shutdown too.
\<close>

theorem shutdown_drains:
  assumes "errgroup G first" and "first g = None" and "life_run G es (life_start g) = Some w" and "lf_main w = Exited e"
  shows "(lf_closing w \<longrightarrow> lf_active w = 0) \<and> logged w \<noteq> None"
  using errgroup.life_inv_run [OF assms(1) errgroup.life_inv_start [OF assms(1,2)] assms(3)] assms(4)
  by (auto simp: life_inv_def logged_def)

theorem shutdown_drains_witness:
  "\<exists>w. life_run first_error [Notify, Bind, Accept, Request, Signal, SeesSignal, ServeClosed, Finish, Drained None, WaitReturns]
       (life_start None) = Some w \<and> lf_closing w \<and> lf_active w = 0 \<and> logged w = Some ErrServerClosed"
proof -
  let ?es = "[Notify, Bind, Accept, Request, Signal, SeesSignal, ServeClosed, Finish, Drained None, WaitReturns]"
  obtain w where w: "life_run first_error ?es (life_start None) = Some w" "lf_main w = Exited (Some ErrServerClosed)" "lf_closing w"
    by (simp add: life_step_def life_start_def first_error_def)
  from shutdown_drains [OF fe.errgroup_axioms _ w(1,2)] w show ?thesis by (auto simp: logged_def)
qed

text \<open>
  When listening fails after requests were accepted, the process ends without waiting for them, and
  it ends as after a clean shutdown, by returning from main.
\<close>

theorem listen_failure_cuts_off:
  "\<exists>es w. life_run first_error es (life_start None) = Some w \<and> lf_main w = Exited (Some e) \<and> 0 < lf_active w"
  by (rule exI [of _ "[Notify, Bind, Accept, Request, ListenFails e, SeesDone, WaitReturns]"])
    (simp add: life_step_def life_start_def first_error_def)

end
