(* ===== verification/Spec2Isabelle.thy ===== *)
theory Spec2Isabelle
  imports Server SeaweedFS ConcurrentReads Lifecycle
begin

text \<open>
  A verification development of pot-play-storage, a file storage service in Go: an HTTP API over a
  service that stores each content once, with PostgreSQL for the records, Redis as a cache, and a
  local directory or SeaweedFS for the contents.

  The program and the theories.
  A request comes to a handler (internal/handler/file.go; theory Handler), which validates
  (pkg/validator/file.go; theory Validator), calls the service (internal/service/storage.go and
  dedup.go; theories Service and ServiceFacts) and answers, with error texts made harmless by
  pkg/errors/security.go (theory SecurityErrors). The service works on two interfaces. The storage
  (pkg/storage/interface.go; theory BlobStore) is implemented by LocalStorage
  (pkg/storage/local.go; theory LocalStorage), by SeaweedFSSimpleStorage
  (pkg/storage/seaweedfs_simple.go; theories SeaweedSimple and Filer) and by SeaweedFSStorage
  (pkg/storage/seaweedfs.go; theory SeaweedFS). The repository (internal/repository/interface.go;
  theory RepositoryInterface) is implemented by FileRepository (internal/repository/file.go;
  theories Repository and RepositoryFacts) over the tables of migrations/001_initial.sql (theories
  Database and Schema). The records they exchange are those of internal/model/file.go (theory
  Model). The program is put together and started by cmd/main.go (theories Server and Lifecycle)
  with the settings of internal/config/config.go (theory Config). What is used of Go's library is
  in GoStrings, GoText (UTF-8), GoPath (path/filepath), GoURL (net/url, net/http) and Sha256;
  Prelude has errors, results and readers.

  State and operations.
  A Go struct is a record, an error a value of \<open>goerr\<close>, a call that may fail a sum, a
  call that may panic a \<open>res\<close>. A component with state takes it as its last argument
  and returns it: the tree of the disk (\<open>localfs\<close>), the state of the network (a type
  variable), the tables, cache and clock (\<open>repo_state\<close>). Definitions have the names
  of the Go functions, with a prefix where several types have a method of that name
  (\<open>local_Put\<close>, \<open>simple_Put\<close>, \<open>full_Put\<close>). Faults come from
  schedules in the state: \<open>db_events\<close> (a statement fails, is executed but reported as
  failed, reports an error after its row was read, or its result is cut off),
  \<open>cache_events\<close> (a command fails) and \<open>disk\<close> (a system call fails, a
  write stops early, or only some of the missing directories are made); the empty schedule means
  that nothing fails. UUIDs, times, the multipart form, the detected MIME type and the servers of
  SeaweedFS are arguments.

  Interfaces.
  \<open>blob_store\<close> and \<open>repository\<close> are the contracts of the two interfaces
  of the service, \<open>storage_service\<close> joins them and has the lemmas on Upload, Download
  and Delete. They are interpreted on LocalStorage (\<open>lfs\<close>), on FileRepository
  (\<open>fr\<close>) and on the two together (\<open>svc\<close>, theory System).
  \<open>filer\<close> states the documented behaviour of the SeaweedFS filer, which is no part of
  the repository; under it the simple client is a \<open>blob_store\<close> and the service over
  it a \<open>storage_service\<close> (theory SeaweedService). Of the network of the full client
  nothing is assumed. \<open>errgroup\<close> states the documented behaviour of the error group
  that main waits on (theory Lifecycle).

  What is shown.
  Of the whole there are two transition systems, both without faults. The one of all requests
  (AllRequests) has uploads with any name and any body: in its reachable states every file has a
  record, and every record is sound or has lost its blob and counts one file too many. Its clean
  runs (System), in which an accepted upload has a name in UTF-8 and a body that arrives whole,
  keep the deduplication invariant. Seen as a map from ids to name, time and content, upload,
  download and delete are the update, lookup and removal of an entry; and theorems say what goes
  wrong when a statement is refused, a reply lost, a body interrupted, an entry cached. Of the
  parts: no write of LocalStorage changes anything outside the base directory but for the
  directories that contain it, and what is stored is read back; the tables satisfy the schema
  under every schedule of faults (which is the database's doing); a listing is complete unless it
  was cut off; validation accepts exactly the listed names, types and sizes; sanitizing a name
  never panics, and cuts long names inside a letter; error texts are among seven constants; URLs
  parse back into their parts, and connection strings when their settings need no escaping. Of
  failures (Faults): whatever system call, statement or command fails while a file is uploaded or
  deleted, no file with another content is touched, and a reported success is true. Of requests
  side by side: the steps of an upload and of a delete, one call each, run alone are the functions
  of Service (Interleaving); any number of both, in any order of their calls, end under every fair
  schedule and then satisfy the deduplication invariant again (Concurrency, ConcurrentRequests),
  if the uploads are clean, no file is deleted twice at a time and no upload has the content of a
  file being deleted. Both conditions are needed: without the second an uploaded file is lost
  (\<open>race_loses_content\<close>), without the first shared content is destroyed
  (\<open>double_delete_destroys_shared\<close>). ConcurrentReads refines the steps: the SQL
  statement of a call and each of its Redis commands are steps of their own, and downloads, in
  steps as fine, listings and the time run beside them: a file that nobody deletes is there at
  every moment, and a download of it delivers its content if it is not cached. Of the start and
  the API (Server): how the start can end and when it panics, that a start on empty data is a
  start state of the transition systems, and that a posted file is downloaded unchanged. Of the
  end (Lifecycle): after a shutdown was called nothing new is accepted, a bounded number of events
  is left, and the process ends when the active requests have finished, for which it waits without
  a deadline.

  Bounds and termination.
  There is no fuel: every loop of the program runs over a list and is a structural recursion or
  has a measure (the blocks of SHA-256, the rounds of path cleaning). An upload and a delete make
  at most six calls, which is why six turns each are enough in Interleaving and Concurrency; a
  download makes at most five. Sizes and counts are integers; the places where their width matters
  (the INTEGER column of the counts, integers in JSON, the conversion of a float) check it.
  \<open>upload_ok\<close> asks for fewer than 2147483647 files, which keeps the reference count
  within its column. SHA-256 is computed, and agrees with the published digests of two messages
  (KnownAnswers); contents with the same digest are not assumed away: where it matters,
  \<open>no_collision\<close> says that no other stored content has the digest of the new one.

  Not modelled: PostgreSQL, Redis, SeaweedFS, gin, viper, pgx and go-redis beyond their documented
  behaviour stated where they are used; the text form of JSON; log messages; contexts and timeouts
  (their expiry shows as an error of the call); symbolic links; a failing Close of a file, whose
  error the program drops; the rounding of times to microseconds by PostgreSQL; what gin answers
  to a request without a route; the tests, the container files and the documents, which are
  compared with the code in the list of findings.
\<close>

section \<open>The service on its contracts\<close>

text \<open>
  C1: Start from an empty store and let any requests follow one another while no call of the disk,
  the database or the cache fails: uploads with any name and any body (the names the database
  refuses and the bodies that break off included) that draw new UUIDs, deletes and downloads of any
  id, and listings. Then every file
  has a record, no two records share a path, and every record is in one of two states. It is sound:
  its reference count is the number of files with its hash and at least one, and the blob at its
  path is there, hashes to its key and has the recorded size. Or its blob is lost, and its count is
  one more than the number of files with its hash.
\<close>

theorem reachable_dedup:
  assumes "sys_reach ls (s, r)"
  shows "(\<forall>h x. storages r h = Some x \<longrightarrow>
        ReferenceCount x = int (card {i. \<exists>f. files r i = Some f \<and> ref_hash f = h})
        \<and> 0 < ReferenceCount x
        \<and> (\<exists>c. local_blobs ls s (StStoragePath x) = Some c \<and> sha256_hex c = h
              \<and> StSize x = int (length c))
      \<or> ReferenceCount x = int (card {i. \<exists>f. files r i = Some f \<and> ref_hash f = h}) + 1
        \<and> local_blobs ls s (StStoragePath x) = None)
    \<and> (\<forall>h h' x x'. storages r h = Some x \<and> storages r h' = Some x' \<and> StStoragePath x = StStoragePath x' \<longrightarrow> h = h')
    \<and> (\<forall>i f. files r i = Some f \<longrightarrow> storages r (ref_hash f) \<noteq> None)"
proof (intro conjI allI impI)
  note inv = store_invD [OF sys_reach_inv [OF assms]]
  show "storages r (ref_hash f) \<noteq> None" if "files r i = Some f" for i f
    using fr.foreign_key [OF inv(2) that] .
  show "h = h'" if "storages r h = Some x \<and> storages r h' = Some x' \<and> StStoragePath x = StStoragePath x'" for h h' x x'
    using repo_contract_maps(3) [OF inv(2)] that by blast
  show "ReferenceCount x = int (card {i. \<exists>f. files r i = Some f \<and> ref_hash f = h})
        \<and> 0 < ReferenceCount x
        \<and> (\<exists>c. local_blobs ls s (StStoragePath x) = Some c \<and> sha256_hex c = h \<and> StSize x = int (length c))
      \<or> ReferenceCount x = int (card {i. \<exists>f. files r i = Some f \<and> ref_hash f = h}) + 1
        \<and> local_blobs ls s (StStoragePath x) = None" if "storages r h = Some x" for h x
    using inv(3) [OF that] finite_referrers [OF fr.finite_files [OF inv(2)], of h]
    unfolding record_ok_def referrers_def [of "files r" h, symmetric] by (auto simp: card_gt_0_iff)
qed

theorem reachable_dedup_witness:
  "\<exists>s r. storages r (ref_hash (new_ref 0 demo_bytes demo_header)) \<noteq> None
     \<and> files r demo_id = Some (new_ref 0 demo_bytes demo_header) \<and> sys_reach demo_store (s, r)"
proof (rule demo_uploaded)
  fix s r
  assume "clean_reach demo_store (s, r)" and f: "files r = [demo_id \<mapsto> new_ref 0 demo_bytes demo_header]"
  from clean_reach_sys [OF this(1)] have reach: "sys_reach demo_store (s, r)" .
  moreover have "files r demo_id = Some (new_ref 0 demo_bytes demo_header)" using f by simp
  ultimately show ?thesis using reachable_dedup [OF reach] by blast
qed

text \<open>
  C2: In a clean run, one whose uploads are all refused by validation or have a name in UTF-8 and a
  body that arrives whole, the store is deduplicated at every moment: the reference count of each
  storage record is the number of files with its hash and at least one, the blob at its path
  is there, hashes to the record's key and has the recorded size, no blob is without a record,
  and every file has a record. Without these conditions this fails, as the two theorems on refused
  and on interrupted uploads below show.
\<close>

theorem clean_runs_dedup:
  assumes "clean_reach ls (s, r)"
  shows "(\<forall>h x. storages r h = Some x \<longrightarrow>
        ReferenceCount x = int (card {i. \<exists>f. files r i = Some f \<and> ref_hash f = h})
        \<and> 0 < ReferenceCount x
        \<and> (\<exists>c. local_blobs ls s (StStoragePath x) = Some c \<and> sha256_hex c = h
              \<and> StSize x = int (length c)))
    \<and> (\<forall>p. plain_path p \<and> local_blobs ls s p \<noteq> None \<longrightarrow>
        (\<exists>h x. storages r h = Some x \<and> StStoragePath x = p))
    \<and> (\<forall>i f. files r i = Some f \<longrightarrow> storages r (ref_hash f) \<noteq> None)"
proof (intro conjI allI impI)
  note inv = sys_invD [OF clean_reach_inv [OF assms]]
  show "\<exists>h x. storages r h = Some x \<and> StStoragePath x = p"
    if "plain_path p \<and> local_blobs ls s p \<noteq> None" for p
    using inv(3) that by (simp add: dedup_ok_def)
  show "storages r (ref_hash f) \<noteq> None" if "files r i = Some f" for i f
    using fr.foreign_key [OF inv(2) that] .
  fix h x assume x: "storages r h = Some x"
  have "finite (referrers (files r) h)" by (rule finite_referrers [OF fr.finite_files [OF inv(2)]])
  moreover have "referrers (files r) h \<noteq> {}" "ReferenceCount x = int (card (referrers (files r) h))"
    using inv(3) x by (simp_all add: dedup_ok_def)
  ultimately show "ReferenceCount x = int (card {i. \<exists>f. files r i = Some f \<and> ref_hash f = h})"
    "0 < ReferenceCount x"
    by (simp_all add: referrers_def card_gt_0_iff)
  show "\<exists>c. local_blobs ls s (StStoragePath x) = Some c \<and> sha256_hex c = h \<and> StSize x = int (length c)"
    using dedup_blob [OF inv(3) x] by blast
qed

theorem clean_runs_dedup_witness:
  "\<exists>s r. local_blobs demo_store s demo_path = Some demo_bytes \<and>
     (\<exists>h x. storages r h = Some x \<and> StStoragePath x = demo_path \<and> ReferenceCount x = 1)"
proof (rule demo_uploaded)
  fix s r
  assume "clean_reach demo_store (s, r)"
    and st: "storages r = [sha256_hex demo_bytes \<mapsto> new_storage demo_path 0 demo_bytes demo_header]"
    and bl: "local_blobs demo_store s = [demo_path \<mapsto> demo_bytes]"
  from clean_runs_dedup [OF this(1)] have
    "plain_path demo_path \<and> local_blobs demo_store s demo_path \<noteq> None \<longrightarrow>
      (\<exists>h x. storages r h = Some x \<and> StStoragePath x = demo_path)" by blast
  moreover have "plain_path demo_path" using canonical_uuid_path demo_uuids(1) by blast
  ultimately show ?thesis using bl st by (intro exI [of _ s] exI [of _ r]) simp
qed

text \<open>
  In a clean run, whose accepted uploads have a name in UTF-8 and a body that arrives whole, no
  content is stored twice: two blobs with the same digest are the same blob, however many files
  share it.
\<close>

theorem content_stored_once:
  assumes "clean_reach ls (s, r)" and "plain_path p" and "plain_path q"
    and "local_blobs ls s p = Some c" and "local_blobs ls s q = Some c'"
    and "sha256_hex c = sha256_hex c'"
  shows "p = q"
proof -
  note inv = sys_invD [OF clean_reach_inv [OF assms(1)]]
  have rec: "\<exists>x. storages r (sha256_hex b) = Some x \<and> StStoragePath x = u"
    if u: "plain_path u" "local_blobs ls s u = Some b" for u b
  proof -
    obtain h x where x: "storages r h = Some x" "StStoragePath x = u"
      using inv(3) u by (auto simp: dedup_ok_def)
    then have "sha256_hex b = h" using dedup_blob [OF inv(3) x(1)] u(2) by auto
    with x show ?thesis by blast
  qed
  show ?thesis using rec [OF assms(2,4)] rec [OF assms(3,5)] assms(6) by auto
qed

theorem content_stored_once_witness:
  "\<exists>s. local_blobs demo_store s demo_path = Some demo_bytes \<and>
     (\<forall>q. plain_path q \<longrightarrow> local_blobs demo_store s q = Some demo_bytes \<longrightarrow> demo_path = q)"
proof (rule demo_uploaded)
  fix s r
  assume reach: "clean_reach demo_store (s, r)"
    and bl: "local_blobs demo_store s = [demo_path \<mapsto> demo_bytes]"
  have "plain_path demo_path" using canonical_uuid_path demo_uuids(1) by blast
  from content_stored_once [OF reach this] bl show ?thesis
    by (intro exI [of _ s]) (metis map_upd_Some_unfold)
qed

text \<open>
  C3: Seen by its users the store is a map from ids to a name, a time and a content. An upload
  that meets its conditions returns the file with the name, the size and the digest of what was
  sent, and its only effect on that map is the new entry, also when the content was stored
  before and is now shared.
\<close>

theorem upload_refines:
  assumes "sys_inv ls (s, r)"
    and "upload_ok canonical_uuid (local_blobs ls s) (files r) path fileID rd header"
    and "no_collision ls s (rd_data rd)"
  shows "\<exists>f w'. Upload (file_service ls) path fileID now rd header (s, r) = (Inr f, w')
    \<and> sys_inv ls w' \<and> ID f = fileID \<and> Name f = HName header \<and> GetSize f = int (length (rd_data rd))
    \<and> GetChecksum f = sha256_hex (rd_data rd)
    \<and> view ls w' = (view ls (s, r))(fileID \<mapsto> (HName header, now, rd_data rd))"
proof -
  from Upload_view [OF assms, of now] obtain f w' where
    u: "Upload (file_service ls) path fileID now rd header (s, r) = (Inr f, w')"
      "ID f = fileID" "Name f = HName header" "GetSize f = int (length (rd_data rd))"
      "GetChecksum f = sha256_hex (rd_data rd)"
      "view ls w' = (view ls (s, r))(fileID \<mapsto> (HName header, now, rd_data rd))" by blast
  moreover have "sys_inv ls w'"
    using clean_step_inv [OF clean_step.upload [OF assms(2) u(1)] assms(1)] .
  ultimately show ?thesis by blast
qed

theorem upload_refines_witness:
  "\<exists>f w'. Upload (file_service demo_store) demo_path demo_id 5 (reader_of demo_bytes) demo_header
     (example_fs, empty_repo) = (Inr f, w') \<and> Name f = ''a.txt'' \<and> GetSize f = 3
     \<and> view demo_store w' demo_id = Some (''a.txt'', 5, demo_bytes)"
proof -
  have "HName demo_header = ''a.txt''" "length demo_bytes = 3"
    by (simp_all add: demo_header_def demo_bytes_def)
  then show ?thesis
    using upload_refines [OF demo_inv demo_upload_ok demo_no_collision, of 5] by auto
qed

text \<open>
  C5: A download that the cache does not answer returns the content and the name the map has for
  the id, and leaves the map as it is.
\<close>

theorem download_refines:
  assumes "sys_inv ls (s, r)" and "canonical_uuid i" and "cached_file r i = None"
    and "view ls (s, r) i = Some (n, t, c)"
  shows "\<exists>f w'. Download (file_service ls) i (s, r) = (Inr (reader_of c, f), w')
    \<and> ID f = i \<and> Name f = n \<and> CreatedAt f = t \<and> sys_inv ls w' \<and> view ls w' = view ls (s, r)"
  using Download_view [OF assms] Download_sys_inv [OF assms(1)] by blast

theorem download_refines_witness:
  "\<exists>w f w'. Download (file_service demo_store) demo_id w = (Inr (reader_of demo_bytes, f), w')
     \<and> Name f = HName demo_header"
proof (rule demo_uploaded)
  fix s r
  assume inv: "sys_inv demo_store (s, r)" and c: "cached_file r = (\<lambda>i. None)"
    and f: "files r = [demo_id \<mapsto> new_ref 0 demo_bytes demo_header]"
    and st: "storages r = [sha256_hex demo_bytes \<mapsto> new_storage demo_path 0 demo_bytes demo_header]"
    and bl: "local_blobs demo_store s = [demo_path \<mapsto> demo_bytes]"
  have "view demo_store (s, r) demo_id = Some (HName demo_header, 0, demo_bytes)"
    by (simp add: view_def f st bl)
  from download_refines [OF inv demo_uuids(2) _ this] c show ?thesis by fastforce
qed

text \<open>
  C4: Deleting a file removes its entry from the map and nothing else; the content of other files
  stays, shared or not.
\<close>

theorem delete_refines:
  assumes "sys_inv ls (s, r)" and "canonical_uuid i" and "view ls (s, r) i \<noteq> None"
  shows "\<exists>w'. Delete (file_service ls) i (s, r) = (Ok (), w') \<and> sys_inv ls w'
    \<and> view ls w' = (view ls (s, r))(i := None)"
  using Delete_view [OF assms] clean_step_inv [OF clean_step.delete [OF assms(2)] assms(1)] by blast

theorem delete_refines_witness:
  "\<exists>w w'. view demo_store w demo_id \<noteq> None \<and> Delete (file_service demo_store) demo_id w = (Ok (), w')
     \<and> view demo_store w' demo_id = None"
proof (rule demo_uploaded)
  fix s r
  assume inv: "sys_inv demo_store (s, r)"
    and f: "files r = [demo_id \<mapsto> new_ref 0 demo_bytes demo_header]"
    and st: "storages r = [sha256_hex demo_bytes \<mapsto> new_storage demo_path 0 demo_bytes demo_header]"
    and bl: "local_blobs demo_store s = [demo_path \<mapsto> demo_bytes]"
  have "view demo_store (s, r) demo_id \<noteq> None" by (simp add: view_def f st bl)
  moreover obtain w' where "Delete (file_service demo_store) demo_id (s, r) = (Ok (), w')"
      "view demo_store w' = (view demo_store (s, r))(demo_id := None)"
    using delete_refines [OF inv demo_uuids(2) calculation] by blast
  ultimately show ?thesis by (intro exI [of _ "(s, r)"] exI [of _ w']) simp
qed

text \<open>
  What is uploaded is what the first download delivers: the bytes, the name and the size, whether or not the
  same content was stored before.
\<close>

theorem upload_download_roundtrip:
  assumes "sys_inv ls (s, r)"
    and "upload_ok canonical_uuid (local_blobs ls s) (files r) path fileID rd header"
    and "no_collision ls s (rd_data rd)" and "cached_file r fileID = None"
    and "Upload (file_service ls) path fileID now rd header (s, r) = (res, w')"
  shows "\<exists>f w''. Download (file_service ls) fileID w' = (Inr (reader_of (rd_data rd), f), w'')
    \<and> Name f = HName header \<and> GetSize f = int (length (rd_data rd))"
  using svc.Upload_Download [OF sys_invD [OF assms(1)] assms(2) assms(3) [unfolded no_collision_def] assms(4),
      where now = now] assms(5)
  unfolding file_service_def by (auto simp: joined_def GetSize_def)

theorem upload_download_roundtrip_witness:
  "\<exists>w f w'. Download (file_service demo_store) demo_id w = (Inr (reader_of demo_bytes, f), w')
     \<and> GetSize f = 3"
proof -
  obtain res w where "Upload (file_service demo_store) demo_path demo_id 0 (reader_of demo_bytes)
      demo_header (example_fs, empty_repo) = (res, w)" by (metis surj_pair)
  moreover have "cached_file empty_repo demo_id = None" by (simp add: cached_file_def empty_repo_def)
  ultimately show ?thesis
    using upload_download_roundtrip [OF demo_inv demo_upload_ok demo_no_collision, of 0 res w]
    by (fastforce simp: demo_bytes_def)
qed

section \<open>Error paths of the service\<close>

text \<open>
  An upload whose header does not validate returns that error without touching the storage or
  the repository, whatever they are.
\<close>

theorem invalid_upload_has_no_effect:
  assumes "ValidateFile (Some header) = Some e"
  shows "Upload sv path fileID now rd header w = (Inl e, w)"
  using assms by (cases w) (simp add: Upload_def)

theorem invalid_upload_has_no_effect_witness:
  "Upload (file_service demo_store) demo_path demo_id 0 (reader_of []) (demo_header\<lparr>HName := []\<rparr>)
     (example_fs, empty_repo)
   = (Inl (wrapf ''invalid filename: '' (ErrorString ''filename too short'')), (example_fs, empty_repo))"
proof -
  have "ValidateFile (Some (demo_header\<lparr>HName := []\<rparr>)) =
      Some (wrapf ''invalid filename: '' (ErrorString ''filename too short''))"
    by (simp add: ValidateFile_def ValidateFilename_def MinFilenameLen_def)
  then show ?thesis by (rule invalid_upload_has_no_effect)
qed

text \<open>
  C27: An upload with an acceptable header whose body breaks off returns the error of the reader and changes nothing in the
  database, but leaves what had arrived under its path: a blob that no record names.
\<close>

theorem interrupted_upload_leaves_blob:
  assumes "sys_inv ls (s, r)" and "ValidateFile (Some header) = None" and "canonical_uuid path"
    and "rd_err rd = Some e"
  shows "\<exists>s'. Upload (file_service ls) path fileID now rd header (s, r) = (Inl e, s', r)
    \<and> local_blobs ls s' = (local_blobs ls s)(path \<mapsto> rd_data rd)"
proof -
  have inv: "local_inv ls s" and p: "plain_path path"
    using sys_invD(1) [OF assms(1)] canonical_uuid_path [OF assms(3)] by auto
  let ?q = "root_of ls s @ [path]"
  let ?s = "s\<lparr>nodes := put_node (put_node (nodes s) ?q (FileNode [])) ?q (FileNode (rd_data rd))\<rparr>"
  have "local_Put ls path rd (HSize header) s =
      (\<lparr>pr_n = int (length (rd_data rd)), pr_err = Some e, pr_consumed = rd_data rd\<rparr>, ?s)"
    using local_Put_plain [OF inv p, of rd "HSize header"] assms(4) by simp
  then have "Upload (file_service ls) path fileID now rd header (s, r) = (Inl e, ?s, r)"
    using assms(2) by (simp add: Upload_def file_service_def NewStorageService_def local_storage_ops_def)
  moreover have "local_blobs ls ?s = (local_blobs ls s)(path \<mapsto> rd_data rd)"
    by (auto simp: local_blobs_def root_of_def fun_eq_iff lookup_put_node)
  ultimately show ?thesis by blast
qed

theorem interrupted_upload_leaves_blob_witness:
  "\<exists>s'. Upload (file_service demo_store) demo_path demo_id 0
     \<lparr>rd_data = [1], rd_err = Some (ErrorString ''unexpected EOF'')\<rparr> demo_header (example_fs, empty_repo)
     = (Inl (ErrorString ''unexpected EOF''), s', empty_repo)
   \<and> local_blobs demo_store s' demo_path = Some [1]"
  using interrupted_upload_leaves_blob [OF demo_inv demo_header_ok(1) demo_uuids(1),
      of "\<lparr>rd_data = [1], rd_err = Some (ErrorString ''unexpected EOF'')\<rparr>"] by fastforce

text \<open>
  C26: When the database refuses the file row of an upload of new content (here because the name is
  not valid UTF-8, which validation lets through), the clean-up deletes the blob but not the
  storage record: the record is written with a count of one and \<open>DeleteStorage\<close> only deletes
  records whose count is zero. The next upload of the same content is taken for a duplicate,
  succeeds, and cannot be downloaded.
\<close>

theorem refused_upload_poisons_content:
  assumes "sys_inv ls (s, r)" and "storages r (sha256_hex (rd_data rd)) = None"
    and "rd_err rd = None" and "ValidateFile (Some bad) = None" and "\<not> ValidString (HName bad)"
    and "canonical_uuid path" and "local_blobs ls s path = None"
    and "upload_ok canonical_uuid (local_blobs ls s) (files r) path' fileID' rd header"
    and "cached_file r fileID' = None"
  shows "\<exists>e s1 r1 f s2 r2 e' w3.
      Upload (file_service ls) path fileID now rd bad (s, r) = (Inl e, s1, r1)
    \<and> local_blobs ls s1 = local_blobs ls s \<and> files r1 = files r
    \<and> storages r1 (sha256_hex (rd_data rd)) \<noteq> None
    \<and> Upload (file_service ls) path' fileID' now' rd header (s1, r1) = (Inr f, s2, r2)
    \<and> ID f = fileID' \<and> Download (file_service ls) fileID' (s2, r2) = (Inl e', w3)"
proof -
  let ?h = "sha256_hex (rd_data rd)" and ?x = "new_storage path now (rd_data rd) bad"
  note inv = sys_invD [OF assms(1)]
  obtain e s1 r1 where u1: "Upload (file_service ls) path fileID now rd bad (s, r) = (Inl e, s1, r1)"
      "local_inv ls s1" "healthy r1" "files r1 = files r" "local_blobs ls s1 = local_blobs ls s"
      "cached_file r1 = cached_file r" "storages r1 = (storages r)(?h \<mapsto> ?x)"
    using svc.Upload_refused [OF inv assms(4,5,3,6,7,2), of fileID now] unfolding file_service_def by blast
  have up: "upload_ok canonical_uuid (local_blobs ls s1) (files r1) path' fileID' rd header"
    using assms(8) u1 by simp
  have old: "storages r1 ?h = Some ?x" using u1 by simp
  have room: "count_ok (ReferenceCount ?x + 1)" by (simp add: count_ok_def)
  obtain s2 r2 t where u2: "Upload (file_service ls) path' fileID' now' rd header (s1, r1) =
        (Inr (joined fileID' (new_ref now' (rd_data rd) header) ?x), s2, r2)"
      "local_inv ls s2" "healthy r2" "cached_file r2 = cached_file r1"
      "storages r2 = (storages r1)(?h \<mapsto> ?x\<lparr>ReferenceCount := ReferenceCount ?x + 1, UpdatedAt := t\<rparr>)"
      "files r2 = (files r1)(fileID' \<mapsto> new_ref now' (rd_data rd) header)"
      "local_blobs ls s2 = local_blobs ls s1"
    using svc.Upload_duplicate [OF u1(2,3) up old room, of now'] unfolding file_service_def by blast
  let ?y = "?x\<lparr>ReferenceCount := ReferenceCount ?x + 1, UpdatedAt := t\<rparr>"
  have "canonical_uuid fileID'" using assms(8) by (simp add: upload_ok_def)
  moreover have "files r2 fileID' = Some (new_ref now' (rd_data rd) header)" using u2 by simp
  moreover have "storages r2 (ref_hash (new_ref now' (rd_data rd) header)) = Some ?y" using u2 by simp
  moreover have "cached_file r2 fileID' = None" using u1 u2 assms(9) by simp
  moreover have "plain_path (StStoragePath ?y)" using canonical_uuid_path [OF assms(6)] by simp
  moreover have "local_blobs ls s2 (StStoragePath ?y) = None" using u1 u2 assms(7) by simp
  ultimately obtain e' r3 where "Download (file_service ls) fileID' (s2, r2) = (Inl e', s2, r3)"
    using svc.Download_lost [OF u2(2,3)] unfolding file_service_def by blast
  then show ?thesis using u1 u2 by (intro exI [of _ e] exI [of _ s1] exI [of _ r1]
      exI [of _ "joined fileID' (new_ref now' (rd_data rd) header) ?x"]
      exI [of _ s2] exI [of _ r2] exI [of _ e'] exI [of _ "(s2, r3)"]) (simp add: joined_def)
qed

theorem refused_upload_poisons_content_witness:
  "\<exists>w f w2 e w3. Upload (file_service demo_store) demo_path2 demo_id 0 (reader_of demo_bytes) demo_header w
     = (Inr f, w2) \<and> Download (file_service demo_store) demo_id w2 = (Inl e, w3)"
proof -
  have "upload_ok canonical_uuid (local_blobs demo_store example_fs) (files empty_repo)
      demo_path2 demo_id (reader_of demo_bytes) demo_header"
    by (simp add: upload_ok_def demo_uuids demo_uuids2 demo_header_ok demo_blobs demo_files)
  moreover have "storages empty_repo (sha256_hex (rd_data (reader_of demo_bytes))) = None"
    by (simp add: demo_files)
  moreover have "cached_file empty_repo demo_id = None" by (simp add: cached_file_def empty_repo_def)
  ultimately show ?thesis
    using refused_upload_poisons_content [OF demo_inv _ _ bad_header_ok demo_uuids(1) demo_blobs,
        of "reader_of demo_bytes" demo_path2 demo_id demo_header demo_id2 0 0] by fastforce
qed

text \<open>
  C24: The error of \<open>DecrementStorageRef\<close> is logged and dropped, and the count it comes with is
  zero. When that statement fails while a file is deleted whose content another file shares, the
  blob is deleted all the same: the delete succeeds, and the other file cannot be downloaded any
  more.
\<close>

theorem lost_count_destroys_shared_content:
  assumes "sys_inv ls (s, r)" and "canonical_uuid i" and "canonical_uuid j" and "i \<noteq> j"
    and "files r i = Some f" and "files r j = Some g" and "ref_hash g = ref_hash f"
    and "cached_file r j = None"
  shows "\<exists>s' r' e' w''.
      Delete (file_service ls) i (s, r\<lparr>db_events := [DbOk, DbOk, DbFail e]\<rparr>) = (Ok (), s', r')
    \<and> view ls (s, r) j \<noteq> None \<and> view ls (s', r') j = None
    \<and> Download (file_service ls) j (s', r') = (Inl e', w'')"
proof -
  note inv = sys_invD [OF assms(1)]
  let ?h = "ref_hash f"
  obtain x c where x: "storages r ?h = Some x" "local_blobs ls s (StStoragePath x) = Some c"
      "sha256_hex c = ?h"
    using view_Some [OF assms(1,5)] by blast
  have path: "plain_path (StStoragePath x)" using dedup_blob [OF inv(3) x(1)] by blast
  have ne: "?h \<noteq> []" using x(3) sha256_hex_neq_Nil by metis
  have cnt: "ReferenceCount x \<noteq> 0"
  proof -
    have "finite (referrers (files r) ?h)" by (rule finite_referrers [OF fr.finite_files [OF inv(2)]])
    then show ?thesis using inv(3) x(1) by (auto simp: dedup_ok_def)
  qed
  obtain r1 where r1: "DeleteByID i r = (None, r1)" "healthy r1" "storages r1 = storages r"
      "cached_file r1 = (cached_file r)(i := None)" "files r1 = (files r)(i := None)"
    using DeleteByID_done [OF inv(2) assms(2)] by blast
  obtain s' where s': "st_Delete (local_storage_ops ls) (StStoragePath x) s = (None, s')"
      "local_inv ls s'" "local_blobs ls s' = (local_blobs ls s)(StStoragePath x := None)"
    using lfs.delete_hit [OF inv(1) path x(2)] by blast
  have e1: "r1\<lparr>db_events := []\<rparr> = r1" using r1(2) by simp
  have "Delete (file_service ls) i (s, r\<lparr>db_events := [DbOk, DbOk, DbFail e]\<rparr>) = (Ok (), s', r1)"
    using GetStorageHashByFileID_ok [OF inv(2) assms(2,5) ne, of "[DbOk, DbFail e]"]
      DeleteByID_ok [OF healthy_simps(1) [OF inv(2)] r1(1), of "[DbFail e]"]
      GetStorageByHash_hit [OF r1(2), of ?h x] DeleteStorage_kept [OF r1(2), of ?h x] r1(3) x(1) cnt s'(1)
    by (simp add: Delete_def file_service_def NewStorageService_def file_repository_def
        DecrementStorageRef_fail cleanup_storage_def e1)
  moreover have "files r1 j = Some g" "cached_file r1 j = None" using r1 assms(4,6,8) by auto
  moreover have "view ls (s, r) j \<noteq> None" using view_Some [OF assms(1,6)] by auto
  moreover have "storages r1 (ref_hash g) = Some x" using r1 x assms(7) by simp
  moreover have "local_blobs ls s' (StStoragePath x) = None" using s'(3) by simp
  moreover have "view ls (s', r1) j = None"
    using calculation by (simp add: view_def)
  moreover obtain e' r3 where "Download (file_service ls) j (s', r1) = (Inl e', s', r3)"
    using svc.Download_lost [OF s'(2) r1(2) assms(3) calculation(2,5,3) path calculation(6)] calculation
    unfolding file_service_def by blast
  ultimately show ?thesis by blast
qed

theorem lost_count_destroys_shared_content_witness:
  "\<exists>w s' r' e w''. Delete (file_service demo_store) demo_id w = (Ok (), s', r')
     \<and> view demo_store (s', r') demo_id2 = None
     \<and> Download (file_service demo_store) demo_id2 (s', r') = (Inl e, w'')"
proof (rule demo_shared)
  fix s r
  assume "sys_inv demo_store (s, r)" and c: "cached_file r = (\<lambda>i. None)"
    and f: "files r = [demo_id \<mapsto> new_ref 0 demo_bytes demo_header, demo_id2 \<mapsto> new_ref 0 demo_bytes demo_header]"
  from lost_count_destroys_shared_content [OF this(1) demo_uuids(2) demo_uuids2(2), of
      "new_ref 0 demo_bytes demo_header" "new_ref 0 demo_bytes demo_header" ErrNoRows] c f demo_distinct
  show ?thesis by (metis fun_upd_def)
qed

section \<open>The answers of the handlers\<close>

text \<open>
  C11: An upload request is always answered, and with one of three answers, whatever the form, the
  storage and the repository do: 400 and nothing has changed, 500 with a message from a closed
  list, or 201 with the new file, under a name that passes validation.
\<close>

theorem upload_answer:
  "\<exists>calls w'. handler_Upload sv pb path fileID now form w = (Ok calls, w') \<and>
     ((\<exists>m. calls = [JSON 400 (ErrorMsg m)] \<and> w' = w)
    \<or> (\<exists>m. calls = [JSON 500 (ErrorMsg m)] \<and> m \<in> set (''file processing error'' # safe_messages))
    \<or> (\<exists>f. calls = [JSON 201 (FileBody f)] \<and> ID f = fileID \<and> CreatedAt f = now
           \<and> ValidateFilename (Name f) = None))"
  by (rule handler_Upload_answer)

text \<open>
  C12: Downloading and viewing a file of the store that is not in the cache is answered with 200,
  exactly the bytes that were uploaded, their number as the content length, and the name as the
  name of the attachment.
\<close>

theorem served_content:
  assumes "sys_inv ls (s, r)" and "canonical_uuid i" and "cached_file r i = None"
    and "view ls (s, r) i = Some (n, t, c)" and "n \<noteq> []"
  shows "\<exists>calls calls' w'.
      handler_Download (file_service ls) i (s, r) = (calls, w')
    \<and> handler_View (file_service ls) i (s, r) = (calls', w') \<and> view ls w' = view ls (s, r)
    \<and> rs_status (respond calls) = 200 \<and> rs_status (respond calls') = 200
    \<and> rs_bytes (respond calls) = c \<and> rs_bytes (respond calls') = c
    \<and> map_of (rs_headers (respond calls)) ''Content-Length'' = Some (Itoa (int (length c)))
    \<and> map_of (rs_headers (respond calls')) ''Content-Length'' = Some (Itoa (int (length c)))
    \<and> map_of (rs_headers (respond calls)) ''Content-Disposition'' = Some (''attachment; filename='' @ quoted n)
    \<and> map_of (rs_headers (respond calls')) ''Content-Disposition'' = Some (''inline; filename='' @ quoted n)"
proof -
  obtain f w' where d: "Download (file_service ls) i (s, r) = (Inr (reader_of c, f), w')"
      "Name f = n" "GetSize f = int (length c)" "view ls w' = view ls (s, r)"
    using Download_size [OF assms(1-4)] by blast
  have "i \<noteq> []" using canonical_uuid_text(1) [OF assms(2)] .
  then show ?thesis using d assms(5)
    unfolding handler_Download_def handler_View_def
    by (simp add: safe_name_def respond_stream respond_headers del: append.simps)
qed

theorem served_content_witness:
  "\<exists>calls w w'. handler_Download (file_service demo_store) demo_id w = (calls, w')
     \<and> rs_status (respond calls) = 200 \<and> rs_bytes (respond calls) = demo_bytes"
proof (rule demo_uploaded)
  fix s r
  assume inv: "sys_inv demo_store (s, r)" and c: "cached_file r = (\<lambda>i. None)"
    and f: "files r = [demo_id \<mapsto> new_ref 0 demo_bytes demo_header]"
    and st: "storages r = [sha256_hex demo_bytes \<mapsto> new_storage demo_path 0 demo_bytes demo_header]"
    and bl: "local_blobs demo_store s = [demo_path \<mapsto> demo_bytes]"
  have "view demo_store (s, r) demo_id = Some (HName demo_header, 0, demo_bytes)"
    by (simp add: view_def f st bl)
  moreover have "HName demo_header \<noteq> []" by (simp add: demo_header_def)
  ultimately show ?thesis using served_content [OF inv demo_uuids(2)] c by fastforce
qed

text \<open>
  C25: The second download of a file within an hour of the first is answered with 500 and no
  content, although the file is there and nothing has changed or failed: the cached entry has no
  storage path.
\<close>

theorem second_download_fails:
  assumes "sys_inv ls (s, r)" and "canonical_uuid i" and "cached_file r i = None"
    and "files r i = Some f" and "storages r (ref_hash f) = Some x"
    and "json_time_ok (ref_created f) \<and> json_time_ok (StCreatedAt x) \<and> json_time_ok (UpdatedAt x)"
    and "0 \<le> dt" and "dt < one_hour"
  shows "\<exists>c calls s' r' calls' w''.
      handler_Download (file_service ls) i (s, r) = (calls, s', r')
    \<and> rs_status (respond calls) = 200 \<and> rs_bytes (respond calls) = c \<and> sha256_hex c = ref_hash f
    \<and> handler_Download (file_service ls) i (s', r'\<lparr>clock := clock r' + dt\<rparr>) = (calls', w'')
    \<and> rs_status (respond calls') = 500 \<and> rs_bytes (respond calls') = []
    \<and> view ls (s', r'\<lparr>clock := clock r' + dt\<rparr>) i \<noteq> None"
proof -
  note inv = sys_invD [OF assms(1)]
  have ne: "i \<noteq> []" using canonical_uuid_text(1) [OF assms(2)] .
  obtain c where c: "local_blobs ls s (StStoragePath x) = Some c" "sha256_hex c = ref_hash f"
      "plain_path (StStoragePath x)"
    using dedup_blob [OF inv(3) assms(5)] by blast
  obtain r' where first: "GetByID i r = (Inr (joined i f x), r')"
      "GetByID i (r'\<lparr>clock := clock r + dt\<rparr>) = (Inr (strip_File (joined i f x)), r'\<lparr>clock := clock r + dt\<rparr>)"
      "clock r' = clock r" "files r' = files r" "storages r' = storages r"
    using cached_read_gone [OF inv(2) assms(2-8)] by blast
  let ?f = "joined i f x" and ?r = "r'\<lparr>clock := clock r' + dt\<rparr>"
  have path: "GetStoragePath ?f = StStoragePath x" by (simp add: GetStoragePath_def joined_def)
  obtain e where e: "local_Get ls [] s = (Inr \<lparr>rd_data = [], rd_err = Some e\<rparr>, s)"
    using local_Get_empty [OF inv(1)] by blast
  have d1: "Download (file_service ls) i (s, r) = (Inr (reader_of c, ?f), s, r')"
    using first(1) lfs.get_hit [OF inv(1) c(3,1)] path
    by (simp add: Download_def file_service_def NewStorageService_def file_repository_def)
  have d2: "Download (file_service ls) i (s, ?r) =
      (Inr (\<lparr>rd_data = [], rd_err = Some e\<rparr>, strip_File ?f), s, ?r)"
    using first(2,3) e GetStoragePath_strip
    by (simp add: Download_def file_service_def NewStorageService_def file_repository_def
        local_storage_ops_def)
  have v: "view ls (s, ?r) i \<noteq> None"
    using view_Some [OF assms(1,4)] view_cong [of ?r r ls s] first(4,5) by auto
  show ?thesis using d1 d2 v c(2) ne unfolding handler_Download_def
    by (simp add: respond_stream del: append.simps)
qed


theorem second_download_fails_witness:
  "\<exists>w calls w'. handler_Download (file_service demo_store) demo_id w = (calls, w')
     \<and> view demo_store w demo_id \<noteq> None \<and> rs_status (respond calls) = 500"
proof (rule demo_uploaded)
  fix s r
  assume inv: "sys_inv demo_store (s, r)" and c: "cached_file r = (\<lambda>i. None)"
    and f: "files r = [demo_id \<mapsto> new_ref 0 demo_bytes demo_header]"
    and st: "storages r = [sha256_hex demo_bytes \<mapsto> new_storage demo_path 0 demo_bytes demo_header]"
  let ?f = "new_ref 0 demo_bytes demo_header" and ?x = "new_storage demo_path 0 demo_bytes demo_header"
  have "json_time_ok 0" by code_simp
  then have "json_time_ok (ref_created ?f) \<and> json_time_ok (StCreatedAt ?x) \<and> json_time_ok (UpdatedAt ?x)"
    by (simp add: new_storage_def)
  then show ?thesis
    using second_download_fails [OF inv demo_uuids(2), of ?f ?x 5] c f st by (fastforce simp: one_hour_def)
qed

text \<open>
  C28: While nothing fails, a UUID that is neither in the table of files nor in the cache is answered with
  404 when it is downloaded or viewed, and with 500 and a message from a closed list when it is
  deleted; nothing changes.
\<close>

theorem unknown_id_answers:
  assumes "healthy r" and "canonical_uuid i" and "files r i = None" and "cached_file r i = None"
  shows "handler_Download (file_service ls) i (s, r) = ([JSON 404 (ErrorMsg ''file not found'')], s, r)
    \<and> handler_View (file_service ls) i (s, r) = ([JSON 404 (ErrorMsg ''file not found'')], s, r)
    \<and> (\<exists>m. m \<in> set safe_messages
          \<and> handler_Delete (file_service ls) i (s, r) = (Ok [JSON 500 (ErrorMsg m)], s, r))"
proof -
  obtain e where "Download (file_service ls) i (s, r) = (Inl e, s, r)"
    using svc.Download_missing [OF assms] unfolding file_service_def by blast
  moreover obtain e' where "Delete (file_service ls) i (s, r) = (Err e', s, r)"
    using svc.Delete_missing [OF assms(1-3)] unfolding file_service_def by blast
  ultimately show ?thesis using canonical_uuid_text(1) [OF assms(2)] SanitizeError_safe
    by (simp add: handler_Download_def handler_View_def handler_Delete_def)
qed

theorem unknown_id_answers_witness:
  "\<exists>m. handler_Delete (file_service demo_store) demo_id (example_fs, empty_repo)
     = (Ok [JSON 500 (ErrorMsg m)], example_fs, empty_repo)"
proof -
  have "cached_file empty_repo demo_id = None" by (simp add: cached_file_def empty_repo_def)
  moreover have "files empty_repo demo_id = None" by (simp add: demo_files)
  ultimately show ?thesis using unknown_id_answers [OF empty_repo_healthy demo_uuids(2)] by blast
qed

end
